(* ===== verification/Prelude.thy ===== *)
theory Prelude
  imports Main "HOL-Library.Word"
begin

text \<open>
  Shared vocabulary of the development: Rust's machine integers as words, \<open>Result\<close> and
  \<open>Option\<close> combinators, poisonable mutexes, saturating and checked arithmetic, byte codecs
  for integers (\<open>to_be_bytes\<close>, \<open>from_le_bytes\<close> and their kin), the bounded
  double-ended queue idiom (push at the back, pop the front while too long), and the three
  interfaces most components share: \<open>codec\<close> (encode, then decode), \<open>bounded_memory\<close>
  (a window that remembers the last entries) and \<open>step_machine\<close> (a total step function and
  its runs).
\<close>

unbundle bit_operations_syntax

named_theorems codec_simps \<open>round trips of the byte and text codecs\<close>
named_theorems window_simps \<open>bounded queues: what pushing and evicting keep\<close>
named_theorems result_simps \<open>case rules of the Result combinators\<close>

section \<open>Machine integers\<close>

type_synonym u8 = "8 word"
type_synonym u16 = "16 word"
type_synonym u32 = "32 word"
type_synonym u64 = "64 word"

text \<open>Rust's \<open>u_::MAX\<close>, \<open>saturating_add\<close> and \<open>checked_add\<close>.\<close>

definition word_max :: "'a::len word" where
  "word_max = - 1"

definition saturating_add :: "'a::len word \<Rightarrow> 'a word \<Rightarrow> 'a word" where
  "saturating_add a b = (if unat a + unat b < 2 ^ LENGTH('a) then a + b else word_max)"

definition checked_add :: "'a::len word \<Rightarrow> 'a word \<Rightarrow> 'a word option" where
  "checked_add a b = (if unat a + unat b < 2 ^ LENGTH('a) then Some (a + b) else None)"

lemma unat_word_max: "unat (word_max :: 'a::len word) = 2 ^ LENGTH('a) - 1"
  by (simp add: word_max_def unsigned_minus_1_eq_mask mask_eq_exp_minus_1)

lemma unat_saturating_add:
  "unat (saturating_add a b :: 'a::len word) = min (unat a + unat b) (2 ^ LENGTH('a) - 1)"
proof (cases "unat a + unat b < 2 ^ LENGTH('a)")
  case True
  then have "unat (a + b) = unat a + unat b" by (simp add: unat_word_ariths)
  with True show ?thesis by (simp add: saturating_add_def)
next
  case False
  then show ?thesis by (simp add: saturating_add_def unat_word_max)
qed

lemma checked_add_Some:
  "checked_add a b = Some c \<Longrightarrow> unat (c :: 'a::len word) = unat a + unat b"
  by (auto simp: checked_add_def unat_word_ariths split: if_splits)

lemma checked_add_None:
  "checked_add a (b :: 'a::len word) = None \<longleftrightarrow> 2 ^ LENGTH('a) \<le> unat a + unat b"
  by (auto simp: checked_add_def not_less)

lemma saturating_add_ge: "a \<le> saturating_add a (b :: 'a::len word)"
proof -
  have "unat a < 2 ^ LENGTH('a)" by (rule unsigned_less)
  then have "unat a \<le> 2 ^ LENGTH('a) - 1" by linarith
  then show ?thesis by (simp add: word_le_nat_alt unat_saturating_add)
qed

text \<open>A \<open>Duration\<close> or an \<open>Instant\<close> is a number of nanoseconds.\<close>

definition from_secs :: "nat \<Rightarrow> nat" where "from_secs s = s * 1000000000"

definition as_secs :: "nat \<Rightarrow> nat" where "as_secs d = d div 1000000000"

section \<open>Results, options and mutexes\<close>

text \<open>\<open>Result<T, E>\<close> is the sum \<open>'e + 'a\<close>, its \<open>Err\<close> on the left.\<close>

type_synonym ('a, 'e) result = "'e + 'a"

abbreviation Ok :: "'a \<Rightarrow> ('a, 'e) result" where
  "Ok \<equiv> Inr"

abbreviation Err :: "'e \<Rightarrow> ('a, 'e) result" where
  "Err \<equiv> Inl"

definition result_bind ::
  "('a, 'e) result \<Rightarrow> ('a \<Rightarrow> ('b, 'e) result) \<Rightarrow> ('b, 'e) result" where
  "result_bind r f = (case r of Inl e \<Rightarrow> Err e | Inr a \<Rightarrow> f a)"

definition map_err :: "('e \<Rightarrow> 'f) \<Rightarrow> ('a, 'e) result \<Rightarrow> ('a, 'f) result" where
  "map_err f r = (case r of Inl e \<Rightarrow> Err (f e) | Inr a \<Rightarrow> Ok a)"

definition ok_or :: "'a option \<Rightarrow> 'e \<Rightarrow> ('a, 'e) result" where
  "ok_or x e = (case x of None \<Rightarrow> Err e | Some a \<Rightarrow> Ok a)"

definition is_ok :: "('a, 'e) result \<Rightarrow> bool" where
  "is_ok r = (case r of Inl _ \<Rightarrow> False | Inr _ \<Rightarrow> True)"

lemma result_bind_simps [simp, result_simps]:
  "result_bind (Err e) f = Err e"
  "result_bind (Ok a) f = f a"
  by (simp_all add: result_bind_def)

lemma map_err_simps [simp, result_simps]:
  "map_err f (Err e) = Err (f e)"
  "map_err f (Ok a) = Ok a"
  by (simp_all add: map_err_def)

lemma ok_or_simps [simp, result_simps]:
  "ok_or None e = Err e"
  "ok_or (Some a) e = Ok a"
  by (simp_all add: ok_or_def)

lemma is_ok_simps [simp, result_simps]:
  "is_ok (Ok a)"
  "\<not> is_ok (Err e)"
  by (simp_all add: is_ok_def)

lemma result_bind_Ok_iff [result_simps]:
  "result_bind r f = Ok b \<longleftrightarrow> (\<exists>a. r = Ok a \<and> f a = Ok b)"
  by (cases r) auto

lemma ok_or_Ok_iff [result_simps]: "ok_or x e = Ok a \<longleftrightarrow> x = Some a"
  by (cases x) auto

lemma map_err_Ok_iff [result_simps]: "map_err f r = Ok a \<longleftrightarrow> r = Ok a"
  by (cases r) auto

text \<open>
  A \<open>std::sync::Mutex\<close>: locking fails once a thread panicked while it held the lock. No
  modelled operation panics while it holds one, so \<open>poisoned\<close> is only ever an input.
\<close>

datatype 'a mutex = Mutex (poisoned: bool) (mutex_data: 'a)

definition lock :: "'a mutex \<Rightarrow> 'e \<Rightarrow> ('a, 'e) result" where
  "lock m e = (if poisoned m then Err e else Ok (mutex_data m))"

definition unlock_with :: "'a mutex \<Rightarrow> 'a \<Rightarrow> 'a mutex" where
  "unlock_with m a = Mutex (poisoned m) a"

lemma lock_simps [simp, result_simps]:
  "lock (Mutex True a) e = Err e"
  "lock (Mutex False a) e = Ok a"
  by (simp_all add: lock_def)

lemma unlock_with_simps [simp]:
  "poisoned (unlock_with m a) = poisoned m"
  "mutex_data (unlock_with m a) = a"
  "unlock_with (Mutex p b) a = Mutex p a"
  by (simp_all add: unlock_with_def)

section \<open>Bounded double-ended queues\<close>

text \<open>\<open>while queue.len() > n { queue.pop_front(); }\<close>\<close>

fun evict :: "nat \<Rightarrow> 'a list \<Rightarrow> 'a list" where
  "evict n [] = []"
| "evict n (x # xs) = (if n < length (x # xs) then evict n xs else x # xs)"

lemma evict_drop: "evict n xs = drop (length xs - n) xs"
  by (induction xs) (auto simp: Suc_diff_le not_less)

lemma length_evict [simp, window_simps]: "length (evict n xs) = min (length xs) n"
  by (simp add: evict_drop)

lemma evict_small [simp, window_simps]: "length xs \<le> n \<Longrightarrow> evict n xs = xs"
  by (simp add: evict_drop)

lemma set_evict [window_simps]: "set (evict n xs) \<subseteq> set xs"
  by (simp add: evict_drop set_drop_subset)

lemma in_set_evictD: "x \<in> set (evict n xs) \<Longrightarrow> x \<in> set xs"
  using set_evict by fastforce

lemma distinct_evict [window_simps]: "distinct xs \<Longrightarrow> distinct (evict n xs)"
  by (simp add: evict_drop)

lemma evict_evict_append [simp, window_simps]: "evict n (evict n xs @ ys) = evict n (xs @ ys)"
  by (auto simp: evict_drop drop_drop intro: arg_cong [where f = "\<lambda>k. drop k xs"])

lemma map_evict [window_simps]: "map f (evict n xs) = evict n (map f xs)"
  by (simp add: evict_drop drop_map)

lemma evict_last [window_simps]: "0 < n \<Longrightarrow> x \<in> set (evict n (xs @ [x]))"
  by (simp add: evict_drop)

text \<open>
  An interface for "remembers the last entries": a client may rely on the bound, on the entry
  just recorded being present, and on nothing being invented.
\<close>

locale bounded_memory =
  fixes remember :: "'a \<Rightarrow> 'm \<Rightarrow> 'm"
    and entries :: "'m \<Rightarrow> 'a list"
    and bound :: "'m \<Rightarrow> nat"
  assumes bound_remember: "bound (remember x m) = bound m"
    and bound_pos: "0 < bound m"
    and entries_remember: "entries (remember x m) = evict (bound m) (entries m @ [x])"
begin

lemma length_remember: "length (entries (remember x m)) \<le> bound m"
  by (simp add: entries_remember)

lemma remember_present: "x \<in> set (entries (remember x m))"
  by (simp add: entries_remember bound_pos evict_last)

lemma remember_no_invention:
  "y \<in> set (entries (remember x m)) \<Longrightarrow> y = x \<or> y \<in> set (entries m)"
  by (auto simp: entries_remember dest: in_set_evictD)

lemma bound_fold: "bound (fold remember xs m) = bound m"
  by (induction xs arbitrary: m) (simp_all add: bound_remember)

lemma entries_fold:
  "entries (fold remember xs m) =
     (if xs = [] then entries m else evict (bound m) (entries m @ xs))"
proof (induction xs arbitrary: m)
  case Nil
  then show ?case by simp
next
  case (Cons x xs)
  show ?case
  proof (cases "xs = []")
    case True
    then show ?thesis by (simp add: entries_remember)
  next
    case False
    with Cons.IH [of "remember x m"] show ?thesis
      by (simp add: bound_remember entries_remember)
  qed
qed

text \<open>An entry stays until as many later ones as the bound have been recorded.\<close>

lemma recent_entry_kept:
  assumes "length xs < bound m"
  shows "x \<in> set (entries (fold remember xs (remember x m)))"
proof -
  have "entries (fold remember xs (remember x m)) =
      evict (bound m) (entries m @ x # xs)"
    using entries_fold [of "x # xs" m] by simp
  moreover have "x \<in> set (drop (length (entries m @ x # xs) - bound m) (entries m @ x # xs))"
    using assms by (cases "length (entries m @ x # xs) \<le> bound m") (auto simp: drop_append)
  ultimately show ?thesis by (simp add: evict_drop)
qed

end

section \<open>Step functions and their runs\<close>

locale step_machine =
  fixes step :: "'e \<Rightarrow> 's \<Rightarrow> 's"
    and inv :: "'s \<Rightarrow> bool"
  assumes step_inv: "inv s \<Longrightarrow> inv (step e s)"
begin

lemma run_inv: "inv s \<Longrightarrow> inv (fold step es s)"
  by (induction es arbitrary: s) (simp_all add: step_inv)

end

section \<open>Integers as bytes\<close>

text \<open>
  \<open>to_le_bytes\<close> and \<open>to_be_bytes\<close> of an \<open>n\<close>-byte integer, and the \<open>from_\<close> direction.
\<close>

definition to_le_bytes :: "nat \<Rightarrow> 'a::len word \<Rightarrow> u8 list" where
  "to_le_bytes n w = map (\<lambda>i. ucast (drop_bit (8 * i) w)) [0..<n]"

fun from_le_bytes :: "u8 list \<Rightarrow> 'a::len word" where
  "from_le_bytes [] = 0"
| "from_le_bytes (b # bs) = ucast b OR push_bit 8 (from_le_bytes bs)"

definition to_be_bytes :: "nat \<Rightarrow> 'a::len word \<Rightarrow> u8 list" where
  "to_be_bytes n w = rev (to_le_bytes n w)"

definition from_be_bytes :: "u8 list \<Rightarrow> 'a::len word" where
  "from_be_bytes bs = from_le_bytes (rev bs)"

lemma length_to_le_bytes [simp]: "length (to_le_bytes n w) = n"
  by (simp add: to_le_bytes_def)

lemma length_to_be_bytes [simp]: "length (to_be_bytes n w) = n"
  by (simp add: to_be_bytes_def)

lemma bit_from_le_bytes:
  "bit (from_le_bytes bs :: 'a::len word) k \<longleftrightarrow>
     k < LENGTH('a) \<and> k div 8 < length bs \<and> bit (bs ! (k div 8)) (k mod 8)"
proof (induction bs arbitrary: k)
  case Nil
  then show ?case by simp
next
  case (Cons b bs)
  show ?case
  proof (cases "k < 8")
    case True
    then show ?thesis by (auto simp: bit_simps)
  next
    case False
    then have k: "k div 8 = Suc ((k - 8) div 8)" "k mod 8 = (k - 8) mod 8"
      by (simp_all add: le_div_geq le_mod_geq not_less)
    have "\<not> bit b k" using False by (auto dest: bit_imp_le_length)
    with False k show ?thesis
      by (auto simp: bit_simps Cons.IH)
  qed
qed

lemma from_to_le_bytes [simp, codec_simps]:
  "LENGTH('a) \<le> 8 * n \<Longrightarrow> from_le_bytes (to_le_bytes n w) = (w :: 'a::len word)"
  by (rule bit_word_eqI)
    (auto simp: bit_from_le_bytes to_le_bytes_def bit_simps div_less_iff_less_mult
      less_mult_imp_div_less algebra_simps)

lemma from_to_be_bytes [simp, codec_simps]:
  "LENGTH('a) \<le> 8 * n \<Longrightarrow> from_be_bytes (to_be_bytes n w) = (w :: 'a::len word)"
  by (simp add: from_be_bytes_def to_be_bytes_def)

lemma to_from_le_bytes [simp, codec_simps]:
  assumes "8 * length bs \<le> LENGTH('a)"
  shows "to_le_bytes (length bs) (from_le_bytes bs :: 'a::len word) = bs"
proof (rule nth_equalityI)
  fix i assume "i < length (to_le_bytes (length bs) (from_le_bytes bs :: 'a word))"
  then have i: "i < length bs" by simp
  show "to_le_bytes (length bs) (from_le_bytes bs :: 'a word) ! i = bs ! i"
  proof (rule bit_word_eqI)
    fix k assume k: "k < LENGTH(8)"
    then have "(8 * i + k) div 8 = i" "(8 * i + k) mod 8 = k" by simp_all
    moreover have "8 * i + k < LENGTH('a)" using i k assms by simp
    ultimately show "bit (to_le_bytes (length bs) (from_le_bytes bs :: 'a word) ! i) k =
        bit (bs ! i) k"
      using i k by (simp add: to_le_bytes_def bit_simps bit_from_le_bytes)
  qed
qed simp

lemma to_from_be_bytes [simp, codec_simps]:
  assumes "8 * length bs \<le> LENGTH('a)"
  shows "to_be_bytes (length bs) (from_be_bytes bs :: 'a::len word) = bs"
  using to_from_le_bytes [where 'a = 'a, of "rev bs"] assms
  by (simp add: to_be_bytes_def from_be_bytes_def)

text \<open>\<open>chunks_exact(2)\<close>: an odd last byte is left out.\<close>

fun chunks_exact2 :: "'a list \<Rightarrow> ('a \<times> 'a) list" where
  "chunks_exact2 (a # b # xs) = (a, b) # chunks_exact2 xs"
| "chunks_exact2 _ = []"

lemma length_chunks_exact2 [simp]: "length (chunks_exact2 xs) = length xs div 2"
  by (induction xs rule: chunks_exact2.induct) simp_all

lemma chunks_exact2_concat:
  "chunks_exact2 (concat (map (\<lambda>x. [f x, g x]) xs)) = map (\<lambda>x. (f x, g x)) xs"
  by (induction xs) simp_all

lemma concat_chunks_exact2:
  "even (length xs) \<Longrightarrow> concat (map (\<lambda>(a, b). [a, b]) (chunks_exact2 xs)) = xs"
  by (induction xs rule: chunks_exact2.induct) simp_all

section \<open>Codecs\<close>

text \<open>
  The contract of a (possibly refusing) encoder and its decoder. Injectivity of the encoding,
  and the exact image of the decoder, follow once and for all. \<open>ok\<close> is \<open>Result::ok\<close>.
\<close>

definition ok :: "('a, 'e) result \<Rightarrow> 'a option" where
  "ok r = (case r of Inl _ \<Rightarrow> None | Inr a \<Rightarrow> Some a)"

lemma ok_simps [simp, result_simps]:
  "ok (Err e) = None"
  "ok (Ok a) = Some a"
  by (simp_all add: ok_def)

lemma ok_Some_iff [simp, result_simps]: "ok r = Some a \<longleftrightarrow> r = Ok a"
  by (cases r) simp_all

locale codec =
  fixes encode :: "'a \<Rightarrow> 'w option"
    and decode :: "'w \<Rightarrow> 'a option"
    and valid :: "'a \<Rightarrow> bool"
  assumes decode_encode: "valid a \<Longrightarrow> encode a = Some w \<Longrightarrow> decode w = Some a"
begin

lemma encode_inj:
  "valid a \<Longrightarrow> valid b \<Longrightarrow> encode a = Some w \<Longrightarrow> encode b = Some w \<Longrightarrow> a = b"
  using decode_encode by (metis option.inject)

end

text \<open>A codec whose decoder accepts nothing but encodings.\<close>

locale strict_codec = codec +
  assumes encode_decode: "decode w = Some a \<Longrightarrow> valid a \<and> encode a = Some w"
begin

lemma decode_iff: "decode w = Some a \<longleftrightarrow> valid a \<and> encode a = Some w"
  using decode_encode encode_decode by blast

lemma decode_inj: "decode v = Some a \<Longrightarrow> decode w = Some a \<Longrightarrow> v = w"
  using encode_decode by (metis option.inject)

end

section \<open>Sorting and removing duplicates\<close>

text \<open>\<open>sort\<close> followed by \<open>dedup\<close>.\<close>

lemma strict_sorted_remdups_adj: "sorted xs \<Longrightarrow> sorted_wrt (<) (remdups_adj xs)"
  for xs :: "'a::linorder list"
  by (induction xs rule: remdups_adj.induct) (auto simp: order_less_le)

lemma length_remdups_adj_sort: "length (remdups_adj (sort xs)) = card (set xs)"
  for xs :: "'a::linorder list"
  using strict_sorted_remdups_adj [of "sort xs"]
  by (metis distinct_card remdups_adj_set set_sort sorted_sort strict_sorted_iff)

lemma remdups_adj_sort_one: "length (remdups_adj (sort xs)) = 1 \<longleftrightarrow> (\<exists>x. set xs = {x})"
  for xs :: "'a::linorder list"
  by (simp only: length_remdups_adj_sort One_nat_def card_1_singleton_iff)

end
