(* ===== verification/Core_State.thy ===== *)
theory Core_State
  imports Prelude "HOL-Library.Sublist"
begin

text \<open>
  \<open>crates/analogconnect-core/src/state.rs\<close>: the seven lifecycle enums, their
  \<open>transition_to\<close> methods with the names used in errors, and the aggregated
  \<open>SystemStatus\<close>. A \<open>transition_to(&mut self, next)\<close> is a function from the state and the
  wanted state to the new state and the result. The interface \<open>transition_machine\<close> states
  what the seven share; runs of attempted transitions are reasoned about there once.
\<close>

section \<open>The enums\<close>

datatype BluetoothConnectionState =
  Disconnected | Connecting | Connected | ServicesResolved | Error

datatype MessageSyncState = Idle | Syncing | BackingOff | Error

datatype ContactSyncState = Idle | Syncing | BackingOff | Error

datatype HfpControlState =
  Disconnected | AclConnected | ServicesResolved | ProfileRegistered | RfcommConnecting
| RfcommConnected | SlcNegotiating | SlcReady | Error

datatype CallState = Idle | Incoming | Outgoing | Active | Held | Ended | Error

datatype AudioTransportState =
  Inactive | CodecNegotiating | ScoConnecting | ScoActive | ScoTearingDown | Error

datatype AndroidClientState =
  Disconnected | Connecting | Enrolled | Authenticated | Error

record TransitionError =
  machine :: string
  from_name :: string
  to_name :: string

section \<open>Transitions\<close>

fun MessageSyncState_name :: "MessageSyncState \<Rightarrow> string" where
  "MessageSyncState_name MessageSyncState.Idle = ''idle''"
| "MessageSyncState_name MessageSyncState.Syncing = ''syncing''"
| "MessageSyncState_name MessageSyncState.BackingOff = ''backing_off''"
| "MessageSyncState_name MessageSyncState.Error = ''error''"

fun MessageSyncState_edges :: "MessageSyncState \<Rightarrow> MessageSyncState list" where
  "MessageSyncState_edges MessageSyncState.Idle =
     [MessageSyncState.Syncing, MessageSyncState.Error]"
| "MessageSyncState_edges MessageSyncState.Syncing =
     [MessageSyncState.Idle, MessageSyncState.BackingOff, MessageSyncState.Error]"
| "MessageSyncState_edges MessageSyncState.BackingOff =
     [MessageSyncState.Syncing, MessageSyncState.Idle, MessageSyncState.Error]"
| "MessageSyncState_edges MessageSyncState.Error =
     [MessageSyncState.Idle, MessageSyncState.BackingOff]"

definition MessageSyncState_transition_to ::
  "MessageSyncState \<Rightarrow> MessageSyncState \<Rightarrow> MessageSyncState \<times> (unit, TransitionError) result"
  where
  "MessageSyncState_transition_to self next =
     (if next \<in> set (MessageSyncState_edges self) \<or> self = next then (next, Ok ())
      else (self, Err \<lparr>machine = ''message_sync'', from_name = MessageSyncState_name self,
                       to_name = MessageSyncState_name next\<rparr>))"

fun ContactSyncState_name :: "ContactSyncState \<Rightarrow> string" where
  "ContactSyncState_name ContactSyncState.Idle = ''idle''"
| "ContactSyncState_name ContactSyncState.Syncing = ''syncing''"
| "ContactSyncState_name ContactSyncState.BackingOff = ''backing_off''"
| "ContactSyncState_name ContactSyncState.Error = ''error''"

fun ContactSyncState_edges :: "ContactSyncState \<Rightarrow> ContactSyncState list" where
  "ContactSyncState_edges ContactSyncState.Idle =
     [ContactSyncState.Syncing, ContactSyncState.Error]"
| "ContactSyncState_edges ContactSyncState.Syncing =
     [ContactSyncState.Idle, ContactSyncState.BackingOff, ContactSyncState.Error]"
| "ContactSyncState_edges ContactSyncState.BackingOff =
     [ContactSyncState.Syncing, ContactSyncState.Idle, ContactSyncState.Error]"
| "ContactSyncState_edges ContactSyncState.Error =
     [ContactSyncState.Idle, ContactSyncState.BackingOff]"

definition ContactSyncState_transition_to ::
  "ContactSyncState \<Rightarrow> ContactSyncState \<Rightarrow> ContactSyncState \<times> (unit, TransitionError) result"
  where
  "ContactSyncState_transition_to self next =
     (if next \<in> set (ContactSyncState_edges self) \<or> self = next then (next, Ok ())
      else (self, Err \<lparr>machine = ''contact_sync'', from_name = ContactSyncState_name self,
                       to_name = ContactSyncState_name next\<rparr>))"

fun AndroidClientState_name :: "AndroidClientState \<Rightarrow> string" where
  "AndroidClientState_name AndroidClientState.Disconnected = ''disconnected''"
| "AndroidClientState_name AndroidClientState.Connecting = ''connecting''"
| "AndroidClientState_name AndroidClientState.Enrolled = ''enrolled''"
| "AndroidClientState_name AndroidClientState.Authenticated = ''authenticated''"
| "AndroidClientState_name AndroidClientState.Error = ''error''"

fun AndroidClientState_edges :: "AndroidClientState \<Rightarrow> AndroidClientState list" where
  "AndroidClientState_edges AndroidClientState.Disconnected = [AndroidClientState.Connecting]"
| "AndroidClientState_edges AndroidClientState.Connecting =
     [AndroidClientState.Enrolled, AndroidClientState.Authenticated,
      AndroidClientState.Disconnected, AndroidClientState.Error]"
| "AndroidClientState_edges AndroidClientState.Enrolled =
     [AndroidClientState.Authenticated, AndroidClientState.Disconnected, AndroidClientState.Error]"
| "AndroidClientState_edges AndroidClientState.Authenticated =
     [AndroidClientState.Disconnected, AndroidClientState.Error]"
| "AndroidClientState_edges AndroidClientState.Error =
     [AndroidClientState.Disconnected, AndroidClientState.Connecting]"

definition AndroidClientState_transition_to ::
  "AndroidClientState \<Rightarrow> AndroidClientState \<Rightarrow>
   AndroidClientState \<times> (unit, TransitionError) result"
  where
  "AndroidClientState_transition_to self next =
     (if next \<in> set (AndroidClientState_edges self) \<or> self = next then (next, Ok ())
      else (self, Err \<lparr>machine = ''android_client'', from_name = AndroidClientState_name self,
                       to_name = AndroidClientState_name next\<rparr>))"

fun BluetoothConnectionState_non_terminal_name :: "BluetoothConnectionState \<Rightarrow> string" where
  "BluetoothConnectionState_non_terminal_name BluetoothConnectionState.Connecting = ''connecting''"
| "BluetoothConnectionState_non_terminal_name BluetoothConnectionState.Connected = ''connected''"
| "BluetoothConnectionState_non_terminal_name BluetoothConnectionState.ServicesResolved =
     ''services_resolved''"
| "BluetoothConnectionState_non_terminal_name BluetoothConnectionState.Disconnected =
     ''disconnected''"
| "BluetoothConnectionState_non_terminal_name BluetoothConnectionState.Error = ''error''"

fun BluetoothConnectionState_name :: "BluetoothConnectionState \<Rightarrow> string" where
  "BluetoothConnectionState_name BluetoothConnectionState.Disconnected = ''disconnected''"
| "BluetoothConnectionState_name BluetoothConnectionState.Error = ''error''"
| "BluetoothConnectionState_name s = BluetoothConnectionState_non_terminal_name s"

fun BluetoothConnectionState_edges ::
  "BluetoothConnectionState \<Rightarrow> BluetoothConnectionState list" where
  "BluetoothConnectionState_edges BluetoothConnectionState.Disconnected =
     [BluetoothConnectionState.Connecting]"
| "BluetoothConnectionState_edges BluetoothConnectionState.Connecting =
     [BluetoothConnectionState.Connected, BluetoothConnectionState.Disconnected,
      BluetoothConnectionState.Error]"
| "BluetoothConnectionState_edges BluetoothConnectionState.Connected =
     [BluetoothConnectionState.ServicesResolved, BluetoothConnectionState.Disconnected,
      BluetoothConnectionState.Error]"
| "BluetoothConnectionState_edges BluetoothConnectionState.ServicesResolved =
     [BluetoothConnectionState.Disconnected, BluetoothConnectionState.Error]"
| "BluetoothConnectionState_edges BluetoothConnectionState.Error =
     [BluetoothConnectionState.Disconnected, BluetoothConnectionState.Connecting]"

definition BluetoothConnectionState_transition_to ::
  "BluetoothConnectionState \<Rightarrow> BluetoothConnectionState \<Rightarrow>
   BluetoothConnectionState \<times> (unit, TransitionError) result"
  where
  "BluetoothConnectionState_transition_to self next =
     (if next \<in> set (BluetoothConnectionState_edges self) \<or> self = next then (next, Ok ())
      else (self, Err \<lparr>machine = ''bluetooth'', from_name = BluetoothConnectionState_name self,
                       to_name = BluetoothConnectionState_name next\<rparr>))"

fun HfpControlState_name :: "HfpControlState \<Rightarrow> string" where
  "HfpControlState_name HfpControlState.Disconnected = ''disconnected''"
| "HfpControlState_name HfpControlState.AclConnected = ''acl_connected''"
| "HfpControlState_name HfpControlState.ServicesResolved = ''services_resolved''"
| "HfpControlState_name HfpControlState.ProfileRegistered = ''profile_registered''"
| "HfpControlState_name HfpControlState.RfcommConnecting = ''rfcomm_connecting''"
| "HfpControlState_name HfpControlState.RfcommConnected = ''rfcomm_connected''"
| "HfpControlState_name HfpControlState.SlcNegotiating = ''slc_negotiating''"
| "HfpControlState_name HfpControlState.SlcReady = ''slc_ready''"
| "HfpControlState_name HfpControlState.Error = ''error''"

fun HfpControlState_edges :: "HfpControlState \<Rightarrow> HfpControlState list" where
  "HfpControlState_edges HfpControlState.Disconnected = [HfpControlState.AclConnected]"
| "HfpControlState_edges HfpControlState.AclConnected =
     [HfpControlState.ServicesResolved, HfpControlState.Disconnected, HfpControlState.Error]"
| "HfpControlState_edges HfpControlState.ServicesResolved =
     [HfpControlState.ProfileRegistered, HfpControlState.Disconnected, HfpControlState.Error]"
| "HfpControlState_edges HfpControlState.ProfileRegistered =
     [HfpControlState.RfcommConnecting, HfpControlState.Disconnected, HfpControlState.Error]"
| "HfpControlState_edges HfpControlState.RfcommConnecting =
     [HfpControlState.RfcommConnected, HfpControlState.Disconnected, HfpControlState.Error]"
| "HfpControlState_edges HfpControlState.RfcommConnected =
     [HfpControlState.SlcNegotiating, HfpControlState.Disconnected, HfpControlState.Error]"
| "HfpControlState_edges HfpControlState.SlcNegotiating =
     [HfpControlState.SlcReady, HfpControlState.Disconnected, HfpControlState.Error]"
| "HfpControlState_edges HfpControlState.SlcReady =
     [HfpControlState.Disconnected, HfpControlState.Error]"
| "HfpControlState_edges HfpControlState.Error =
     [HfpControlState.Disconnected, HfpControlState.AclConnected]"

definition HfpControlState_transition_to ::
  "HfpControlState \<Rightarrow> HfpControlState \<Rightarrow> HfpControlState \<times> (unit, TransitionError) result"
  where
  "HfpControlState_transition_to self next =
     (if next \<in> set (HfpControlState_edges self) \<or> self = next then (next, Ok ())
      else (self, Err \<lparr>machine = ''hfp_control'', from_name = HfpControlState_name self,
                       to_name = HfpControlState_name next\<rparr>))"

fun CallState_name :: "CallState \<Rightarrow> string" where
  "CallState_name CallState.Idle = ''idle''"
| "CallState_name CallState.Incoming = ''incoming''"
| "CallState_name CallState.Outgoing = ''outgoing''"
| "CallState_name CallState.Active = ''active''"
| "CallState_name CallState.Held = ''held''"
| "CallState_name CallState.Ended = ''ended''"
| "CallState_name CallState.Error = ''error''"

fun CallState_edges :: "CallState \<Rightarrow> CallState list" where
  "CallState_edges CallState.Idle = [CallState.Incoming, CallState.Outgoing, CallState.Error]"
| "CallState_edges CallState.Incoming = [CallState.Active, CallState.Ended, CallState.Error]"
| "CallState_edges CallState.Outgoing = [CallState.Active, CallState.Ended, CallState.Error]"
| "CallState_edges CallState.Active = [CallState.Held, CallState.Ended, CallState.Error]"
| "CallState_edges CallState.Held = [CallState.Active, CallState.Ended, CallState.Error]"
| "CallState_edges CallState.Ended = [CallState.Idle]"
| "CallState_edges CallState.Error = [CallState.Idle, CallState.Ended]"

definition CallState_transition_to ::
  "CallState \<Rightarrow> CallState \<Rightarrow> CallState \<times> (unit, TransitionError) result"
  where
  "CallState_transition_to self next =
     (if next \<in> set (CallState_edges self) \<or> self = next then (next, Ok ())
      else (self, Err \<lparr>machine = ''call'', from_name = CallState_name self,
                       to_name = CallState_name next\<rparr>))"

fun AudioTransportState_name :: "AudioTransportState \<Rightarrow> string" where
  "AudioTransportState_name AudioTransportState.Inactive = ''inactive''"
| "AudioTransportState_name AudioTransportState.CodecNegotiating = ''codec_negotiating''"
| "AudioTransportState_name AudioTransportState.ScoConnecting = ''sco_connecting''"
| "AudioTransportState_name AudioTransportState.ScoActive = ''sco_active''"
| "AudioTransportState_name AudioTransportState.ScoTearingDown = ''sco_tearing_down''"
| "AudioTransportState_name AudioTransportState.Error = ''error''"

fun AudioTransportState_edges :: "AudioTransportState \<Rightarrow> AudioTransportState list" where
  "AudioTransportState_edges AudioTransportState.Inactive =
     [AudioTransportState.CodecNegotiating, AudioTransportState.Error]"
| "AudioTransportState_edges AudioTransportState.CodecNegotiating =
     [AudioTransportState.ScoConnecting, AudioTransportState.Inactive, AudioTransportState.Error]"
| "AudioTransportState_edges AudioTransportState.ScoConnecting =
     [AudioTransportState.ScoActive, AudioTransportState.ScoTearingDown, AudioTransportState.Error]"
| "AudioTransportState_edges AudioTransportState.ScoActive =
     [AudioTransportState.ScoTearingDown, AudioTransportState.Error]"
| "AudioTransportState_edges AudioTransportState.ScoTearingDown =
     [AudioTransportState.Inactive, AudioTransportState.Error]"
| "AudioTransportState_edges AudioTransportState.Error = [AudioTransportState.Inactive]"

definition AudioTransportState_transition_to ::
  "AudioTransportState \<Rightarrow> AudioTransportState \<Rightarrow>
   AudioTransportState \<times> (unit, TransitionError) result"
  where
  "AudioTransportState_transition_to self next =
     (if next \<in> set (AudioTransportState_edges self) \<or> self = next then (next, Ok ())
      else (self, Err \<lparr>machine = ''audio_transport'', from_name = AudioTransportState_name self,
                       to_name = AudioTransportState_name next\<rparr>))"

section \<open>The aggregated status\<close>

record RedactedError =
  err_code :: string
  err_summary :: string

record SystemStatus =
  st_protocol_version :: u16
  st_bluetooth :: BluetoothConnectionState
  st_messages :: MessageSyncState
  st_contacts :: ContactSyncState
  st_hfp_control :: HfpControlState
  st_call :: CallState
  st_audio :: AudioTransportState
  st_android_client :: AndroidClientState
  st_last_error :: "RedactedError option"

definition SystemStatus_default :: SystemStatus where
  "SystemStatus_default =
     \<lparr>st_protocol_version = 1,
      st_bluetooth = BluetoothConnectionState.Disconnected,
      st_messages = MessageSyncState.Idle,
      st_contacts = ContactSyncState.Idle,
      st_hfp_control = HfpControlState.Disconnected,
      st_call = CallState.Idle,
      st_audio = AudioTransportState.Inactive,
      st_android_client = AndroidClientState.Disconnected,
      st_last_error = None\<rparr>"

section \<open>Runs of attempted transitions\<close>

text \<open>The states seen while a client asks for one state after another, the first included.\<close>

fun attempts :: "('s \<Rightarrow> 's \<Rightarrow> 's \<times> 'r) \<Rightarrow> 's \<Rightarrow> 's list \<Rightarrow> 's list" where
  "attempts tr s [] = [s]"
| "attempts tr s (n # ns) = s # attempts tr (fst (tr s n)) ns"

lemma attempts_not_Nil [simp]: "attempts tr s ns \<noteq> []"
  by (cases ns) simp_all

lemma attempts_snoc:
  "attempts tr s (ns @ [n]) = attempts tr s ns @ [fst (tr (last (attempts tr s ns)) n)]"
  by (induction ns arbitrary: s) simp_all

lemma hd_attempts [simp]: "hd (attempts tr s ns) = s"
  by (cases ns) simp_all

fun path_along :: "('s \<Rightarrow> 's list) \<Rightarrow> 's \<Rightarrow> 's list \<Rightarrow> bool" where
  "path_along edges s [] = True"
| "path_along edges s (n # ns) = (n \<in> set (edges s) \<and> path_along edges n ns)"

locale transition_machine =
  fixes edges :: "'s \<Rightarrow> 's list"
    and name :: "'s \<Rightarrow> string"
    and label :: string
    and transition_to :: "'s \<Rightarrow> 's \<Rightarrow> 's \<times> (unit, TransitionError) result"
  assumes transition_to_eq: "transition_to s n =
      (if n \<in> set (edges s) \<or> s = n then (n, Ok ())
       else (s, Err \<lparr>machine = label, from_name = name s, to_name = name n\<rparr>))"
    and name_inj: "name s = name n \<Longrightarrow> s = n"
begin

lemma accepted_iff: "is_ok (snd (transition_to s n)) \<longleftrightarrow> n \<in> set (edges s) \<or> s = n"
  by (simp add: transition_to_eq)

lemma accepted_state: "is_ok (snd (transition_to s n)) \<Longrightarrow> fst (transition_to s n) = n"
  by (simp add: transition_to_eq split: if_splits)

lemma rejected:
  "snd (transition_to s n) = Err e \<Longrightarrow>
   fst (transition_to s n) = s \<and> machine e = label \<and> from_name e = name s \<and> to_name e = name n"
  by (auto simp: transition_to_eq split: if_splits)

text \<open>An error identifies the refused pair of states.\<close>

lemma error_identifies:
  "snd (transition_to s n) = Err e \<Longrightarrow> snd (transition_to s' n') = Err e \<Longrightarrow> s = s' \<and> n = n'"
  using rejected name_inj by metis

lemma step_cases:
  obtains "fst (transition_to s n) = s" | "fst (transition_to s n) \<in> set (edges s)"
  by (cases "n \<in> set (edges s) \<or> s = n") (auto simp: transition_to_eq)

text \<open>
  A history property: \<open>P f h\<close> relates a state to the states seen so far. It holds for every run
  when it holds at the start, survives repeating the last state and follows every edge.
\<close>

lemma history_induct [consumes 0, case_names start stutter edge]:
  assumes "P s [s]"
    and "\<And>h f. h \<noteq> [] \<Longrightarrow> last h = f \<Longrightarrow> P f h \<Longrightarrow> P f (h @ [f])"
    and "\<And>h f g. h \<noteq> [] \<Longrightarrow> last h = f \<Longrightarrow> P f h \<Longrightarrow> g \<in> set (edges f) \<Longrightarrow> P g (h @ [g])"
  shows "P (last (attempts transition_to s ns)) (attempts transition_to s ns)"
proof (induction ns rule: rev_induct)
  case Nil
  then show ?case using assms(1) by simp
next
  case (snoc n ns)
  let ?h = "attempts transition_to s ns"
  show ?case
  proof (cases rule: step_cases [of "last ?h" n])
    case 1
    then show ?thesis using assms(2) [of ?h] snoc by (simp add: attempts_snoc)
  next
    case 2
    then show ?thesis using assms(3) [of ?h] snoc by (simp add: attempts_snoc)
  qed
qed

text \<open>A run that asks for a list of states along edges visits exactly those.\<close>

lemma attempts_path: "path_along edges s ns \<Longrightarrow> attempts transition_to s ns = s # ns"
  by (induction ns arbitrary: s) (simp_all add: transition_to_eq)

end

interpretation message_sync: transition_machine
  MessageSyncState_edges MessageSyncState_name "''message_sync''" MessageSyncState_transition_to
proof
  fix s n :: MessageSyncState
  show "MessageSyncState_name s = MessageSyncState_name n \<Longrightarrow> s = n"
    by (cases s; cases n) simp_all
qed (simp add: MessageSyncState_transition_to_def)

interpretation contact_sync: transition_machine
  ContactSyncState_edges ContactSyncState_name "''contact_sync''" ContactSyncState_transition_to
proof
  fix s n :: ContactSyncState
  show "ContactSyncState_name s = ContactSyncState_name n \<Longrightarrow> s = n"
    by (cases s; cases n) simp_all
qed (simp add: ContactSyncState_transition_to_def)

interpretation android_client: transition_machine
  AndroidClientState_edges AndroidClientState_name "''android_client''"
  AndroidClientState_transition_to
proof
  fix s n :: AndroidClientState
  show "AndroidClientState_name s = AndroidClientState_name n \<Longrightarrow> s = n"
    by (cases s; cases n) simp_all
qed (simp add: AndroidClientState_transition_to_def)

interpretation bluetooth: transition_machine
  BluetoothConnectionState_edges BluetoothConnectionState_name "''bluetooth''"
  BluetoothConnectionState_transition_to
proof
  fix s n :: BluetoothConnectionState
  show "BluetoothConnectionState_name s = BluetoothConnectionState_name n \<Longrightarrow> s = n"
    by (cases s; cases n) simp_all
qed (simp add: BluetoothConnectionState_transition_to_def)

interpretation hfp_control: transition_machine
  HfpControlState_edges HfpControlState_name "''hfp_control''" HfpControlState_transition_to
proof
  fix s n :: HfpControlState
  show "HfpControlState_name s = HfpControlState_name n \<Longrightarrow> s = n"
    by (cases s; cases n) simp_all
qed (simp add: HfpControlState_transition_to_def)

interpretation call: transition_machine
  CallState_edges CallState_name "''call''" CallState_transition_to
proof
  fix s n :: CallState
  show "CallState_name s = CallState_name n \<Longrightarrow> s = n"
    by (cases s; cases n) simp_all
qed (simp add: CallState_transition_to_def)

interpretation audio_transport: transition_machine
  AudioTransportState_edges AudioTransportState_name "''audio_transport''"
  AudioTransportState_transition_to
proof
  fix s n :: AudioTransportState
  show "AudioTransportState_name s = AudioTransportState_name n \<Longrightarrow> s = n"
    by (cases s; cases n) simp_all
qed (simp add: AudioTransportState_transition_to_def)

section \<open>Lifecycle properties\<close>

text \<open>The stages a control connection has behind it in each state.\<close>

definition slc_order :: "HfpControlState list" where
  "slc_order =
     [HfpControlState.AclConnected, HfpControlState.ServicesResolved,
      HfpControlState.ProfileRegistered, HfpControlState.RfcommConnecting,
      HfpControlState.RfcommConnected, HfpControlState.SlcNegotiating, HfpControlState.SlcReady]"

definition slc_stages :: "HfpControlState \<Rightarrow> HfpControlState list" where
  "slc_stages s = (if s \<in> set slc_order then takeWhile (\<lambda>t. t \<noteq> s) slc_order @ [s] else [])"

lemma slc_stages_edge:
  "g \<in> set (HfpControlState_edges f) \<Longrightarrow>
   slc_stages g = [] \<or> slc_stages g = [g] \<or> slc_stages g = slc_stages f @ [g]"
  by (cases f) (auto simp: slc_stages_def slc_order_def)

lemma subseq_snoc: "subseq xs h \<Longrightarrow> subseq xs (h @ [f])"
  using list_emb_append_mono [of "(=)" xs h "[]" "[f]"] by simp

lemma subseq_snoc_same: "subseq xs h \<Longrightarrow> subseq (xs @ [f]) (h @ [f])"
  by (simp add: list_emb_append_mono)

lemma slc_history:
  "subseq (slc_stages (last (attempts HfpControlState_transition_to HfpControlState.Disconnected ns)))
     (attempts HfpControlState_transition_to HfpControlState.Disconnected ns)"
proof (induction rule: hfp_control.history_induct
    [where P = "\<lambda>f h. subseq (slc_stages f) h" and s = HfpControlState.Disconnected])
  case start
  then show ?case by (simp add: slc_stages_def slc_order_def)
next
  case (stutter h f)
  then show ?case by (simp add: subseq_snoc)
next
  case (edge h f g)
  then show ?case
    using slc_stages_edge [of g f] subseq_snoc_same [of "[]" h g] subseq_snoc_same [of "slc_stages f" h g]
    by auto
qed

lemma call_history:
  "last (attempts CallState_transition_to CallState.Idle ns) \<in> {CallState.Active, CallState.Held} \<longrightarrow>
   CallState.Incoming \<in> set (attempts CallState_transition_to CallState.Idle ns) \<or>
   CallState.Outgoing \<in> set (attempts CallState_transition_to CallState.Idle ns)"
proof (induction rule: call.history_induct
    [where P = "\<lambda>f h. f \<in> {CallState.Active, CallState.Held} \<longrightarrow>
       CallState.Incoming \<in> set h \<or> CallState.Outgoing \<in> set h" and s = CallState.Idle])
  case start
  then show ?case by simp
next
  case (stutter h f)
  then show ?case by auto
next
  case (edge h f g)
  then have "f \<in> set h" by (metis last_in_set)
  with edge show ?case by (cases f) auto
qed

lemma sco_history:
  "AudioTransportState.ScoActive \<in> set (attempts AudioTransportState_transition_to
       AudioTransportState.Inactive ns) \<longrightarrow>
   last (attempts AudioTransportState_transition_to AudioTransportState.Inactive ns)
     = AudioTransportState.ScoActive \<or>
   subseq [AudioTransportState.ScoActive, AudioTransportState.ScoTearingDown]
     (attempts AudioTransportState_transition_to AudioTransportState.Inactive ns) \<or>
   subseq [AudioTransportState.ScoActive, AudioTransportState.Error]
     (attempts AudioTransportState_transition_to AudioTransportState.Inactive ns)"
proof (induction rule: audio_transport.history_induct
    [where P = "\<lambda>f h. AudioTransportState.ScoActive \<in> set h \<longrightarrow> f = AudioTransportState.ScoActive \<or>
       subseq [AudioTransportState.ScoActive, AudioTransportState.ScoTearingDown] h \<or>
       subseq [AudioTransportState.ScoActive, AudioTransportState.Error] h"
      and s = AudioTransportState.Inactive])
  case start
  then show ?case by simp
next
  case (stutter h f)
  then have "f \<in> set h" by (metis last_in_set)
  with stutter show ?case by (auto intro: subseq_snoc)
next
  case (edge h f g)
  show ?case
  proof (cases "f = AudioTransportState.ScoActive")
    case True
    then have "subseq [AudioTransportState.ScoActive] h"
      using edge by (metis last_in_set subseq_singleton_left)
    then have "subseq [AudioTransportState.ScoActive, g] (h @ [g])"
      using subseq_snoc_same by fastforce
    with True edge show ?thesis by auto
  next
    case False
    with edge show ?thesis by (auto intro: subseq_snoc)
  qed
qed

text \<open>
  A run of the HFP control state machine reaches the ready service-level connection only through
  the ACL link, service resolution, profile registration, RFCOMM and SLC negotiation, in this
  order, whatever transitions were attempted and refused on the way. This is a fact about
  \<open>HfpControlState\<close> and its \<open>transition_to\<close>; the daemon does not use this method for the state it
  announces, it takes that state from each snapshot of the backend.
\<close>

theorem slc_ready_requires_every_stage:
  assumes "last (attempts HfpControlState_transition_to HfpControlState.Disconnected ns) =
             HfpControlState.SlcReady"
  shows "subseq [HfpControlState.AclConnected, HfpControlState.ServicesResolved,
                 HfpControlState.ProfileRegistered, HfpControlState.RfcommConnecting,
                 HfpControlState.RfcommConnected, HfpControlState.SlcNegotiating,
                 HfpControlState.SlcReady]
           (attempts HfpControlState_transition_to HfpControlState.Disconnected ns)"
  using slc_history [of ns] by (simp add: assms slc_stages_def slc_order_def)

theorem slc_ready_requires_every_stage_witness:
  "last (attempts HfpControlState_transition_to HfpControlState.Disconnected
      [HfpControlState.SlcReady, HfpControlState.AclConnected, HfpControlState.ServicesResolved,
       HfpControlState.ProfileRegistered, HfpControlState.RfcommConnecting,
       HfpControlState.RfcommConnected, HfpControlState.SlcNegotiating, HfpControlState.SlcReady])
     = HfpControlState.SlcReady \<and>
   subseq [HfpControlState.AclConnected, HfpControlState.ServicesResolved,
           HfpControlState.ProfileRegistered, HfpControlState.RfcommConnecting,
           HfpControlState.RfcommConnected, HfpControlState.SlcNegotiating,
           HfpControlState.SlcReady]
     (attempts HfpControlState_transition_to HfpControlState.Disconnected
      [HfpControlState.SlcReady, HfpControlState.AclConnected, HfpControlState.ServicesResolved,
       HfpControlState.ProfileRegistered, HfpControlState.RfcommConnecting,
       HfpControlState.RfcommConnected, HfpControlState.SlcNegotiating, HfpControlState.SlcReady])"
proof -
  have h: "last (attempts HfpControlState_transition_to HfpControlState.Disconnected
      [HfpControlState.SlcReady, HfpControlState.AclConnected, HfpControlState.ServicesResolved,
       HfpControlState.ProfileRegistered, HfpControlState.RfcommConnecting,
       HfpControlState.RfcommConnected, HfpControlState.SlcNegotiating, HfpControlState.SlcReady])
     = HfpControlState.SlcReady"
    by (simp add: HfpControlState_transition_to_def)
  show ?thesis using h slc_ready_requires_every_stage [OF h] by (rule conjI)
qed

text \<open>
  audio that was up is never just switched off: from the inactive state, a run that has seen
  the SCO link active and is inactive again went through tear-down or through the error state
  after the link was active.
\<close>

theorem sco_active_is_torn_down:
  assumes "AudioTransportState.ScoActive \<in> set (attempts AudioTransportState_transition_to
             AudioTransportState.Inactive ns)"
    and "last (attempts AudioTransportState_transition_to AudioTransportState.Inactive ns) =
           AudioTransportState.Inactive"
  shows "subseq [AudioTransportState.ScoActive, AudioTransportState.ScoTearingDown]
           (attempts AudioTransportState_transition_to AudioTransportState.Inactive ns) \<or>
         subseq [AudioTransportState.ScoActive, AudioTransportState.Error]
           (attempts AudioTransportState_transition_to AudioTransportState.Inactive ns)"
  using sco_history [of ns] assms by simp

theorem sco_active_is_torn_down_witness:
  "AudioTransportState.ScoActive \<in> set (attempts AudioTransportState_transition_to
      AudioTransportState.Inactive
      [AudioTransportState.CodecNegotiating, AudioTransportState.ScoConnecting,
       AudioTransportState.ScoActive, AudioTransportState.Inactive,
       AudioTransportState.ScoTearingDown, AudioTransportState.Inactive]) \<and>
   (subseq [AudioTransportState.ScoActive, AudioTransportState.ScoTearingDown]
      (attempts AudioTransportState_transition_to AudioTransportState.Inactive
        [AudioTransportState.CodecNegotiating, AudioTransportState.ScoConnecting,
         AudioTransportState.ScoActive, AudioTransportState.Inactive,
         AudioTransportState.ScoTearingDown, AudioTransportState.Inactive]) \<or>
    subseq [AudioTransportState.ScoActive, AudioTransportState.Error]
      (attempts AudioTransportState_transition_to AudioTransportState.Inactive
        [AudioTransportState.CodecNegotiating, AudioTransportState.ScoConnecting,
         AudioTransportState.ScoActive, AudioTransportState.Inactive,
         AudioTransportState.ScoTearingDown, AudioTransportState.Inactive]))"
proof -
  let ?ns = "[AudioTransportState.CodecNegotiating, AudioTransportState.ScoConnecting,
       AudioTransportState.ScoActive, AudioTransportState.Inactive,
       AudioTransportState.ScoTearingDown, AudioTransportState.Inactive]"
  have a: "AudioTransportState.ScoActive \<in> set (attempts AudioTransportState_transition_to
      AudioTransportState.Inactive ?ns)"
    by (simp add: AudioTransportState_transition_to_def)
  have b: "last (attempts AudioTransportState_transition_to AudioTransportState.Inactive ?ns) =
      AudioTransportState.Inactive"
    by (simp add: AudioTransportState_transition_to_def)
  show ?thesis using a sco_active_is_torn_down [OF a b] by (rule conjI)
qed

text \<open>
  a call that is active or held was set up: from idle, every run of attempted transitions
  that ends in an active or held call has passed through an incoming or an outgoing call.
\<close>

theorem call_active_requires_setup:
  assumes "last (attempts CallState_transition_to CallState.Idle ns) \<in>
             {CallState.Active, CallState.Held}"
  shows "CallState.Incoming \<in> set (attempts CallState_transition_to CallState.Idle ns) \<or>
         CallState.Outgoing \<in> set (attempts CallState_transition_to CallState.Idle ns)"
  using call_history [of ns] assms by blast

theorem call_active_requires_setup_witness:
  "last (attempts CallState_transition_to CallState.Idle
      [CallState.Active, CallState.Outgoing, CallState.Active, CallState.Held]) = CallState.Held \<and>
   (CallState.Incoming \<in> set (attempts CallState_transition_to CallState.Idle
      [CallState.Active, CallState.Outgoing, CallState.Active, CallState.Held]) \<or>
    CallState.Outgoing \<in> set (attempts CallState_transition_to CallState.Idle
      [CallState.Active, CallState.Outgoing, CallState.Active, CallState.Held]))"
proof -
  have h: "last (attempts CallState_transition_to CallState.Idle
      [CallState.Active, CallState.Outgoing, CallState.Active, CallState.Held]) = CallState.Held"
    by (simp add: CallState_transition_to_def)
  then have m: "last (attempts CallState_transition_to CallState.Idle
      [CallState.Active, CallState.Outgoing, CallState.Active, CallState.Held]) \<in>
      {CallState.Active, CallState.Held}" by simp
  show ?thesis using h call_active_requires_setup [OF m] by (rule conjI)
qed

text \<open>
  no lifecycle has a dead end: from every state of every machine at most two accepted
  transitions lead back to the machine's initial state in \<open>SystemStatus::default\<close>.
\<close>

theorem lifecycles_recover:
  "(\<exists>ns. length ns \<le> 2 \<and> path_along BluetoothConnectionState_edges b ns \<and>
      last (attempts BluetoothConnectionState_transition_to b ns) = st_bluetooth SystemStatus_default) \<and>
   (\<exists>ns. length ns \<le> 2 \<and> path_along MessageSyncState_edges m ns \<and>
      last (attempts MessageSyncState_transition_to m ns) = st_messages SystemStatus_default) \<and>
   (\<exists>ns. length ns \<le> 2 \<and> path_along ContactSyncState_edges c ns \<and>
      last (attempts ContactSyncState_transition_to c ns) = st_contacts SystemStatus_default) \<and>
   (\<exists>ns. length ns \<le> 2 \<and> path_along HfpControlState_edges h ns \<and>
      last (attempts HfpControlState_transition_to h ns) = st_hfp_control SystemStatus_default) \<and>
   (\<exists>ns. length ns \<le> 2 \<and> path_along CallState_edges k ns \<and>
      last (attempts CallState_transition_to k ns) = st_call SystemStatus_default) \<and>
   (\<exists>ns. length ns \<le> 2 \<and> path_along AudioTransportState_edges a ns \<and>
      last (attempts AudioTransportState_transition_to a ns) = st_audio SystemStatus_default) \<and>
   (\<exists>ns. length ns \<le> 2 \<and> path_along AndroidClientState_edges d ns \<and>
      last (attempts AndroidClientState_transition_to d ns) = st_android_client SystemStatus_default)"
proof (intro conjI)
  show "\<exists>ns. length ns \<le> 2 \<and> path_along BluetoothConnectionState_edges b ns \<and>
      last (attempts BluetoothConnectionState_transition_to b ns) = st_bluetooth SystemStatus_default"
    by (rule exI [of _ "if b = BluetoothConnectionState.Disconnected then []
        else [BluetoothConnectionState.Disconnected]"])
      (cases b; simp add: BluetoothConnectionState_transition_to_def SystemStatus_default_def)
  show "\<exists>ns. length ns \<le> 2 \<and> path_along MessageSyncState_edges m ns \<and>
      last (attempts MessageSyncState_transition_to m ns) = st_messages SystemStatus_default"
    by (rule exI [of _ "if m = MessageSyncState.Idle then [] else [MessageSyncState.Idle]"])
      (cases m; simp add: MessageSyncState_transition_to_def SystemStatus_default_def)
  show "\<exists>ns. length ns \<le> 2 \<and> path_along ContactSyncState_edges c ns \<and>
      last (attempts ContactSyncState_transition_to c ns) = st_contacts SystemStatus_default"
    by (rule exI [of _ "if c = ContactSyncState.Idle then [] else [ContactSyncState.Idle]"])
      (cases c; simp add: ContactSyncState_transition_to_def SystemStatus_default_def)
  show "\<exists>ns. length ns \<le> 2 \<and> path_along HfpControlState_edges h ns \<and>
      last (attempts HfpControlState_transition_to h ns) = st_hfp_control SystemStatus_default"
    by (rule exI [of _ "if h = HfpControlState.Disconnected then []
        else [HfpControlState.Disconnected]"])
      (cases h; simp add: HfpControlState_transition_to_def SystemStatus_default_def)
  show "\<exists>ns. length ns \<le> 2 \<and> path_along CallState_edges k ns \<and>
      last (attempts CallState_transition_to k ns) = st_call SystemStatus_default"
    by (rule exI [of _ "if k = CallState.Idle then []
        else if k = CallState.Ended then [CallState.Idle] else [CallState.Ended, CallState.Idle]"])
      (cases k; simp add: CallState_transition_to_def SystemStatus_default_def)
  show "\<exists>ns. length ns \<le> 2 \<and> path_along AudioTransportState_edges a ns \<and>
      last (attempts AudioTransportState_transition_to a ns) = st_audio SystemStatus_default"
    by (rule exI [of _ "if a = AudioTransportState.Inactive then []
        else if a = AudioTransportState.Error then [AudioTransportState.Inactive]
        else [AudioTransportState.Error, AudioTransportState.Inactive]"])
      (cases a; simp add: AudioTransportState_transition_to_def SystemStatus_default_def)
  show "\<exists>ns. length ns \<le> 2 \<and> path_along AndroidClientState_edges d ns \<and>
      last (attempts AndroidClientState_transition_to d ns) = st_android_client SystemStatus_default"
    by (rule exI [of _ "if d = AndroidClientState.Disconnected then []
        else [AndroidClientState.Disconnected]"])
      (cases d; simp add: AndroidClientState_transition_to_def SystemStatus_default_def)
qed

end
