(* ===== verification/Core_Audio.thy ===== *)
theory Core_Audio
  imports Prelude
begin

text \<open>
  \<open>crates/analogconnect-core/src/audio.rs\<close>: audio formats, frames and the ACAP packet codec
  that carries one frame between the daemon and the Android client. Samples (\<open>i16\<close>) are kept
  as their sixteen bits. The codec is shown to be a strict codec: decoding inverts encoding, and
  nothing but an encoding decodes.
\<close>

type_synonym i16 = "16 word"

record AudioFormat =
  sample_rate_hz :: u32
  channels :: u8
  samples_per_channel :: u16

definition HFP_WIDEBAND :: AudioFormat where
  "HFP_WIDEBAND = \<lparr>sample_rate_hz = 16000, channels = 1, samples_per_channel = 120\<rparr>"

definition HFP_NARROWBAND :: AudioFormat where
  "HFP_NARROWBAND = \<lparr>sample_rate_hz = 8000, channels = 1, samples_per_channel = 60\<rparr>"

text \<open>The \<open>u64\<close> division panics on a zero rate, the outcome \<open>None\<close>.\<close>

definition frame_duration_micros :: "AudioFormat \<Rightarrow> u64 option" where
  "frame_duration_micros f =
     (if sample_rate_hz f = 0 then None
      else Some ((ucast (samples_per_channel f) * 1000000) div ucast (sample_rate_hz f)))"

record AudioFrame =
  fr_sequence :: u64
  fr_format :: AudioFormat
  fr_samples :: "i16 list"

datatype AudioFrameError = InvalidFormat

definition AudioFrame_new ::
  "u64 \<Rightarrow> AudioFormat \<Rightarrow> i16 list \<Rightarrow> (AudioFrame, AudioFrameError) result" where
  "AudioFrame_new sequence format samples =
     (let expected = unat (samples_per_channel format) * unat (channels format)
      in if sample_rate_hz format = 0 \<or> channels format = 0 \<or> length samples \<noteq> expected
         then Err InvalidFormat
         else Ok \<lparr>fr_sequence = sequence, fr_format = format, fr_samples = samples\<rparr>)"

datatype AudioPacketError = InvalidHeader | UnsupportedFormat | InvalidPayload | SequenceOutOfRange

definition PACKET_MAGIC :: "u8 list" where
  "PACKET_MAGIC = [65, 67, 65, 80]"

definition PACKET_VERSION :: u8 where
  "PACKET_VERSION = 1"

definition PACKET_HEADER_BYTES :: nat where
  "PACKET_HEADER_BYTES = 24"

text \<open>\<open>i64::MAX as u64\<close>.\<close>

definition i64_max :: u64 where
  "i64_max = 0x7FFFFFFFFFFFFFFF"

record AudioPacket =
  pk_capture_time_micros :: u64
  pk_frame :: AudioFrame

definition AudioPacket_new :: "u64 \<Rightarrow> AudioFrame \<Rightarrow> AudioPacket" where
  "AudioPacket_new t f = \<lparr>pk_capture_time_micros = t, pk_frame = f\<rparr>"

definition format_code :: "AudioFormat \<Rightarrow> (u8, AudioPacketError) result" where
  "format_code f =
     (if f = HFP_NARROWBAND then Ok 1
      else if f = HFP_WIDEBAND then Ok 2
      else Err UnsupportedFormat)"

definition AudioPacket_encode :: "AudioPacket \<Rightarrow> (u8 list, AudioPacketError) result" where
  "AudioPacket_encode self =
     (let frame = pk_frame self in
      if i64_max < fr_sequence frame then Err SequenceOutOfRange
      else result_bind (format_code (fr_format frame)) (\<lambda>format.
        Ok (PACKET_MAGIC @ [PACKET_VERSION] @ [format] @ [0, 0]
            @ to_be_bytes 8 (fr_sequence frame)
            @ to_be_bytes 8 (pk_capture_time_micros self)
            @ concat (map (to_le_bytes 2) (fr_samples frame)))))"

definition format_of_code :: "u8 \<Rightarrow> (AudioFormat, AudioPacketError) result" where
  "format_of_code c =
     (if c = 1 then Ok HFP_NARROWBAND
      else if c = 2 then Ok HFP_WIDEBAND
      else Err UnsupportedFormat)"

definition AudioPacket_decode :: "u8 list \<Rightarrow> (AudioPacket, AudioPacketError) result" where
  "AudioPacket_decode packet =
     (if length packet < PACKET_HEADER_BYTES
         \<or> take 4 packet \<noteq> PACKET_MAGIC
         \<or> packet ! 4 \<noteq> PACKET_VERSION
         \<or> packet ! 6 \<noteq> 0
         \<or> packet ! 7 \<noteq> 0
      then Err InvalidHeader
      else result_bind (format_of_code (packet ! 5)) (\<lambda>format.
        let payload = drop PACKET_HEADER_BYTES packet;
            expected_bytes = unat (samples_per_channel format) * 2
        in if length payload \<noteq> expected_bytes then Err InvalidPayload
           else let sequence = from_be_bytes (take 8 (drop 8 packet))
             in if i64_max < sequence then Err SequenceOutOfRange
                else let capture_time_micros = from_be_bytes (take 8 (drop 16 packet));
                         samples = map (\<lambda>(a, b). from_le_bytes [a, b]) (chunks_exact2 payload)
                  in result_bind
                       (map_err (\<lambda>_. InvalidPayload) (AudioFrame_new sequence format samples))
                       (\<lambda>frame. Ok (AudioPacket_new capture_time_micros frame))))"

section \<open>Frames\<close>

definition frame_ok :: "AudioFrame \<Rightarrow> bool" where
  "frame_ok f \<longleftrightarrow>
     sample_rate_hz (fr_format f) \<noteq> 0 \<and> channels (fr_format f) \<noteq> 0 \<and>
     length (fr_samples f) = unat (samples_per_channel (fr_format f)) * unat (channels (fr_format f))"

lemma AudioFrame_new_Ok_iff:
  "AudioFrame_new s fmt xs = Ok f \<longleftrightarrow>
     f = \<lparr>fr_sequence = s, fr_format = fmt, fr_samples = xs\<rparr> \<and> frame_ok f"
  by (auto simp: AudioFrame_new_def frame_ok_def Let_def)

definition hfp_format :: "AudioFormat \<Rightarrow> bool" where
  "hfp_format f \<longleftrightarrow> f = HFP_NARROWBAND \<or> f = HFP_WIDEBAND"

lemmas hfp_format_defs = HFP_NARROWBAND_def HFP_WIDEBAND_def

lemma hfp_format_neq [simp]: "HFP_NARROWBAND \<noteq> HFP_WIDEBAND" "HFP_WIDEBAND \<noteq> HFP_NARROWBAND"
  by (simp_all add: hfp_format_defs)

lemma format_code_Ok_iff:
  "format_code f = Ok c \<longleftrightarrow> (f = HFP_NARROWBAND \<and> c = 1) \<or> (f = HFP_WIDEBAND \<and> c = 2)"
  by (auto simp: format_code_def)

lemma format_of_code_Ok_iff: "format_of_code c = Ok f \<longleftrightarrow> format_code f = Ok c"
  by (auto simp: format_code_def format_of_code_def)

lemma hfp_format_code: "hfp_format f \<longleftrightarrow> (\<exists>c. format_code f = Ok c)"
  by (auto simp: hfp_format_def format_code_Ok_iff)

lemma hfp_frame_samples:
  assumes "frame_ok f" and "hfp_format (fr_format f)"
  shows "length (fr_samples f) = unat (samples_per_channel (fr_format f))"
  using assms by (auto simp: frame_ok_def hfp_format_def hfp_format_defs)

section \<open>The packet layout\<close>

lemma le_bytes2: "to_le_bytes 2 w = [to_le_bytes 2 w ! 0, to_le_bytes 2 w ! 1]"
  by (simp add: to_le_bytes_def upt_rec)

lemma samples_bytes:
  "concat (map (to_le_bytes 2) xs) =
     concat (map (\<lambda>x. [to_le_bytes 2 x ! 0, to_le_bytes 2 x ! 1]) (xs :: i16 list))"
  by (rule arg_cong [where f = concat], rule map_cong) (rule refl, rule le_bytes2)

lemma length_samples_bytes [simp]:
  "length (concat (map (to_le_bytes 2) (xs :: i16 list))) = 2 * length xs"
  by (induction xs) simp_all

lemma sample_roundtrip:
  "from_le_bytes [to_le_bytes 2 x ! 0, to_le_bytes 2 x ! 1] = (x :: i16)"
  using from_to_le_bytes [of 2 x] le_bytes2 [of x] by simp

lemma samples_roundtrip:
  "map (\<lambda>(a, b). from_le_bytes [a, b]) (chunks_exact2 (concat (map (to_le_bytes 2) xs))) =
     (xs :: i16 list)"
  by (simp only: samples_bytes chunks_exact2_concat map_map comp_def case_prod_conv
      sample_roundtrip map_ident)

lemma payload_roundtrip:
  assumes "even (length bs)"
  shows "concat (map (to_le_bytes 2 :: i16 \<Rightarrow> u8 list)
      (map (\<lambda>(a, b). from_le_bytes [a, b]) (chunks_exact2 bs))) = bs"
proof -
  have "to_le_bytes 2 (from_le_bytes [a, b] :: i16) = [a, b]" for a b
    using to_from_le_bytes [where 'a = 16, of "[a, b]"] by (simp add: numeral_2_eq_2)
  then have "concat (map (to_le_bytes 2 :: i16 \<Rightarrow> u8 list)
      (map (\<lambda>(a, b). from_le_bytes [a, b]) (chunks_exact2 bs))) =
      concat (map (\<lambda>(a, b). [a, b]) (chunks_exact2 bs))"
    by (simp add: comp_def case_prod_unfold)
  with assms show ?thesis by (simp add: concat_chunks_exact2)
qed

text \<open>The bytes of a packet, field by field.\<close>

definition packet_bytes :: "u8 \<Rightarrow> u64 \<Rightarrow> u64 \<Rightarrow> i16 list \<Rightarrow> u8 list" where
  "packet_bytes c s t xs =
     PACKET_MAGIC @ [PACKET_VERSION] @ [c] @ [0, 0] @ to_be_bytes 8 s @ to_be_bytes 8 t
     @ concat (map (to_le_bytes 2) xs)"

lemma length_packet_bytes [simp]: "length (packet_bytes c s t xs) = 24 + 2 * length xs"
  by (simp add: packet_bytes_def PACKET_MAGIC_def)

lemma packet_bytes_header:
  "take 4 (packet_bytes c s t xs) = PACKET_MAGIC"
  "packet_bytes c s t xs ! 4 = PACKET_VERSION"
  "packet_bytes c s t xs ! 5 = c"
  "packet_bytes c s t xs ! 6 = 0"
  "packet_bytes c s t xs ! 7 = 0"
  by (simp_all add: packet_bytes_def PACKET_MAGIC_def numeral_eq_Suc)

lemma packet_bytes_split:
  "packet_bytes c s t xs =
     [65, 67, 65, 80, PACKET_VERSION, c, 0, 0] @ to_be_bytes 8 s @ to_be_bytes 8 t
     @ concat (map (to_le_bytes 2) xs)"
  by (simp add: packet_bytes_def PACKET_MAGIC_def)

lemma packet_bytes_fields:
  "take 8 (drop 8 (packet_bytes c s t xs)) = to_be_bytes 8 s"
  "take 8 (drop 16 (packet_bytes c s t xs)) = to_be_bytes 8 t"
  "drop 24 (packet_bytes c s t xs) = concat (map (to_le_bytes 2) xs)"
  by (simp_all add: packet_bytes_split)

lemmas packet_bytes_simps = packet_bytes_header packet_bytes_fields

lemma encode_packet_bytes:
  "AudioPacket_encode p = Ok bs \<longleftrightarrow>
     fr_sequence (pk_frame p) \<le> i64_max \<and>
     (\<exists>c. format_code (fr_format (pk_frame p)) = Ok c \<and>
        bs = packet_bytes c (fr_sequence (pk_frame p)) (pk_capture_time_micros p)
               (fr_samples (pk_frame p)))"
  by (auto simp: AudioPacket_encode_def packet_bytes_def Let_def result_bind_Ok_iff not_less)

lemma take_append_drop_add: "drop n xs = take k (drop n xs) @ drop (n + k) xs"
  by (metis append_take_drop_id drop_drop add.commute)

lemma header_split:
  assumes "24 \<le> length (bs :: u8 list)"
  shows "bs = take 4 bs @ [bs ! 4] @ [bs ! 5] @ [bs ! 6, bs ! 7]
     @ take 8 (drop 8 bs) @ take 8 (drop 16 bs) @ drop 24 bs"
proof -
  have "bs = take 4 bs @ drop 4 bs"
    and "drop 4 bs = take 4 (drop 4 bs) @ drop 8 bs"
    and "drop 8 bs = take 8 (drop 8 bs) @ drop 16 bs"
    and "drop 16 bs = take 8 (drop 16 bs) @ drop 24 bs"
    using take_append_drop_add [of 4 bs 4] take_append_drop_add [of 8 bs 8]
      take_append_drop_add [of 16 bs 8] by simp_all
  then have "bs = take 4 bs @ take 4 (drop 4 bs) @ take 8 (drop 8 bs) @ take 8 (drop 16 bs) @ drop 24 bs"
    by metis
  moreover have "take 4 (drop 4 bs) = [bs ! 4, bs ! 5, bs ! 6, bs ! 7]"
    using assms by (intro nth_equalityI) (auto simp: less_Suc_eq numeral_eq_Suc)
  ultimately show ?thesis by simp
qed

lemma decode_packet_bytes:
  assumes "format_code fmt = Ok c"
  shows "AudioPacket_decode (packet_bytes c s t xs) =
     (if length xs \<noteq> unat (samples_per_channel fmt) then Err InvalidPayload
      else if i64_max < s then Err SequenceOutOfRange
      else Ok \<lparr>pk_capture_time_micros = t,
               pk_frame = \<lparr>fr_sequence = s, fr_format = fmt, fr_samples = xs\<rparr>\<rparr>)"
proof -
  have "hfp_format fmt" using assms hfp_format_code by blast
  then have new: "AudioFrame_new s fmt xs = Ok \<lparr>fr_sequence = s, fr_format = fmt, fr_samples = xs\<rparr>"
    if "length xs = unat (samples_per_channel fmt)"
    using that by (auto simp: AudioFrame_new_def hfp_format_def hfp_format_defs)
  have seq: "from_be_bytes (to_be_bytes 8 s) = s" "from_be_bytes (to_be_bytes 8 t) = t"
    by (simp_all add: from_to_be_bytes)
  show ?thesis
    using assms new
    by (simp add: AudioPacket_decode_def PACKET_HEADER_BYTES_def packet_bytes_simps Let_def
        format_of_code_Ok_iff [THEN iffD2, OF assms] seq samples_roundtrip AudioPacket_new_def
        mult.commute del: from_le_bytes.simps)
qed

lemma decode_Ok_packet_bytes:
  assumes "AudioPacket_decode bs = Ok p"
  obtains c s t xs where "bs = packet_bytes c s t xs"
    and "format_code (fr_format (pk_frame p)) = Ok c"
proof -
  let ?xs = "map (\<lambda>(a, b). from_le_bytes [a, b]) (chunks_exact2 (drop 24 bs)) :: i16 list"
  from assms obtain fmt where hdr: "24 \<le> length bs" "take 4 bs = PACKET_MAGIC"
      "bs ! 4 = PACKET_VERSION" "bs ! 6 = 0" "bs ! 7 = 0"
    and fmt: "format_of_code (bs ! 5) = Ok fmt"
    and payload: "length (drop 24 bs) = unat (samples_per_channel fmt) * 2"
    and frame: "fr_format (pk_frame p) = fmt"
    by (auto simp: AudioPacket_decode_def PACKET_HEADER_BYTES_def Let_def result_bind_Ok_iff
        map_err_Ok_iff AudioFrame_new_Ok_iff AudioPacket_new_def not_less
        simp del: from_le_bytes.simps length_drop split: if_splits)
  have s: "to_be_bytes 8 (from_be_bytes (take 8 (drop n bs)) :: u64) = take 8 (drop n bs)"
    if "n \<le> 16" for n
    using to_from_be_bytes [where 'a = 64, of "take 8 (drop n bs)"] hdr(1) that by simp
  have "even (length (drop 24 bs))" using payload by simp
  then have "concat (map (to_le_bytes 2) ?xs) = drop 24 bs"
    by (rule payload_roundtrip)
  then have "bs = packet_bytes (bs ! 5) (from_be_bytes (take 8 (drop 8 bs)))
      (from_be_bytes (take 8 (drop 16 bs))) ?xs"
    using header_split [OF hdr(1)] hdr s [of 8] s [of 16]
    by (simp add: packet_bytes_def del: from_le_bytes.simps)
  then show ?thesis using fmt frame by (auto simp: format_of_code_Ok_iff intro: that)
qed

section \<open>The packet codec\<close>

definition packet_encode :: "AudioPacket \<Rightarrow> u8 list option" where
  "packet_encode p = ok (AudioPacket_encode p)"

definition packet_decode :: "u8 list \<Rightarrow> AudioPacket option" where
  "packet_decode bs = ok (AudioPacket_decode bs)"

definition packet_ok :: "AudioPacket \<Rightarrow> bool" where
  "packet_ok p \<longleftrightarrow> frame_ok (pk_frame p)"

lemma packet_fields: "p = \<lparr>pk_capture_time_micros = pk_capture_time_micros p, pk_frame =
    \<lparr>fr_sequence = fr_sequence (pk_frame p), fr_format = fr_format (pk_frame p),
     fr_samples = fr_samples (pk_frame p)\<rparr>\<rparr>"
  by simp

lemma decode_encode_packet:
  assumes "packet_ok p" and "AudioPacket_encode p = Ok bs"
  shows "AudioPacket_decode bs = Ok p"
proof -
  obtain c where c: "format_code (fr_format (pk_frame p)) = Ok c"
    and s: "fr_sequence (pk_frame p) \<le> i64_max"
    and bs: "bs = packet_bytes c (fr_sequence (pk_frame p)) (pk_capture_time_micros p)
               (fr_samples (pk_frame p))"
    using assms(2) by (auto simp: encode_packet_bytes)
  have "length (fr_samples (pk_frame p)) = unat (samples_per_channel (fr_format (pk_frame p)))"
    using assms(1) c hfp_format_code by (intro hfp_frame_samples) (auto simp: packet_ok_def)
  then show ?thesis
    using s by (simp add: bs decode_packet_bytes [OF c] not_less)
qed

lemma encode_decode_packet:
  assumes "AudioPacket_decode bs = Ok p"
  shows "packet_ok p \<and> AudioPacket_encode p = Ok bs"
proof -
  obtain c s t xs where bs: "bs = packet_bytes c s t xs"
    and "format_code (fr_format (pk_frame p)) = Ok c"
    using decode_Ok_packet_bytes [OF assms] .
  then obtain fmt where c: "format_code fmt = Ok c" by blast
  have p: "p = \<lparr>pk_capture_time_micros = t,
        pk_frame = \<lparr>fr_sequence = s, fr_format = fmt, fr_samples = xs\<rparr>\<rparr>"
    and ok: "length xs = unat (samples_per_channel fmt)" "s \<le> i64_max"
    using assms by (simp_all add: bs decode_packet_bytes [OF c] not_less split: if_splits)
  have "hfp_format fmt" using c hfp_format_code by blast
  then have "packet_ok p"
    using ok by (auto simp: p packet_ok_def frame_ok_def hfp_format_def hfp_format_defs)
  moreover have "AudioPacket_encode p = Ok bs"
    unfolding encode_packet_bytes using c ok by (simp add: p bs)
  ultimately show ?thesis ..
qed

interpretation acap: strict_codec packet_encode packet_decode packet_ok
  by unfold_locales
    (auto simp: packet_encode_def packet_decode_def dest: decode_encode_packet encode_decode_packet)

lemma packet_length:
  assumes "AudioPacket_decode bs = Ok p"
  shows "length bs = (if fr_format (pk_frame p) = HFP_WIDEBAND then 264 else 144)"
proof -
  have "packet_ok p" and "AudioPacket_encode p = Ok bs"
    using encode_decode_packet [OF assms] by simp_all
  then have hfp: "hfp_format (fr_format (pk_frame p))"
    and len: "length bs = 24 + 2 * length (fr_samples (pk_frame p))"
    by (auto simp: encode_packet_bytes hfp_format_code)
  then have "length (fr_samples (pk_frame p)) = unat (samples_per_channel (fr_format (pk_frame p)))"
    using \<open>packet_ok p\<close> by (intro hfp_frame_samples) (simp_all add: packet_ok_def)
  then show ?thesis
    using hfp len by (auto simp: hfp_format_def hfp_format_defs)
qed

text \<open>
  C3: The ACAP packet codec is strict in both directions: a byte string decodes to a packet
  exactly when the packet's frame matches its declared format and the packet encodes to just
  those bytes. So encode followed by decode is the identity, every accepted packet re-encodes to
  the bytes received (no malleability), two accepted packets with the same bytes agree, and an
  accepted packet is 144 (narrowband) or 264 (wideband) bytes long.
\<close>

theorem packet_codec_strict:
  "(AudioPacket_decode bs = Ok p \<longleftrightarrow> frame_ok (pk_frame p) \<and> AudioPacket_encode p = Ok bs) \<and>
   (\<forall>q. AudioPacket_decode bs = Ok q \<longrightarrow>
      length bs = (if fr_format (pk_frame q) = HFP_WIDEBAND then 264 else 144))"
  using acap.decode_iff [of bs p] packet_length
  by (simp add: packet_encode_def packet_decode_def packet_ok_def)

theorem packet_codec_strict_witness:
  "length (packet_bytes 1 7 9 (replicate 60 3)) = 144 \<and>
   AudioPacket_decode (packet_bytes 1 7 9 (replicate 60 3)) =
     Ok \<lparr>pk_capture_time_micros = 9,
         pk_frame = \<lparr>fr_sequence = 7, fr_format = HFP_NARROWBAND, fr_samples = replicate 60 3\<rparr>\<rparr>"
proof -
  let ?p = "\<lparr>pk_capture_time_micros = 9,
     pk_frame = \<lparr>fr_sequence = 7, fr_format = HFP_NARROWBAND, fr_samples = replicate 60 3\<rparr>\<rparr>"
  let ?bs = "packet_bytes 1 7 9 (replicate 60 3)"
  have "frame_ok (pk_frame ?p)"
    by (simp add: frame_ok_def hfp_format_defs)
  moreover have "AudioPacket_encode ?p = Ok ?bs"
    by (simp add: encode_packet_bytes format_code_def i64_max_def word_le_nat_alt)
  ultimately have dec: "AudioPacket_decode ?bs = Ok ?p"
    using packet_codec_strict [of ?bs ?p] by blast
  then have "length ?bs = 144"
    using packet_codec_strict [of ?bs ?p] by force
  with dec show ?thesis by blast
qed

text \<open>
  Encoding refuses exactly the sequences above \<open>i64::MAX\<close> and then the formats that are
  not one of the two HFP formats, in this order; for the HFP formats a frame always lasts 7500
  microseconds.
\<close>

theorem packet_encode_errors:
  "AudioPacket_encode p = Err e \<longleftrightarrow>
     (if i64_max < fr_sequence (pk_frame p) then e = SequenceOutOfRange
      else \<not> hfp_format (fr_format (pk_frame p)) \<and> e = UnsupportedFormat)"
  by (auto simp: AudioPacket_encode_def Let_def format_code_def hfp_format_def)

lemma hfp_frame_duration: "hfp_format f \<Longrightarrow> frame_duration_micros f = Some 7500"
  by (auto simp: hfp_format_def frame_duration_micros_def hfp_format_defs)

end
