(* ===== verification/Rust_Text.thy ===== *)
theory Rust_Text
  imports Prelude "HOL-Library.Sublist"
begin

text \<open>
  Rust's \<open>str\<close>. A string is the list of its UTF-8 bytes, a \<open>string\<close>: \<open>len\<close> is
  \<open>length\<close>, \<open>as_bytes\<close> is the identity, and a \<open>char\<close> is the byte sequence that
  encodes it. UTF-8 is self-synchronising, so a Unicode scalar is found at the front or at
  the back of a valid string by comparing bytes; \<open>trim\<close> strips the encodings of the
  characters with the \<open>White_Space\<close> property this way. The ASCII predicates reject every
  byte of a non-ASCII character, so "all characters are ASCII digits" and "all bytes are
  ASCII digits" agree.
\<close>

section \<open>Bytes and ASCII classes\<close>

definition byte_of :: "char \<Rightarrow> nat" where
  "byte_of c = of_char c"

definition is_ascii :: "char \<Rightarrow> bool" where
  "is_ascii c \<longleftrightarrow> byte_of c < 128"

definition is_ascii_digit :: "char \<Rightarrow> bool" where
  "is_ascii_digit c \<longleftrightarrow> 48 \<le> byte_of c \<and> byte_of c \<le> 57"

definition is_ascii_hexdigit :: "char \<Rightarrow> bool" where
  "is_ascii_hexdigit c \<longleftrightarrow>
     is_ascii_digit c \<or> (97 \<le> byte_of c \<and> byte_of c \<le> 102) \<or> (65 \<le> byte_of c \<and> byte_of c \<le> 70)"

definition to_ascii_uppercase :: "char \<Rightarrow> char" where
  "to_ascii_uppercase c =
     (if 97 \<le> byte_of c \<and> byte_of c \<le> 122 then char_of (byte_of c - 32) else c)"

definition to_ascii_lowercase :: "char \<Rightarrow> char" where
  "to_ascii_lowercase c =
     (if 65 \<le> byte_of c \<and> byte_of c \<le> 90 then char_of (byte_of c + 32) else c)"

definition eq_ignore_ascii_case :: "string \<Rightarrow> string \<Rightarrow> bool" where
  "eq_ignore_ascii_case a b \<longleftrightarrow> map to_ascii_lowercase a = map to_ascii_lowercase b"

lemma byte_of_less: "byte_of c < 256"
  by (simp add: byte_of_def)

lemma byte_of_char_of [simp]: "n < 256 \<Longrightarrow> byte_of (char_of n) = n"
  by (simp add: byte_of_def)

lemma is_ascii_hexdigit_lower [simp]:
  "is_ascii_hexdigit (to_ascii_lowercase c) = is_ascii_hexdigit c"
proof (cases "65 \<le> byte_of c \<and> byte_of c \<le> 90")
  case True
  then have "byte_of (to_ascii_lowercase c) = byte_of c + 32"
    by (simp add: to_ascii_lowercase_def)
  with True show ?thesis by (auto simp: is_ascii_hexdigit_def is_ascii_digit_def)
next
  case False
  then have "to_ascii_lowercase c = c" by (auto simp: to_ascii_lowercase_def)
  then show ?thesis by simp
qed

lemma to_ascii_lowercase_idem [simp]:
  "to_ascii_lowercase (to_ascii_lowercase c) = to_ascii_lowercase c"
  by (auto simp: to_ascii_lowercase_def)

section \<open>Characters of a string\<close>

definition is_continuation :: "char \<Rightarrow> bool" where
  "is_continuation c \<longleftrightarrow> 128 \<le> byte_of c \<and> byte_of c < 192"

text \<open>\<open>str::chars\<close>: a leading byte with the continuation bytes after it.\<close>

function utf8_chars :: "string \<Rightarrow> string list" where
  "utf8_chars [] = []"
| "utf8_chars (c # cs) =
     (c # takeWhile is_continuation cs) # utf8_chars (dropWhile is_continuation cs)"
  by pat_completeness auto
termination
  by (relation "measure length") (auto simp: length_dropWhile_le le_imp_less_Suc)

lemma concat_utf8_chars [simp]: "concat (utf8_chars s) = s"
  by (induction s rule: utf8_chars.induct) simp_all

lemma utf8_chars_ascii: "list_all is_ascii s \<Longrightarrow> utf8_chars s = map (\<lambda>c. [c]) s"
proof (induction s rule: utf8_chars.induct)
  case 1
  then show ?case by simp
next
  case (2 c cs)
  then have "\<not> is_continuation d" if "d \<in> set cs" for d
    using that by (auto simp: list_all_iff is_ascii_def is_continuation_def)
  then have "takeWhile is_continuation cs = []" and "dropWhile is_continuation cs = cs"
    by (cases cs; simp)+
  with 2 show ?case by simp
qed

section \<open>White space and \<open>trim\<close>\<close>

text \<open>The encodings of the 25 characters with the Unicode property \<open>White_Space\<close>.\<close>

definition white_space :: "string list" where
  "white_space =
     [[CHR 0x09], [CHR 0x0A], [CHR 0x0B], [CHR 0x0C], [CHR 0x0D], [CHR 0x20],
      [CHR 0xC2, CHR 0x85], [CHR 0xC2, CHR 0xA0], [CHR 0xE1, CHR 0x9A, CHR 0x80]]
     @ map (\<lambda>n. [CHR 0xE2, CHR 0x80, char_of n]) ([128..<139] @ [168, 169, 175])
     @ [[CHR 0xE2, CHR 0x81, CHR 0x9F], [CHR 0xE3, CHR 0x80, CHR 0x80]]"

lemma white_space_nonempty: "w \<in> set white_space \<Longrightarrow> w \<noteq> []"
  by (auto simp: white_space_def)

definition starts_with_whitespace :: "string \<Rightarrow> bool" where
  "starts_with_whitespace s \<longleftrightarrow> list_ex (\<lambda>w. prefix w s) white_space"

function trim_start :: "string \<Rightarrow> string" where
  "trim_start s =
     (case List.find (\<lambda>w. prefix w s) white_space of
        None \<Rightarrow> s
      | Some w \<Rightarrow> trim_start (drop (length w) s))"
  by pat_completeness auto
termination
proof (relation "measure length")
  fix s w assume "List.find (\<lambda>w. prefix w s) white_space = Some w"
  then have "w \<in> set white_space" and "prefix w s"
    by (auto simp: find_Some_iff)
  then show "(drop (length w) s, s) \<in> measure length"
    using white_space_nonempty [of w] by (auto simp: prefix_def)
qed simp

declare trim_start.simps [simp del]

function trim_end :: "string \<Rightarrow> string" where
  "trim_end s =
     (case List.find (\<lambda>w. suffix w s) white_space of
        None \<Rightarrow> s
      | Some w \<Rightarrow> trim_end (take (length s - length w) s))"
  by pat_completeness auto
termination
proof (relation "measure length")
  fix s w assume "List.find (\<lambda>w. suffix w s) white_space = Some w"
  then have "w \<in> set white_space" and "suffix w s"
    by (auto simp: find_Some_iff)
  then show "(take (length s - length w) s, s) \<in> measure length"
    using white_space_nonempty [of w] by (auto simp: suffix_def)
qed simp

declare trim_end.simps [simp del]

definition trim :: "string \<Rightarrow> string" where
  "trim s = trim_end (trim_start s)"

lemma suffix_trim_start: "suffix (trim_start s) s"
proof (induction s rule: trim_start.induct)
  case (1 s)
  show ?case
  proof (cases "List.find (\<lambda>w. prefix w s) white_space")
    case None
    then show ?thesis by (simp add: trim_start.simps [of s])
  next
    case (Some w)
    from 1 [OF Some] have "suffix (trim_start (drop (length w) s)) s"
      by (meson suffix_drop suffix_order.trans)
    with Some show ?thesis by (simp add: trim_start.simps [of s])
  qed
qed

lemma prefix_trim_end: "prefix (trim_end s) s"
proof (induction s rule: trim_end.induct)
  case (1 s)
  show ?case
  proof (cases "List.find (\<lambda>w. suffix w s) white_space")
    case None
    then show ?thesis by (simp add: trim_end.simps [of s])
  next
    case (Some w)
    from 1 [OF Some] have "prefix (trim_end (take (length s - length w) s)) s"
      by (meson take_is_prefix prefix_order.trans)
    with Some show ?thesis by (simp add: trim_end.simps [of s])
  qed
qed

lemma trim_end_no_ws: "w \<in> set white_space \<Longrightarrow> \<not> suffix w (trim_end s)"
proof (induction s rule: trim_end.induct)
  case (1 s)
  show ?case
  proof (cases "List.find (\<lambda>w. suffix w s) white_space")
    case None
    then have "trim_end s = s" by (simp add: trim_end.simps [of s])
    with None 1 show ?thesis by (auto simp: find_None_iff)
  next
    case (Some v)
    with 1 show ?thesis by (simp add: trim_end.simps [of s])
  qed
qed

lemma trim_start_no_ws: "w \<in> set white_space \<Longrightarrow> \<not> prefix w (trim_start s)"
proof (induction s rule: trim_start.induct)
  case (1 s)
  show ?case
  proof (cases "List.find (\<lambda>w. prefix w s) white_space")
    case None
    then have "trim_start s = s" by (simp add: trim_start.simps [of s])
    with None 1 show ?thesis by (auto simp: find_None_iff)
  next
    case (Some v)
    with 1 show ?thesis by (simp add: trim_start.simps [of s])
  qed
qed

lemma trim_sublist: "sublist (trim s) s"
  using prefix_trim_end [of "trim_start s"] suffix_trim_start [of s]
  unfolding trim_def prefix_def suffix_def sublist_def by metis

lemma set_trim: "set (trim s) \<subseteq> set s"
  using trim_sublist set_mono_sublist by blast

lemma length_trim: "length (trim s) \<le> length s"
  using trim_sublist sublist_length_le by blast

text \<open>A trimmed string neither starts nor ends with white space.\<close>

lemma trim_no_leading_ws:
  assumes "w \<in> set white_space"
  shows "\<not> prefix w (trim s)"
proof
  assume "prefix w (trim s)"
  then have "prefix w (trim_start s)"
    using prefix_trim_end prefix_order.trans by (fastforce simp: trim_def)
  with trim_start_no_ws [OF assms] show False by simp
qed

lemma trim_no_trailing_ws: "w \<in> set white_space \<Longrightarrow> \<not> suffix w (trim s)"
  by (simp add: trim_def trim_end_no_ws)

lemma trim_id:
  assumes "\<And>w. w \<in> set white_space \<Longrightarrow> \<not> prefix w s \<and> \<not> suffix w s"
  shows "trim s = s"
proof -
  have "List.find (\<lambda>w. prefix w s) white_space = None"
    and "List.find (\<lambda>w. suffix w s) white_space = None"
    using assms by (auto simp: find_None_iff)
  then show ?thesis by (simp add: trim_def trim_start.simps trim_end.simps)
qed

lemma trim_trim [simp]: "trim (trim s) = trim s"
  by (rule trim_id) (simp add: trim_no_leading_ws trim_no_trailing_ws)

text \<open>No white-space character shares a byte with these classes, so such text is trimmed.\<close>

definition is_ascii_graphic :: "char \<Rightarrow> bool" where
  "is_ascii_graphic c \<longleftrightarrow> 33 \<le> byte_of c \<and> byte_of c \<le> 126"

lemma white_space_not_graphic: "w \<in> set white_space \<Longrightarrow> c \<in> set w \<Longrightarrow> \<not> is_ascii_graphic c"
  by (auto simp: white_space_def is_ascii_graphic_def byte_of_def)

lemma trim_graphic:
  assumes "list_all is_ascii_graphic s"
  shows "trim s = s"
proof (rule trim_id)
  fix w assume w: "w \<in> set white_space"
  obtain c where c: "c \<in> set w"
    using white_space_nonempty [OF w] by (meson hd_in_set)
  then have "\<not> is_ascii_graphic c"
    using w white_space_not_graphic by blast
  with assms c show "\<not> prefix w s \<and> \<not> suffix w s"
    by (auto simp: prefix_def suffix_def list_all_iff)
qed

lemma graphic_digit [intro]: "is_ascii_digit c \<Longrightarrow> is_ascii_graphic c"
  by (simp add: is_ascii_digit_def is_ascii_graphic_def)

lemma graphic_hexdigit [intro]: "is_ascii_hexdigit c \<Longrightarrow> is_ascii_graphic c"
  by (auto simp: is_ascii_hexdigit_def is_ascii_digit_def is_ascii_graphic_def)

text \<open>\<open>split_whitespace\<close>: the maximal runs of characters that are not white space.\<close>

fun ws_words :: "string list \<Rightarrow> string \<Rightarrow> string list" where
  "ws_words [] acc = (if acc = [] then [] else [acc])"
| "ws_words (c # cs) acc =
     (if c \<in> set white_space then (if acc = [] then [] else [acc]) @ ws_words cs []
      else ws_words cs (acc @ c))"

definition split_whitespace :: "string \<Rightarrow> string list" where
  "split_whitespace s = ws_words (utf8_chars s) []"

lemma ws_words_nonempty: "w \<in> set (ws_words cs acc) \<Longrightarrow> w \<noteq> []"
  by (induction cs acc rule: ws_words.induct) (auto split: if_splits)

section \<open>Prefixes, splitting, replacing\<close>

definition strip_prefix :: "string \<Rightarrow> string \<Rightarrow> string option" where
  "strip_prefix p s = (if prefix p s then Some (drop (length p) s) else None)"

lemma strip_prefix_Some_iff: "strip_prefix p s = Some r \<longleftrightarrow> s = p @ r"
  by (auto simp: strip_prefix_def prefix_def)

fun split_once :: "string \<Rightarrow> string \<Rightarrow> (string \<times> string) option" where
  "split_once p [] = (if p = [] then Some ([], []) else None)"
| "split_once p (c # cs) =
     (if prefix p (c # cs) then Some ([], drop (length p) (c # cs))
      else map_option (\<lambda>(a, b). (c # a, b)) (split_once p cs))"

lemma split_once_append: "split_once p s = Some (a, b) \<Longrightarrow> s = a @ p @ b"
proof (induction p s arbitrary: a b rule: split_once.induct)
  case (1 p)
  then show ?case by (auto split: if_splits)
next
  case (2 p c cs)
  then show ?case by (auto simp: prefix_def split: if_splits)
qed

function split_str :: "string \<Rightarrow> string \<Rightarrow> string list" where
  "split_str p s =
     (case (if p = [] then None else split_once p s) of
        None \<Rightarrow> [s]
      | Some (a, b) \<Rightarrow> a # split_str p b)"
  by pat_completeness auto
termination
proof (relation "measure (\<lambda>(p, s). length s)")
  fix p s x a b
  assume "(if p = [] then None else split_once p s) = Some x" and "(a, b) = x"
  then have "p \<noteq> []" and "s = a @ p @ b"
    by (auto dest: split_once_append split: if_splits)
  then show "((p, b), p, s) \<in> measure (\<lambda>(p, s). length s)" by simp
qed simp

declare split_str.simps [simp del]

fun join_str :: "string \<Rightarrow> string list \<Rightarrow> string" where
  "join_str sep [] = []"
| "join_str sep [x] = x"
| "join_str sep (x # y # ys) = x @ sep @ join_str sep (y # ys)"

lemma split_str_nonempty: "split_str p s \<noteq> []"
  by (subst split_str.simps) (auto split: option.splits)

lemma join_split_str: "join_str p (split_str p s) = s"
proof (induction p s rule: split_str.induct)
  case (1 p s)
  show ?case
  proof (cases "if p = [] then None else split_once p s")
    case None
    then show ?thesis by (simp add: split_str.simps [of p s])
  next
    case (Some ab)
    then obtain a b where ab: "split_once p s = Some (a, b)" and p: "p \<noteq> []"
      by (cases ab) (auto split: if_splits)
    with 1 [OF Some] have "join_str p (split_str p b) = b"
      using Some by simp
    moreover obtain y ys where "split_str p b = y # ys"
      using split_str_nonempty [of p b] by (cases "split_str p b") auto
    moreover have "split_str p s = a # split_str p b"
      using ab p by (simp add: split_str.simps [of p s])
    ultimately show ?thesis
      using split_once_append [OF ab] by simp
  qed
qed

definition replace_str :: "string \<Rightarrow> string \<Rightarrow> string \<Rightarrow> string" where
  "replace_str p q s = join_str q (split_str p s)"

text \<open>
  \<open>str::lines\<close>: pieces between line feeds, without a final empty piece and without one
  carriage return at the end of a piece.
\<close>

definition strip_cr :: "string \<Rightarrow> string" where
  "strip_cr s = (if s \<noteq> [] \<and> last s = CHR 0x0D then butlast s else s)"

definition lines :: "string \<Rightarrow> string list" where
  "lines s =
     (let ps = split_str [CHR 0x0A] s
      in map strip_cr (if last ps = [] then butlast ps else ps))"

section \<open>Numbers as text\<close>

text \<open>\<open>to_string\<close> of an unsigned integer.\<close>

fun decimal :: "nat \<Rightarrow> string" where
  "decimal n = (if n < 10 then [char_of (48 + n)] else decimal (n div 10) @ [char_of (48 + n mod 10)])"

declare decimal.simps [simp del]

lemma decimal_digits: "list_all is_ascii_digit (decimal n)"
proof (induction n rule: decimal.induct)
  case (1 n)
  have digit: "is_ascii_digit (char_of (48 + k))" if "k < 10" for k :: nat
    using that by (simp add: is_ascii_digit_def)
  show ?case
  proof (cases "n < 10")
    case True
    then show ?thesis using digit by (simp add: decimal.simps [of n])
  next
    case False
    with 1 have "list_all is_ascii_digit (decimal (n div 10))" by simp
    moreover have "is_ascii_digit (char_of (48 + n mod 10))" by (rule digit) simp
    ultimately show ?thesis using False by (simp add: decimal.simps [of n])
  qed
qed

lemma decimal_nonempty [simp]: "decimal n \<noteq> []"
  by (subst decimal.simps) simp

text \<open>\<open>str::parse\<close> of an unsigned integer below \<open>limit\<close>: an optional plus sign, then digits.\<close>

definition digit_val :: "char \<Rightarrow> nat" where
  "digit_val c = byte_of c - 48"

definition parse_digits :: "string \<Rightarrow> nat option" where
  "parse_digits s =
     (if s \<noteq> [] \<and> list_all is_ascii_digit s
      then Some (foldl (\<lambda>acc c. 10 * acc + digit_val c) 0 s) else None)"

definition parse_unsigned :: "nat \<Rightarrow> string \<Rightarrow> nat option" where
  "parse_unsigned limit s =
     (case parse_digits (case s of c # cs \<Rightarrow> if c = CHR ''+'' then cs else s | [] \<Rightarrow> s) of
        None \<Rightarrow> None
      | Some n \<Rightarrow> if n < limit then Some n else None)"

lemma parse_digits_decimal [simp, codec_simps]: "parse_digits (decimal n) = Some n"
proof -
  have val: "digit_val (char_of (48 + k)) = k" if "k < 10" for k :: nat
    using that by (simp add: digit_val_def)
  have "foldl (\<lambda>acc c. 10 * acc + digit_val c) 0 (decimal n) = n"
  proof (induction n rule: decimal.induct)
    case (1 n)
    show ?case
    proof (cases "n < 10")
      case True
      then show ?thesis using val by (simp add: decimal.simps [of n])
    next
      case False
      with 1 show ?thesis using val [of "n mod 10"] by (simp add: decimal.simps [of n])
    qed
  qed
  then show ?thesis by (simp add: parse_digits_def decimal_digits)
qed

section \<open>Bytes as text\<close>

definition char_of_byte :: "u8 \<Rightarrow> char" where
  "char_of_byte b = char_of (unat b)"

text \<open>
  \<open>String::from_utf8_lossy\<close>. \<open>utf8_chunk\<close> is the decoder's step on a non-empty input: how
  many bytes it takes and whether they are a valid sequence; an ill-formed sequence is taken up
  to the first byte that cannot continue it and becomes U+FFFD.
\<close>

definition utf8_cont :: "nat \<Rightarrow> nat \<Rightarrow> nat list \<Rightarrow> bool" where
  "utf8_cont lo hi bs \<longleftrightarrow> (case bs of [] \<Rightarrow> False | b # _ \<Rightarrow> lo \<le> b \<and> b \<le> hi)"

definition utf8_second :: "nat \<Rightarrow> nat \<times> nat" where
  "utf8_second b =
     (if b = 0xE0 then (0xA0, 0xBF) else if b = 0xED then (0x80, 0x9F)
      else if b = 0xF0 then (0x90, 0xBF) else if b = 0xF4 then (0x80, 0x8F) else (0x80, 0xBF))"

definition utf8_chunk :: "nat \<Rightarrow> nat list \<Rightarrow> nat \<times> bool" where
  "utf8_chunk b bs =
     (let (lo, hi) = utf8_second b in
      if b < 0x80 then (1, True)
      else if b < 0xC2 \<or> 0xF4 < b then (1, False)
      else if \<not> utf8_cont lo hi bs then (1, False)
      else if b < 0xE0 then (2, True)
      else if \<not> utf8_cont 0x80 0xBF (drop 1 bs) then (2, False)
      else if b < 0xF0 then (3, True)
      else if \<not> utf8_cont 0x80 0xBF (drop 2 bs) then (3, False)
      else (4, True))"

definition replacement_character :: string where
  "replacement_character = [CHR 0xEF, CHR 0xBF, CHR 0xBD]"

function from_utf8_lossy :: "u8 list \<Rightarrow> string" where
  "from_utf8_lossy [] = []"
| "from_utf8_lossy (b # bs) =
     (case utf8_chunk (unat b) (map unat bs) of (n, valid) \<Rightarrow>
        (if valid then map char_of_byte (take n (b # bs)) else replacement_character)
        @ from_utf8_lossy (drop (n - 1) bs))"
  by pat_completeness auto
termination by (relation "measure length") (auto simp: le_imp_less_Suc)

lemma from_utf8_lossy_ascii:
  "list_all (\<lambda>b. unat b < 128) bs \<Longrightarrow> from_utf8_lossy bs = map char_of_byte bs"
  by (induction bs) (simp_all add: utf8_chunk_def case_prod_unfold)

text \<open>What \<open>String::from_utf8\<close> accepts.\<close>

function utf8_valid :: "u8 list \<Rightarrow> bool" where
  "utf8_valid [] = True"
| "utf8_valid (b # bs) =
     (case utf8_chunk (unat b) (map unat bs) of (n, valid) \<Rightarrow> valid \<and> utf8_valid (drop (n - 1) bs))"
  by pat_completeness auto
termination by (relation "measure length") (auto simp: le_imp_less_Suc)

end
