(* ===== verification/Core_Hfp.thy ===== *)
theory Core_Hfp
  imports Rust_Text
begin

text \<open>
  \<open>crates/analogconnect-core/src/hfp.rs\<close>: the arguments of call commands (dial targets, DTMF
  tones, gains), the commands and their redacted \<open>Debug\<close> text. A Rust \<open>char\<close> is its UTF-8
  byte sequence.
\<close>

type_synonym uchar = string

datatype HfpArgumentError = InvalidDialTarget | InvalidDtmfTone | InvalidGain

datatype DialTarget = DialTarget (dial_str: string)

definition is_dial_char :: "char \<Rightarrow> bool" where
  "is_dial_char c \<longleftrightarrow> is_ascii_digit c \<or> c = CHR ''+'' \<or> c = CHR ''*'' \<or> c = CHR ''#''"

definition DialTarget_parse :: "string \<Rightarrow> (DialTarget, HfpArgumentError) result" where
  "DialTarget_parse input =
     (let target = trim input
      in if target = [] \<or> 32 < length target \<or> \<not> list_all is_dial_char target
         then Err InvalidDialTarget
         else Ok (DialTarget target))"

definition DialTarget_debug :: "DialTarget \<Rightarrow> string" where
  "DialTarget_debug _ = ''DialTarget([redacted])''"

datatype DtmfTone = DtmfTone (tone_value: uchar)

definition is_dtmf_char :: "char \<Rightarrow> bool" where
  "is_dtmf_char c \<longleftrightarrow> is_ascii_digit c \<or> c = CHR ''*'' \<or> c = CHR ''#''
     \<or> (65 \<le> byte_of c \<and> byte_of c \<le> 68)"

definition DtmfTone_parse :: "uchar \<Rightarrow> (DtmfTone, HfpArgumentError) result" where
  "DtmfTone_parse input =
     (let tone = map to_ascii_uppercase input
      in if length tone = 1 \<and> is_dtmf_char (hd tone) then Ok (DtmfTone tone)
         else Err InvalidDtmfTone)"

definition DtmfTone_debug :: "DtmfTone \<Rightarrow> string" where
  "DtmfTone_debug _ = ''DtmfTone([redacted])''"

datatype Gain = Gain (gain_value: u8)

definition Gain_new :: "u8 \<Rightarrow> (Gain, HfpArgumentError) result" where
  "Gain_new v = (if v \<le> 15 then Ok (Gain v) else Err InvalidGain)"

definition Gain_debug :: "Gain \<Rightarrow> string" where
  "Gain_debug g = ''Gain('' @ decimal (unat (gain_value g)) @ '')''"

datatype CallCommand =
    Answer | Reject | HangUp
  | Dial DialTarget
  | SendDtmf DtmfTone
  | SetMicrophoneMuted bool
  | SetSpeakerGain Gain
  | SetMicrophoneGain Gain

definition bool_debug :: "bool \<Rightarrow> string" where
  "bool_debug b = (if b then ''true'' else ''false'')"

definition debug_tuple :: "string \<Rightarrow> string \<Rightarrow> string" where
  "debug_tuple name field = name @ ''('' @ field @ '')''"

fun CallCommand_debug :: "CallCommand \<Rightarrow> string" where
  "CallCommand_debug CallCommand.Answer = ''Answer''"
| "CallCommand_debug CallCommand.Reject = ''Reject''"
| "CallCommand_debug CallCommand.HangUp = ''HangUp''"
| "CallCommand_debug (CallCommand.Dial _) = ''Dial([redacted])''"
| "CallCommand_debug (CallCommand.SendDtmf _) = ''SendDtmf([redacted])''"
| "CallCommand_debug (CallCommand.SetMicrophoneMuted muted) =
     debug_tuple ''SetMicrophoneMuted'' (bool_debug muted)"
| "CallCommand_debug (CallCommand.SetSpeakerGain gain) =
     debug_tuple ''SetSpeakerGain'' (Gain_debug gain)"
| "CallCommand_debug (CallCommand.SetMicrophoneGain gain) =
     debug_tuple ''SetMicrophoneGain'' (Gain_debug gain)"

section \<open>What the parsers accept\<close>

definition dial_ok :: "DialTarget \<Rightarrow> bool" where
  "dial_ok t \<longleftrightarrow> dial_str t \<noteq> [] \<and> length (dial_str t) \<le> 32 \<and> list_all is_dial_char (dial_str t)"

definition tone_ok :: "DtmfTone \<Rightarrow> bool" where
  "tone_ok t \<longleftrightarrow> (\<exists>c. tone_value t = [c] \<and> is_dtmf_char c)"

definition gain_ok :: "Gain \<Rightarrow> bool" where
  "gain_ok g \<longleftrightarrow> gain_value g \<le> 15"

fun command_ok :: "CallCommand \<Rightarrow> bool" where
  "command_ok (CallCommand.Dial t) = dial_ok t"
| "command_ok (CallCommand.SendDtmf t) = tone_ok t"
| "command_ok (CallCommand.SetSpeakerGain g) = gain_ok g"
| "command_ok (CallCommand.SetMicrophoneGain g) = gain_ok g"
| "command_ok _ = True"

lemma graphic_dial: "is_dial_char c \<Longrightarrow> is_ascii_graphic c"
  by (auto simp: is_dial_char_def is_ascii_graphic_def byte_of_def dest: graphic_digit)

lemma DialTarget_parse_Ok_iff:
  "DialTarget_parse s = Ok t \<longleftrightarrow> trim s = dial_str t \<and> dial_ok t"
  by (cases t) (auto simp: DialTarget_parse_def dial_ok_def Let_def)

lemma DialTarget_parse_dial_str: "dial_ok t \<Longrightarrow> DialTarget_parse (dial_str t) = Ok t"
  by (subst DialTarget_parse_Ok_iff)
    (auto simp: dial_ok_def list_all_iff intro!: trim_graphic graphic_dial)

lemma DtmfTone_parse_Ok_iff:
  "DtmfTone_parse s = Ok t \<longleftrightarrow> map to_ascii_uppercase s = tone_value t \<and> tone_ok t"
  by (cases t) (auto simp: DtmfTone_parse_def tone_ok_def Let_def length_Suc_conv)

lemma Gain_new_Ok_iff: "Gain_new v = Ok g \<longleftrightarrow> gain_value g = v \<and> gain_ok g"
  by (cases g) (auto simp: Gain_new_def gain_ok_def)

text \<open>
  Parsing a dial target succeeds exactly when the trimmed text has 1 to 32 characters, all
  of them digits, \<open>+\<close>, \<open>*\<close> or \<open>#\<close>, and returns just that text; so no
  control character, quote or separator of the AT or D-Bus command languages can reach a backend
  through it. Every accepted target parses back to itself, and its \<open>Debug\<close> text (like
  that of a dial command) does not depend on it.
\<close>

theorem dial_target_parse:
  "(DialTarget_parse s = Ok t \<longleftrightarrow>
      dial_str t = trim s \<and> dial_str t \<noteq> [] \<and> length (dial_str t) \<le> 32 \<and>
      list_all is_dial_char (dial_str t)) \<and>
   (DialTarget_parse s = Ok t \<longrightarrow> DialTarget_parse (dial_str t) = Ok t) \<and>
   CallCommand_debug (CallCommand.Dial t) = CallCommand_debug (CallCommand.Dial u) \<and>
   DialTarget_debug t = DialTarget_debug u"
  using DialTarget_parse_Ok_iff [of s t] DialTarget_parse_dial_str [of t]
  by (auto simp: dial_ok_def DialTarget_debug_def)

theorem dial_target_parse_witness:
  "DialTarget_parse ''+4420'' = Ok (DialTarget ''+4420'')"
proof -
  have "trim ''+4420'' = ''+4420''"
    by (rule trim_graphic) (simp add: is_ascii_graphic_def byte_of_def)
  then show ?thesis
    using dial_target_parse [of "''+4420''" "DialTarget ''+4420''"]
    by (simp add: is_dial_char_def is_ascii_digit_def byte_of_def)
qed

end
