(* ===== verification/Core_Contacts.thy ===== *)
theory Core_Contacts
  imports Rust_Text
begin

text \<open>
  \<open>crates/analogconnect-core/src/contacts.rs\<close>: phone numbers and their matching keys, and the
  parser for the human output of \<open>imsg contacts --raw\<close>.
\<close>

record PhoneNumber =
  ph_display :: string
  ph_normalized :: string

record Contact =
  display_name :: "string option"
  phones :: "PhoneNumber list"

definition PhoneNumber_debug :: "PhoneNumber \<Rightarrow> string" where
  "PhoneNumber_debug _ = ''PhoneNumber([redacted])''"

definition PhoneNumber_parse :: "string \<Rightarrow> PhoneNumber option" where
  "PhoneNumber_parse input =
     (let trimmed = trim input;
          digits = filter is_ascii_digit trimmed
      in if length digits < 3 then None
         else let international = prefix ''+'' trimmed \<or> prefix ''00'' trimmed;
                  normalized = (if international
                    then ''+'' @ dropWhile (\<lambda>c. c = CHR ''0'') digits else digits)
           in Some \<lparr>ph_display = trimmed, ph_normalized = normalized\<rparr>)"

definition PhoneNumber_match_key :: "PhoneNumber \<Rightarrow> string" where
  "PhoneNumber_match_key self = dropWhile (\<lambda>c. c = CHR ''+'') (ph_normalized self)"

datatype ContactParseError = MissingContactHeader | NoUsableContacts

text \<open>One block of the output: nothing, an error, or a contact with a phone.\<close>

definition parse_block :: "string \<Rightarrow> (Contact option, ContactParseError) result" where
  "parse_block block =
     (case filter (\<lambda>line. trim line \<noteq> []) (lines block) of
        [] \<Rightarrow> Ok None
      | header # rest \<Rightarrow>
          if starts_with_whitespace header then Err MissingContactHeader
          else let name = (if trim header = ''(unknown)'' then None else Some (trim header));
                   numbers = List.map_filter PhoneNumber_parse (filter starts_with_whitespace rest)
            in Ok (if numbers = [] then None
                   else Some \<lparr>display_name = name, phones = numbers\<rparr>))"

fun parse_blocks :: "string list \<Rightarrow> (Contact list, ContactParseError) result" where
  "parse_blocks [] = Ok []"
| "parse_blocks (block # blocks) =
     result_bind (parse_block block) (\<lambda>c.
     result_bind (parse_blocks blocks) (\<lambda>cs.
       Ok (case c of None \<Rightarrow> cs | Some contact \<Rightarrow> contact # cs)))"

definition CRLF :: string where "CRLF = [CHR 0x0D, CHR 0x0A]"
definition LF :: string where "LF = [CHR 0x0A]"

definition parse_imsg_contacts :: "string \<Rightarrow> (Contact list, ContactParseError) result" where
  "parse_imsg_contacts input =
     result_bind (parse_blocks (split_str (LF @ LF) (replace_str CRLF LF input))) (\<lambda>contacts.
       if contacts = [] \<and> trim input \<noteq> [] \<and> trim input \<noteq> ''(no contacts)''
       then Err NoUsableContacts
       else Ok contacts)"

section \<open>Phone numbers\<close>

definition phone_ok :: "PhoneNumber \<Rightarrow> bool" where
  "phone_ok p \<longleftrightarrow> trim (ph_display p) = ph_display p \<and>
     list_all is_ascii_digit (PhoneNumber_match_key p) \<and>
     (ph_normalized p = PhoneNumber_match_key p \<or> ph_normalized p = ''+'' @ PhoneNumber_match_key p)"

lemma plus_not_digit [simp]: "\<not> is_ascii_digit (CHR ''+'')"
  by (simp add: is_ascii_digit_def byte_of_def)

lemma dropWhile_plus_digits: "list_all is_ascii_digit ds \<Longrightarrow> dropWhile (\<lambda>c. c = CHR ''+'') ds = ds"
  by (cases ds) auto

lemma list_all_dropWhile: "list_all P xs \<Longrightarrow> list_all P (dropWhile Q xs)"
  by (auto simp: list_all_iff dest: set_dropWhileD)

lemma match_digits [simp]:
  "list_all is_ascii_digit (filter is_ascii_digit s)"
  "list_all is_ascii_digit (dropWhile P (filter is_ascii_digit s))"
  "dropWhile (\<lambda>c. c = CHR ''+'') (filter is_ascii_digit s) = filter is_ascii_digit s"
  "dropWhile (\<lambda>c. c = CHR ''+'') (dropWhile P (filter is_ascii_digit s)) =
     dropWhile P (filter is_ascii_digit s)"
proof -
  show d: "list_all is_ascii_digit (filter is_ascii_digit s)" by (simp add: list_all_iff)
  then show "list_all is_ascii_digit (dropWhile P (filter is_ascii_digit s))"
    by (rule list_all_dropWhile)
  with d show "dropWhile (\<lambda>c. c = CHR ''+'') (filter is_ascii_digit s) = filter is_ascii_digit s"
    and "dropWhile (\<lambda>c. c = CHR ''+'') (dropWhile P (filter is_ascii_digit s)) =
     dropWhile P (filter is_ascii_digit s)"
    by (simp_all only: dropWhile_plus_digits)
qed

lemma PhoneNumber_parse_phone_ok: "PhoneNumber_parse s = Some p \<Longrightarrow> phone_ok p"
  by (auto simp: PhoneNumber_parse_def phone_ok_def PhoneNumber_match_key_def Let_def
      split: if_splits)

lemma PhoneNumber_parse_display: "PhoneNumber_parse s = Some p \<Longrightarrow> ph_display p = trim s"
  by (auto simp: PhoneNumber_parse_def Let_def split: if_splits)

lemma PhoneNumber_parse_trim: "PhoneNumber_parse (trim s) = PhoneNumber_parse s"
  by (simp add: PhoneNumber_parse_def)

text \<open>
  A number parses exactly when its trimmed text has at least three ASCII digits; the display
  form is that text; the matching key consists of digits only, namely the digits of the text,
  without their leading zeros when the text starts with \<open>+\<close> or \<open>00\<close>. Hence two
  inputs with equal digits after an international prefix have the same key however they are
  punctuated.
\<close>

theorem phone_number_parse:
  "(case PhoneNumber_parse s of
      None \<Rightarrow> length (filter is_ascii_digit (trim s)) < 3
    | Some p \<Rightarrow>
        3 \<le> length (filter is_ascii_digit (trim s)) \<and>
        ph_display p = trim s \<and>
        list_all is_ascii_digit (PhoneNumber_match_key p) \<and>
        PhoneNumber_match_key p =
          (if prefix ''+'' (trim s) \<or> prefix ''00'' (trim s)
           then dropWhile (\<lambda>c. c = CHR ''0'') (filter is_ascii_digit (trim s))
           else filter is_ascii_digit (trim s)))"
  by (auto simp: PhoneNumber_parse_def PhoneNumber_match_key_def Let_def)

section \<open>The contact parser\<close>

lemma map_filter_mem: "y \<in> set (List.map_filter f xs) \<longleftrightarrow> (\<exists>x \<in> set xs. f x = Some y)"
  by (induction xs) (auto simp: List.map_filter_simps split: option.splits)

lemma map_filter_inverse:
  "(\<And>x. x \<in> set xs \<Longrightarrow> f (g x) = Some x) \<Longrightarrow> List.map_filter f (map g xs) = xs"
  by (induction xs) (simp_all add: List.map_filter_simps)

definition contact_ok :: "Contact \<Rightarrow> bool" where
  "contact_ok c \<longleftrightarrow> phones c \<noteq> [] \<and> list_all phone_ok (phones c) \<and>
     (case display_name c of None \<Rightarrow> True | Some n \<Rightarrow> n \<noteq> [] \<and> trim n = n \<and> n \<noteq> ''(unknown)'')"

lemma parse_block_ok: "parse_block b = Ok (Some c) \<Longrightarrow> contact_ok c"
proof -
  assume b: "parse_block b = Ok (Some c)"
  obtain header rest where ls: "filter (\<lambda>line. trim line \<noteq> []) (lines b) = header # rest"
    using b by (auto simp: parse_block_def split: list.splits)
  then have "trim header \<noteq> []"
    by (metis (mono_tags, lifting) filter_eq_ConsD)
  with b ls show ?thesis
    by (auto simp: parse_block_def contact_ok_def Let_def list_all_iff map_filter_mem
        split: if_splits intro: PhoneNumber_parse_phone_ok)
qed

lemma parse_blocks_ok: "parse_blocks bs = Ok cs \<Longrightarrow> list_all contact_ok cs"
  by (induction bs arbitrary: cs)
    (auto simp: result_bind_Ok_iff parse_block_ok split: option.splits)

text \<open>The text that prints a list of contacts in the layout of \<open>imsg contacts --raw\<close>.\<close>

definition contact_lines :: "Contact \<Rightarrow> string list" where
  "contact_lines c =
     (case display_name c of None \<Rightarrow> ''(unknown)'' | Some n \<Rightarrow> n)
     # map (\<lambda>p. ''  '' @ ph_display p) (phones c)"

definition print_contacts :: "Contact list \<Rightarrow> string" where
  "print_contacts cs = join_str (LF @ LF) (map (\<lambda>c. join_str LF (contact_lines c)) cs)"

definition single_line :: "string \<Rightarrow> bool" where
  "single_line s \<longleftrightarrow> s \<noteq> [] \<and> CHR 0x0A \<notin> set s \<and> CHR 0x0D \<notin> set s"

definition printable_contact :: "Contact \<Rightarrow> bool" where
  "printable_contact c \<longleftrightarrow> contact_ok c \<and>
     (case display_name c of None \<Rightarrow> True | Some n \<Rightarrow> single_line n) \<and>
     list_all (\<lambda>p. single_line (ph_display p) \<and> PhoneNumber_parse (ph_display p) = Some p) (phones c)"

lemma split_once_none:
  "c \<notin> set s \<Longrightarrow> split_once (c # p) s = None"
  by (induction s) auto

lemma split_str_none: "c \<notin> set s \<Longrightarrow> split_str (c # p) s = [s]"
  by (subst split_str.simps) (simp add: split_once_none)

lemma split_once_LF: "CHR 0x0A \<notin> set l \<Longrightarrow> split_once LF (l @ LF @ s) = Some (l, s)"
  by (induction l) (auto simp: LF_def)

lemma split_str_lines:
  "ls \<noteq> [] \<Longrightarrow> list_all (\<lambda>l. CHR 0x0A \<notin> set l) ls \<Longrightarrow> split_str LF (join_str LF ls) = ls"
proof (induction LF ls rule: join_str.induct)
  case (3 x y ys)
  then show ?case
    by (subst split_str.simps) (simp add: split_once_LF, simp add: LF_def)
qed (simp_all add: LF_def split_str_none)

lemma split_once_para_line:
  "CHR 0x0A \<notin> set l \<Longrightarrow> c \<noteq> CHR 0x0A \<Longrightarrow>
   split_once (LF @ LF) (l @ LF @ c # s) =
     map_option (\<lambda>(a, b). (l @ LF @ a, b)) (split_once (LF @ LF) (c # s))"
  by (induction l) (auto simp: LF_def option.map_comp comp_def case_prod_unfold)

lemma split_once_para:
  assumes "ls \<noteq> []" and "list_all single_line ls"
  shows "split_once (LF @ LF) (join_str LF ls) = None \<and>
         split_once (LF @ LF) (join_str LF ls @ LF @ LF @ s) = Some (join_str LF ls, s)"
  using assms
proof (induction LF ls rule: join_str.induct)
  case (2 x)
  then have "CHR 0x0A \<notin> set x" by (simp add: single_line_def)
  then have "split_once (LF @ LF) (x @ LF @ LF @ s) = Some (x, s)"
    by (induction x) (auto simp: LF_def)
  with \<open>CHR 0x0A \<notin> set x\<close> show ?case by (simp add: LF_def split_once_none)
next
  case (3 x y ys)
  then obtain c y' where y: "y = c # y'" "c \<noteq> CHR 0x0A"
    by (cases y) (auto simp: single_line_def)
  then obtain t where t: "join_str LF (y # ys) = c # t" by (cases ys) auto
  have x: "CHR 0x0A \<notin> set x" using 3 by (simp add: single_line_def)
  show ?case
    using 3 y t split_once_para_line [OF x y(2), of t]
      split_once_para_line [OF x y(2), of "t @ LF @ LF @ s"] by simp
qed simp

lemma split_str_paras:
  "bs \<noteq> [] \<Longrightarrow> list_all (\<lambda>ls. ls \<noteq> [] \<and> list_all single_line ls) bs \<Longrightarrow>
   split_str (LF @ LF) (join_str (LF @ LF) (map (join_str LF) bs)) = map (join_str LF) bs"
proof (induction bs)
  case (Cons b bs)
  then have b: "b \<noteq> []" "list_all single_line b" by simp_all
  show ?case
  proof (cases bs)
    case Nil
    then show ?thesis
      using split_once_para [OF b] by (subst split_str.simps) (simp add: LF_def)
  next
    case (Cons b' bs')
    moreover have "split_str (LF @ LF) (join_str (LF @ LF) (map (join_str LF) bs)) = map (join_str LF) bs"
      using Cons.IH Cons.prems Cons by simp
    ultimately show ?thesis
      using split_once_para [OF b, of "join_str (LF @ LF) (map (join_str LF) bs)"]
      by (subst split_str.simps) (simp, simp add: LF_def)
  qed
qed simp

lemma lines_join:
  assumes "ls \<noteq> []" and "list_all single_line ls"
  shows "lines (join_str LF ls) = ls"
proof -
  have "split_str LF (join_str LF ls) = ls"
    using assms by (intro split_str_lines) (auto simp: single_line_def list_all_iff)
  moreover have "last ls \<noteq> []" using assms by (auto simp: single_line_def list_all_iff)
  moreover have "map strip_cr ls = ls"
    using assms by (intro map_idI) (metis last_in_set list_all_iff single_line_def strip_cr_def)
  ultimately show ?thesis by (simp add: lines_def LF_def)
qed

lemma starts_with_space [simp]: "starts_with_whitespace (CHR '' '' # s)"
  by (simp add: starts_with_whitespace_def white_space_def)

lemma trim_space: "trim (CHR '' '' # s) = trim s"
  by (simp add: trim_def trim_start.simps [of "CHR '' '' # s"] white_space_def)

lemma trimmed_not_ws: "trim s = s \<Longrightarrow> \<not> starts_with_whitespace s"
  using trim_no_leading_ws [of _ s] by (auto simp: starts_with_whitespace_def list_ex_iff)

lemma parse_block_print:
  assumes "printable_contact c"
  shows "parse_block (join_str LF (contact_lines c)) = Ok (Some c)" (is "?parse = _")
    and "contact_lines c \<noteq> [] \<and> list_all single_line (contact_lines c)"
proof -
  let ?n = "case display_name c of None \<Rightarrow> ''(unknown)'' | Some n \<Rightarrow> n"
  let ?ps = "map (\<lambda>p. ''  '' @ ph_display p) (phones c)"
  have n: "trim ?n = ?n" "?n \<noteq> []" "single_line ?n"
    using assms
    by (auto simp: printable_contact_def contact_ok_def single_line_def byte_of_def
        is_ascii_graphic_def split: option.splits intro!: trim_graphic)
  have p: "single_line (''  '' @ ph_display q)" "trim (''  '' @ ph_display q) = ph_display q"
      "ph_display q \<noteq> []" "PhoneNumber_parse (''  '' @ ph_display q) = Some q"
    if "q \<in> set (phones c)" for q
    using that assms PhoneNumber_parse_trim [of "''  '' @ ph_display q"]
      PhoneNumber_parse_trim [of "ph_display q"]
    by (auto simp: printable_contact_def contact_ok_def phone_ok_def single_line_def list_all_iff
        trim_space)
  show lines: "contact_lines c \<noteq> [] \<and> list_all single_line (contact_lines c)"
    using n p by (auto simp: contact_lines_def list_all_iff)
  have "filter (\<lambda>line. trim line \<noteq> []) (contact_lines c) = ?n # ?ps"
    using n p by (simp add: contact_lines_def)
  moreover have "filter starts_with_whitespace ?ps = ?ps" by simp
  moreover have "List.map_filter PhoneNumber_parse ?ps = phones c"
    using p(4) by (intro map_filter_inverse) simp
  moreover have "(if ?n = ''(unknown)'' then None else Some ?n) = display_name c"
    using assms by (auto simp: printable_contact_def contact_ok_def split: option.splits)
  moreover have "phones c \<noteq> []" using assms by (simp add: printable_contact_def contact_ok_def)
  ultimately show "?parse = Ok (Some c)"
    using n trimmed_not_ws [OF n(1)] lines
    by (auto simp: parse_block_def lines_join Let_def intro!: Contact.equality split: if_splits)
qed

text \<open>
  The contact parser inverts the printed layout: for contacts with printable single-line
  names and numbers, parsing the blocks (a header line, then the indented numbers, blocks
  separated by an empty line) returns exactly these contacts, in order.
\<close>

theorem parse_print_contacts:
  assumes "list_all printable_contact cs"
  shows "parse_imsg_contacts (print_contacts cs) = Ok cs"
proof (cases "cs = []")
  case True
  then show ?thesis
    by (simp add: parse_imsg_contacts_def print_contacts_def replace_str_def CRLF_def LF_def
        split_str_none parse_block_def lines_def Let_def trim_graphic)
next
  case False
  let ?bs = "map contact_lines cs"
  have bs: "list_all (\<lambda>ls. ls \<noteq> [] \<and> list_all single_line ls) ?bs"
    using assms parse_block_print(2) by (auto simp: list_all_iff)
  have join_cr: "CHR 0x0D \<notin> set (join_str sep xs)"
    if "CHR 0x0D \<notin> set sep" "list_all (\<lambda>x. CHR 0x0D \<notin> set x) xs" for sep xs
    using that by (induction sep xs rule: join_str.induct) auto
  have "CHR 0x0D \<notin> set (join_str LF ls)" if "list_all single_line ls" for ls
    using that by (intro join_cr) (auto simp: LF_def list_all_iff single_line_def)
  then have "CHR 0x0D \<notin> set (print_contacts cs)"
    unfolding print_contacts_def using bs by (intro join_cr) (auto simp: LF_def list_all_iff)
  then have "replace_str CRLF LF (print_contacts cs) = print_contacts cs"
    by (simp add: replace_str_def CRLF_def split_str_none)
  moreover have "split_str (LF @ LF) (print_contacts cs) = map (\<lambda>c. join_str LF (contact_lines c)) cs"
    using split_str_paras [OF _ bs] False by (simp add: print_contacts_def comp_def)
  moreover have "parse_blocks (map (\<lambda>c. join_str LF (contact_lines c)) cs) = Ok cs"
    using assms by (induction cs) (simp_all add: parse_block_print)
  ultimately show ?thesis using False by (simp add: parse_imsg_contacts_def)
qed

lemma parse_unicode_free: "trim ''5550'' = ''5550''" "trim ''Ada'' = ''Ada''"
  by (rule trim_graphic, simp add: is_ascii_graphic_def byte_of_def)+

theorem parse_print_contacts_witness:
  "parse_imsg_contacts (print_contacts [\<lparr>display_name = Some ''Ada'',
     phones = [\<lparr>ph_display = ''5550'', ph_normalized = ''5550''\<rparr>]\<rparr>]) =
   Ok [\<lparr>display_name = Some ''Ada'', phones = [\<lparr>ph_display = ''5550'', ph_normalized = ''5550''\<rparr>]\<rparr>]"
  by (rule parse_print_contacts)
    (simp add: printable_contact_def contact_ok_def phone_ok_def single_line_def
      PhoneNumber_parse_def PhoneNumber_match_key_def parse_unicode_free is_ascii_digit_def byte_of_def Let_def)

text \<open>
  Whatever the output of \<open>imsg\<close> is, an accepted result holds only contacts with at least
  one number, whose names are trimmed, not empty and not the \<open>(unknown)\<close> marker, and whose
  numbers have digit-only keys; an empty list is accepted only for blank output or
  \<open>(no contacts)\<close>.
\<close>

theorem parse_imsg_contacts_sound:
  assumes "parse_imsg_contacts input = Ok cs"
  shows "list_all contact_ok cs \<and>
    (cs = [] \<longrightarrow> trim input = [] \<or> trim input = ''(no contacts)'')"
  using assms parse_blocks_ok
  by (auto simp: parse_imsg_contacts_def result_bind_Ok_iff split: if_splits)

theorem parse_imsg_contacts_sound_witness:
  "list_all contact_ok [] \<and> (trim [] = [] \<or> trim [] = ''(no contacts)'')"
proof -
  have "parse_imsg_contacts [] = Ok []"
    by (simp add: parse_imsg_contacts_def replace_str_def CRLF_def LF_def split_str_none
        parse_block_def lines_def Let_def trim_graphic)
  from parse_imsg_contacts_sound [OF this] show ?thesis by blast
qed

end
