(* ===== verification/Auth.thy ===== *)
theory Auth
  imports Rust_Text
begin

text \<open>
  \<open>crates/analogconnectd/src/auth.rs\<close>: API tokens with a rotation slot, and the fixed-window
  limiter for mutating requests. The constant-time comparison of the \<open>subtle\<close> crate is the
  parameter \<open>ct_eq\<close>; an \<open>Instant\<close> and a \<open>Duration\<close> are natural numbers.
\<close>

text \<open>What \<open>subtle\<close> documents: on slices of equal length, \<open>ct_eq\<close> decides equality.\<close>

type_synonym 'b ct_eq = "'b list \<Rightarrow> 'b list \<Rightarrow> bool"

definition ct_eq_spec :: "'b ct_eq \<Rightarrow> bool" where
  "ct_eq_spec ct \<longleftrightarrow> (\<forall>a b. length a = length b \<longrightarrow> ct a b = (a = b))"

lemma ct_eq_specD: "ct_eq_spec ct \<Longrightarrow> length a = length b \<Longrightarrow> ct a b \<longleftrightarrow> a = b"
  by (simp add: ct_eq_spec_def)

section \<open>Tokens\<close>

datatype AuthTokenError = InvalidLength

datatype AuthToken = AuthToken (token_bytes: string)

definition AuthToken_new :: "string \<Rightarrow> (AuthToken, AuthTokenError) result" where
  "AuthToken_new token =
     (let bytes = token
      in if length bytes < 32 \<or> 256 < length bytes then Err InvalidLength else Ok (AuthToken bytes))"

definition AuthToken_matches :: "char ct_eq \<Rightarrow> AuthToken \<Rightarrow> string \<Rightarrow> bool" where
  "AuthToken_matches ct_eq self candidate =
     (if length candidate \<noteq> length (token_bytes self) then False
      else ct_eq (token_bytes self) candidate)"

record AuthTokens =
  tk_current :: AuthToken
  tk_previous :: "AuthToken option"

definition AuthTokens_new :: "AuthToken \<Rightarrow> AuthTokens" where
  "AuthTokens_new c = \<lparr>tk_current = c, tk_previous = None\<rparr>"

definition AuthTokens_with_previous :: "AuthToken \<Rightarrow> AuthToken \<Rightarrow> AuthTokens" where
  "AuthTokens_with_previous c p = \<lparr>tk_current = c, tk_previous = Some p\<rparr>"

definition AuthTokens_matches :: "char ct_eq \<Rightarrow> AuthTokens \<Rightarrow> string \<Rightarrow> bool" where
  "AuthTokens_matches ct_eq self candidate =
     (let is_current = AuthToken_matches ct_eq (tk_current self) candidate;
          is_previous = (case tk_previous self of None \<Rightarrow> False
            | Some token \<Rightarrow> AuthToken_matches ct_eq token candidate)
      in is_current \<or> is_previous)"

definition AuthTokens_debug :: "AuthTokens \<Rightarrow> string" where
  "AuthTokens_debug _ = ''AuthTokens([redacted])''"

definition AuthToken_debug :: "AuthToken \<Rightarrow> string" where
  "AuthToken_debug _ = ''AuthToken([redacted])''"

section \<open>The mutation limiter\<close>

record MutationWindow =
  mw_started_at :: nat
  mw_accepted :: u32

record MutationLimiter =
  ml_maximum :: u32
  ml_window :: nat
  ml_state :: "MutationWindow mutex"

datatype MutationLimiterError = LockPoisoned

definition MutationLimiter_new :: "u32 \<Rightarrow> nat \<Rightarrow> nat \<Rightarrow> MutationLimiter" where
  "MutationLimiter_new mx w now =
     \<lparr>ml_maximum = mx, ml_window = w, ml_state = Mutex False \<lparr>mw_started_at = now, mw_accepted = 0\<rparr>\<rparr>"

definition MutationLimiter_allow_at ::
  "MutationLimiter \<Rightarrow> nat \<Rightarrow> (bool, MutationLimiterError) result \<times> MutationLimiter" where
  "MutationLimiter_allow_at self now =
     (case lock (ml_state self) LockPoisoned of
        Inl e \<Rightarrow> (Err e, self)
      | Inr state \<Rightarrow>
          let state = (if ml_window self \<le> now - mw_started_at state
                       then state\<lparr>mw_started_at := now, mw_accepted := 0\<rparr> else state)
          in if ml_maximum self \<le> mw_accepted state
             then (Ok False, self\<lparr>ml_state := unlock_with (ml_state self) state\<rparr>)
             else let state = state\<lparr>mw_accepted := saturating_add (mw_accepted state) 1\<rparr>
               in (Ok True, self\<lparr>ml_state := unlock_with (ml_state self) state\<rparr>))"

text \<open>A history of requests, by their instants, and how many of them were let through.\<close>

fun allowed_count :: "MutationLimiter \<Rightarrow> nat list \<Rightarrow> nat" where
  "allowed_count l [] = 0"
| "allowed_count l (t # ts) =
     (let (r, l') = MutationLimiter_allow_at l t
      in (if r = Ok True then 1 else 0) + allowed_count l' ts)"

section \<open>Tokens match by equality\<close>

lemma AuthToken_new_Ok_iff:
  "AuthToken_new s = Ok t \<longleftrightarrow> t = AuthToken s \<and> 32 \<le> length s \<and> length s \<le> 256"
  by (auto simp: AuthToken_new_def Let_def)

lemma AuthToken_matches_iff:
  "ct_eq_spec ct \<Longrightarrow> AuthToken_matches ct t s \<longleftrightarrow> token_bytes t = s"
  by (auto simp: AuthToken_matches_def ct_eq_spec_def)

lemma AuthTokens_matches_iff:
  "ct_eq_spec ct \<Longrightarrow> AuthTokens_matches ct ts s \<longleftrightarrow>
     s = token_bytes (tk_current ts) \<or> (\<exists>p. tk_previous ts = Some p \<and> s = token_bytes p)"
  by (auto simp: AuthTokens_matches_def AuthToken_matches_iff Let_def split: option.splits)

section \<open>How much the limiter lets through\<close>

lemma window_elapsed_dec: "(ml_window l \<le> now - mw_started_at st) = (\<not> now - mw_started_at st < ml_window l)"
  by auto

lemma unat_add_one_limit:
  "a < (m :: u32) \<Longrightarrow> unat (saturating_add a 1) = Suc (unat a)"
proof -
  assume "a < m"
  then have "unat a < unat m" by (simp add: word_less_nat_alt)
  moreover have "unat m < 2 ^ LENGTH(32)" by (rule unsigned_less)
  ultimately show ?thesis by (simp add: unat_saturating_add)
qed

lemma allow_at_keeps:
  "MutationLimiter_allow_at l t = (r, l') \<Longrightarrow>
   ml_maximum l' = ml_maximum l \<and> ml_window l' = ml_window l \<and> poisoned (ml_state l') = poisoned (ml_state l)"
  by (auto simp: MutationLimiter_allow_at_def Let_def split: sum.splits if_splits)

lemma allowed_count_refused:
  assumes "ml_state l = Mutex p st" and "\<not> ml_window l \<le> t - mw_started_at st"
    and "p \<or> ml_maximum l \<le> mw_accepted st"
  shows "allowed_count l (t # ts) = allowed_count l ts"
  using assms
  by (cases l; cases p) (simp_all add: MutationLimiter_allow_at_def)

text \<open>While the window lasts, the limiter lets through what is left of it.\<close>

lemma allowed_in_window:
  assumes "\<forall>t \<in> set ts. t - mw_started_at (mutex_data (ml_state l)) < ml_window l"
  shows "allowed_count l ts \<le> unat (ml_maximum l) - unat (mw_accepted (mutex_data (ml_state l)))"
  using assms
proof (induction ts arbitrary: l)
  case Nil
  then show ?case by simp
next
  case (Cons t ts)
  obtain p st where m: "ml_state l = Mutex p st" by (cases "ml_state l") auto
  have fresh: "\<not> ml_window l \<le> t - mw_started_at st" using Cons.prems m by simp
  show ?case
  proof (cases "p \<or> ml_maximum l \<le> mw_accepted st")
    case True
    then show ?thesis
      using allowed_count_refused [OF m fresh] Cons.IH [of l] Cons.prems m by simp
  next
    case False
    let ?st = "st\<lparr>mw_accepted := saturating_add (mw_accepted st) 1\<rparr>"
    let ?l = "l\<lparr>ml_state := Mutex False ?st\<rparr>"
    have less: "mw_accepted st < ml_maximum l" using False by (simp add: not_le)
    have "MutationLimiter_allow_at l t = (Ok True, ?l)"
      using False fresh m by (simp add: MutationLimiter_allow_at_def)
    moreover have "allowed_count ?l ts \<le> unat (ml_maximum l) - Suc (unat (mw_accepted st))"
      using Cons.IH [of ?l] Cons.prems m unat_add_one_limit [OF less] by simp
    moreover have "unat (mw_accepted st) < unat (ml_maximum l)"
      using less by (simp add: word_less_nat_alt)
    ultimately show ?thesis using m by simp
  qed
qed

lemma allowed_le_maximum:
  assumes "\<forall>t \<in> set ts. t - mw_started_at (mutex_data (ml_state l)) < ml_window l"
  shows "allowed_count l ts \<le> unat (ml_maximum l)"
  using allowed_in_window [OF assms] by simp

lemma allow_at_elapsed:
  assumes "\<not> poisoned (ml_state l)" and "ml_window l \<le> t - mw_started_at (mutex_data (ml_state l))"
  shows "MutationLimiter_allow_at l t =
    (Ok (0 < ml_maximum l), l\<lparr>ml_state := Mutex False
       \<lparr>mw_started_at = t, mw_accepted = (if 0 < ml_maximum l then 1 else 0)\<rparr>\<rparr>)"
proof -
  obtain st where m: "ml_state l = Mutex False st" using assms(1) by (cases "ml_state l") auto
  have "saturating_add 0 (1 :: u32) = 1" by (simp add: saturating_add_def)
  then show ?thesis
    using assms m
    by (cases "ml_maximum l = 0") (simp_all add: MutationLimiter_allow_at_def Let_def word_neq_0_conv)
qed

lemma allowed_count_elapsed:
  assumes "ml_window l \<le> t - mw_started_at (mutex_data (ml_state l))"
    and "\<forall>u \<in> set ts. u - t < ml_window l" and "0 < ml_window l"
  shows "allowed_count l (t # ts) \<le> unat (ml_maximum l)"
proof (cases "poisoned (ml_state l)")
  case True
  then have "allowed_count l us = 0" for us
    by (induction us) (auto simp: MutationLimiter_allow_at_def lock_def)
  then have "allowed_count l (t # ts) = 0" by blast
  then show ?thesis by linarith
next
  case False
  let ?l = "l\<lparr>ml_state := Mutex False \<lparr>mw_started_at = t, mw_accepted = 0\<rparr>\<rparr>"
  have "MutationLimiter_allow_at ?l t = MutationLimiter_allow_at l t"
    using allow_at_elapsed [OF False assms(1)] assms(3)
    unfolding MutationLimiter_allow_at_def [of ?l]
    by (simp add: Let_def saturating_add_def word_neq_0_conv)
  then have "allowed_count l (t # ts) = allowed_count ?l (t # ts)" by simp
  also have "\<dots> \<le> unat (ml_maximum l)"
    using allowed_le_maximum [of "t # ts" ?l] assms by simp
  finally show ?thesis .
qed

lemma allowed_count_two_windows:
  assumes "\<forall>t \<in> set ts. a \<le> t \<and> t < a + ml_window l" and "0 < ml_window l"
  shows "allowed_count l ts + unat (mw_accepted (mutex_data (ml_state l))) \<le>
    max (unat (mw_accepted (mutex_data (ml_state l)))) (unat (ml_maximum l)) + unat (ml_maximum l)"
  using assms
proof (induction ts arbitrary: l)
  case Nil
  then show ?case by simp
next
  case (Cons t ts)
  obtain p st where m: "ml_state l = Mutex p st" by (cases "ml_state l") auto
  show ?case
  proof (cases "ml_window l \<le> t - mw_started_at st")
    case True
    have "\<forall>u \<in> set ts. u - t < ml_window l" using Cons.prems by fastforce
    then have "allowed_count l (t # ts) \<le> unat (ml_maximum l)"
      using allowed_count_elapsed [of l t ts] True Cons.prems m by simp
    then show ?thesis by simp
  next
    case fresh: False
    show ?thesis
    proof (cases "p \<or> ml_maximum l \<le> mw_accepted st")
      case True
      then show ?thesis
        using allowed_count_refused [OF m fresh] Cons.IH [of l] Cons.prems m by simp
    next
      case False
      let ?st = "st\<lparr>mw_accepted := saturating_add (mw_accepted st) 1\<rparr>"
      let ?l = "l\<lparr>ml_state := Mutex False ?st\<rparr>"
      have less: "mw_accepted st < ml_maximum l" using False by (simp add: not_le)
      then have nat: "unat (mw_accepted st) < unat (ml_maximum l)" by (simp add: word_less_nat_alt)
      have "MutationLimiter_allow_at l t = (Ok True, ?l)"
        using False fresh m by (simp add: MutationLimiter_allow_at_def)
      moreover have "allowed_count ?l ts + Suc (unat (mw_accepted st)) \<le>
          unat (ml_maximum l) + unat (ml_maximum l)"
        using Cons.IH [of ?l] Cons.prems m unat_add_one_limit [OF less] nat by simp
      ultimately show ?thesis using m nat by simp
    qed
  qed
qed

text \<open>
  The mutation limiter, in any state, lets at
  most twice its maximum through in any span shorter than its window, whatever requests came
  before and in whatever order the instants are read; within the current window it lets at most
  the maximum through; and the first request after the window has passed is accepted whenever
  the maximum is positive.
\<close>

theorem mutation_limiter_bound:
  assumes "0 < ml_window l"
    and "\<forall>t \<in> set ts. a \<le> t \<and> t < a + ml_window l"
  shows "allowed_count l ts \<le> 2 * unat (ml_maximum l) \<and>
    ((\<forall>t \<in> set ts. t - mw_started_at (mutex_data (ml_state l)) < ml_window l) \<longrightarrow>
       allowed_count l ts \<le> unat (ml_maximum l)) \<and>
    (\<forall>t. \<not> poisoned (ml_state l) \<and> ml_window l \<le> t - mw_started_at (mutex_data (ml_state l)) \<longrightarrow>
       fst (MutationLimiter_allow_at l t) = Ok (0 < ml_maximum l))"
  using allowed_count_two_windows [OF assms(2,1)] allowed_le_maximum [of ts l] allow_at_elapsed [of l]
  by auto

theorem mutation_limiter_bound_witness:
  "allowed_count (MutationLimiter_new 2 10 0) [5, 6, 7, 12, 13, 14] \<le> 4 \<and>
   allowed_count (MutationLimiter_new 2 10 0) [5, 6, 7] \<le> 2"
proof -
  have "allowed_count (MutationLimiter_new 2 10 0) [5, 6, 7, 12, 13, 14] \<le>
      2 * unat (ml_maximum (MutationLimiter_new 2 10 0))"
    using mutation_limiter_bound [of "MutationLimiter_new 2 10 0" "[5, 6, 7, 12, 13, 14]" 5]
    by (simp add: MutationLimiter_new_def)
  moreover have "allowed_count (MutationLimiter_new 2 10 0) [5, 6, 7] \<le>
      unat (ml_maximum (MutationLimiter_new 2 10 0))"
    using mutation_limiter_bound [of "MutationLimiter_new 2 10 0" "[5, 6, 7]" 5]
    by (simp add: MutationLimiter_new_def)
  ultimately show ?thesis by (simp add: MutationLimiter_new_def)
qed

text \<open>
  With the documented behaviour of \<open>subtle\<close>, a candidate matches exactly when it is the
  current token or the previous one kept for rotation; every token is 32 to 256 bytes long, so a
  short or empty credential never matches.
\<close>

theorem auth_tokens_match:
  assumes "ct_eq_spec ct"
    and "AuthToken_new c = Ok cur" and "AuthToken_new p = Ok prev"
  shows "(AuthTokens_matches ct (AuthTokens_new cur) s \<longleftrightarrow> s = c) \<and>
    (AuthTokens_matches ct (AuthTokens_with_previous cur prev) s \<longleftrightarrow> s = c \<or> s = p) \<and>
    (AuthTokens_matches ct (AuthTokens_with_previous cur prev) s \<longrightarrow>
       32 \<le> length s \<and> length s \<le> 256)"
  using assms
  by (auto simp: AuthTokens_matches_iff AuthTokens_new_def AuthTokens_with_previous_def
      AuthToken_new_Ok_iff)

theorem auth_tokens_match_witness:
  "ct_eq_spec (\<lambda>a b. a = b) \<and>
   AuthTokens_matches (\<lambda>a b. a = b)
     (AuthTokens_with_previous (AuthToken (replicate 32 CHR ''k'')) (AuthToken (replicate 32 CHR ''p'')))
     (replicate 32 CHR ''p'')"
proof -
  have "ct_eq_spec (\<lambda>a b :: string. a = b)" by (simp add: ct_eq_spec_def)
  from auth_tokens_match [OF this, of "replicate 32 CHR ''k''" _ "replicate 32 CHR ''p''"]
  show ?thesis by (simp add: AuthToken_new_def ct_eq_spec_def)
qed

end
