(* ===== verification/Media_Auth.thy ===== *)
theory Media_Auth
  imports Auth
begin

text \<open>
  \<open>crates/analogconnectd/src/media_auth.rs\<close>: one-time credentials for a call's media session.
  Grants are shared through \<open>Arc\<close> between the registry and the leases, so they live in an
  explicit heap and are named by their address; the atomic flags are fields of the grant. The
  random source and the constant-time comparison are parameters. Instants and durations count
  nanoseconds. The end of the theory composes the operations to a transition system in which
  the steps of concurrent claims interleave.
\<close>

definition SESSION_ID_BYTES :: nat where "SESSION_ID_BYTES = 16"
definition TOKEN_BYTES :: nat where "TOKEN_BYTES = 32"
definition ENTROPY_BYTES :: nat where "ENTROPY_BYTES = SESSION_ID_BYTES + TOKEN_BYTES"


definition MAX_LIFETIME :: nat where "MAX_LIFETIME = from_secs (5 * 60)"

section \<open>Hexadecimal text\<close>

definition HEX :: string where "HEX = ''0123456789abcdef''"

definition encode_hex :: "u8 list \<Rightarrow> string" where
  "encode_hex bytes =
     concat (map (\<lambda>byte. [HEX ! unat (drop_bit 4 byte), HEX ! unat (byte AND 0x0f)]) bytes)"

definition as_byte :: "char \<Rightarrow> u8" where
  "as_byte c = word_of_nat (byte_of c)"

definition decode_nibble :: "u8 \<Rightarrow> u8 option" where
  "decode_nibble v =
     (if 48 \<le> v \<and> v \<le> 57 then Some (v - 48)
      else if 97 \<le> v \<and> v \<le> 102 then Some (v - 97 + 10)
      else if 65 \<le> v \<and> v \<le> 70 then Some (v - 65 + 10)
      else None)"

text \<open>The loop over the pairs; \<open>None\<close> is its early return.\<close>

fun decode_pairs :: "(char \<times> char) list \<Rightarrow> u8 list option" where
  "decode_pairs [] = Some []"
| "decode_pairs ((a, b) # ps) =
     (case decode_nibble (as_byte a) of None \<Rightarrow> None
      | Some high \<Rightarrow>
          (case decode_nibble (as_byte b) of None \<Rightarrow> None
           | Some low \<Rightarrow> map_option (\<lambda>ds. (push_bit 4 high OR low) # ds) (decode_pairs ps)))"

definition decode_hex :: "nat \<Rightarrow> string \<Rightarrow> u8 list \<times> bool" where
  "decode_hex n encoded =
     (if length encoded \<noteq> n * 2 \<or> \<not> list_all is_ascii encoded then (replicate n 0, False)
      else case decode_pairs (chunks_exact2 encoded) of
             None \<Rightarrow> (replicate n 0, False)
           | Some decoded \<Rightarrow> (decoded, True))"

section \<open>Grants\<close>

datatype MediaSessionAuthError = InvalidLifetime | RandomUnavailable

record MediaSessionGrant =
  gr_token :: "u8 list"
  gr_expires_at :: nat
  gr_revoked :: bool
  gr_claimed :: bool

record MediaSessionEnrollment =
  en_session_id :: string
  en_token :: string
  en_lifetime_seconds :: nat

text \<open>
  A \<open>RandomSource\<close>: asked for \<open>n\<close> bytes it returns them or fails, and moves on. That a
  filled buffer keeps its length is a fact of Rust's slices.
\<close>

type_synonym ('r, 'e) random_source = "'r \<Rightarrow> nat \<Rightarrow> (u8 list, 'e) result \<times> 'r"

definition fills_buffer :: "('r, 'e) random_source \<Rightarrow> bool" where
  "fills_buffer fill \<longleftrightarrow> (\<forall>r n bs r'. fill r n = (Ok bs, r') \<longrightarrow> length bs = n)"

definition MediaSessionGrant_issue ::
  "('r, 'e) random_source \<Rightarrow> 'r \<Rightarrow> nat \<Rightarrow> nat \<Rightarrow>
   (MediaSessionGrant \<times> MediaSessionEnrollment, MediaSessionAuthError) result \<times> 'r" where
  "MediaSessionGrant_issue fill random lifetime now =
     (if lifetime < from_secs 1 \<or> MAX_LIFETIME < lifetime then (Err InvalidLifetime, random)
      else case fill random ENTROPY_BYTES of
             (Inl _, random) \<Rightarrow> (Err RandomUnavailable, random)
           | (Inr entropy, random) \<Rightarrow>
               let token = drop SESSION_ID_BYTES entropy;
                   enrollment = \<lparr>en_session_id = encode_hex (take SESSION_ID_BYTES entropy),
                                 en_token = encode_hex token,
                                 en_lifetime_seconds = as_secs lifetime\<rparr>
               in (Ok (\<lparr>gr_token = token, gr_expires_at = now + lifetime,
                        gr_revoked = False, gr_claimed = False\<rparr>, enrollment), random))"

definition MediaSessionGrant_authorize ::
  "u8 ct_eq \<Rightarrow> MediaSessionGrant \<Rightarrow> string \<Rightarrow> nat \<Rightarrow> bool" where
  "MediaSessionGrant_authorize ct_eq self presented now =
     (let (candidate, valid_encoding) = decode_hex TOKEN_BYTES presented;
          token_matches = ct_eq (gr_token self) candidate
      in valid_encoding \<and> token_matches \<and> now < gr_expires_at self \<and> \<not> gr_revoked self)"

definition MediaSessionGrant_revoke :: "MediaSessionGrant \<Rightarrow> MediaSessionGrant" where
  "MediaSessionGrant_revoke self = self\<lparr>gr_revoked := True\<rparr>"

text \<open>\<open>compare_exchange(false, true)\<close> on the claim flag: whether it succeeded, and the grant after.\<close>

definition claim_exchange :: "MediaSessionGrant \<Rightarrow> bool \<times> MediaSessionGrant" where
  "claim_exchange g = (if gr_claimed g then (False, g) else (True, g\<lparr>gr_claimed := True\<rparr>))"

definition MediaSessionGrant_claim ::
  "u8 ct_eq \<Rightarrow> MediaSessionGrant \<Rightarrow> string \<Rightarrow> nat \<Rightarrow> bool \<times> MediaSessionGrant" where
  "MediaSessionGrant_claim ct_eq self presented now =
     (if \<not> MediaSessionGrant_authorize ct_eq self presented now then (False, self)
      else claim_exchange self)"

definition MediaSessionGrant_lease_is_active :: "MediaSessionGrant \<Rightarrow> bool" where
  "MediaSessionGrant_lease_is_active self \<longleftrightarrow> \<not> gr_revoked self"

section \<open>Leases and the registry\<close>

text \<open>
  The heap of grants is a list that grows at the end; an address is an index of it. A lease is
  the address it holds.
\<close>

type_synonym addr = nat

record ActiveSession =
  as_session_id :: "u8 list"
  as_grant :: addr

record MediaSystem =
  ms_heap :: "MediaSessionGrant list"
  ms_active :: "ActiveSession option mutex"

datatype MediaSessionRegistryError =
  Authorization MediaSessionAuthError | Unauthorized | Unavailable

definition MediaSystem_new :: MediaSystem where
  "MediaSystem_new = \<lparr>ms_heap = [], ms_active = Mutex False None\<rparr>"

definition update_grant ::
  "(MediaSessionGrant \<Rightarrow> MediaSessionGrant) \<Rightarrow> addr \<Rightarrow> MediaSystem \<Rightarrow> MediaSystem" where
  "update_grant f a s = s\<lparr>ms_heap := (ms_heap s)[a := f (ms_heap s ! a)]\<rparr>"

definition MediaSessionLease_is_active :: "MediaSystem \<Rightarrow> addr \<Rightarrow> bool" where
  "MediaSessionLease_is_active s lease \<longleftrightarrow>
     MediaSessionGrant_lease_is_active (ms_heap s ! lease)"

definition MediaSessionLease_drop :: "addr \<Rightarrow> MediaSystem \<Rightarrow> MediaSystem" where
  "MediaSessionLease_drop lease = update_grant (\<lambda>g. g\<lparr>gr_claimed := False\<rparr>) lease"

text \<open>When the lock is poisoned the new \<open>Arc\<close> is dropped at once, so the heap is as before.\<close>

definition MediaSessionRegistry_issue ::
  "('r, 'e) random_source \<Rightarrow> 'r \<Rightarrow> nat \<Rightarrow> nat \<Rightarrow> MediaSystem \<Rightarrow>
   (MediaSessionEnrollment, MediaSessionRegistryError) result \<times> 'r \<times> MediaSystem" where
  "MediaSessionRegistry_issue fill random lifetime now s =
     (case MediaSessionGrant_issue fill random lifetime now of
        (Inl e, random) \<Rightarrow> (Err (Authorization e), random, s)
      | (Inr (grant, enrollment), random) \<Rightarrow>
          let (session_id, valid_id) = decode_hex SESSION_ID_BYTES (en_session_id enrollment);
              replacement = \<lparr>as_session_id = session_id, as_grant = length (ms_heap s)\<rparr>
          in case lock (ms_active s) Unavailable of
               Inl e \<Rightarrow> (Err e, random, s)
             | Inr active \<Rightarrow>
                 let s = s\<lparr>ms_heap := ms_heap s @ [grant],
                           ms_active := unlock_with (ms_active s) (Some replacement)\<rparr>;
                     s = (case active of None \<Rightarrow> s
                          | Some previous \<Rightarrow> update_grant MediaSessionGrant_revoke (as_grant previous) s)
                 in (Ok enrollment, random, s))"

text \<open>The part of \<open>claim\<close> that holds the lock: the grant of the session asked for.\<close>

definition claim_lookup ::
  "u8 ct_eq \<Rightarrow> string \<Rightarrow> MediaSystem \<Rightarrow> (addr, MediaSessionRegistryError) result" where
  "claim_lookup ct_eq session_id s =
     result_bind (lock (ms_active s) Unavailable) (\<lambda>active.
       case active of
         None \<Rightarrow> Err Unauthorized
       | Some active \<Rightarrow>
           let (candidate_id, valid_id) = decode_hex SESSION_ID_BYTES session_id;
               id_matches = ct_eq (as_session_id active) candidate_id
           in if \<not> valid_id \<or> \<not> id_matches then Err Unauthorized else Ok (as_grant active))"

definition MediaSessionRegistry_claim ::
  "u8 ct_eq \<Rightarrow> string \<Rightarrow> string \<Rightarrow> nat \<Rightarrow> MediaSystem \<Rightarrow>
   (addr, MediaSessionRegistryError) result \<times> MediaSystem" where
  "MediaSessionRegistry_claim ct_eq session_id token now s =
     (case claim_lookup ct_eq session_id s of
        Inl e \<Rightarrow> (Err e, s)
      | Inr a \<Rightarrow>
          (case MediaSessionGrant_claim ct_eq (ms_heap s ! a) token now of
             (won, g) \<Rightarrow> (if won then Ok a else Err Unauthorized, update_grant (\<lambda>_. g) a s)))"

definition MediaSessionRegistry_revoke ::
  "u8 ct_eq \<Rightarrow> string \<Rightarrow> MediaSystem \<Rightarrow>
   (bool, MediaSessionRegistryError) result \<times> MediaSystem" where
  "MediaSessionRegistry_revoke ct_eq session_id s =
     (case lock (ms_active s) Unavailable of
        Inl e \<Rightarrow> (Err e, s)
      | Inr active \<Rightarrow>
          let (candidate_id, valid_id) = decode_hex SESSION_ID_BYTES session_id
          in case active of
               None \<Rightarrow> (Ok False, s)
             | Some a \<Rightarrow>
                 if \<not> valid_id \<or> \<not> ct_eq (as_session_id a) candidate_id then (Ok False, s)
                 else (Ok True, update_grant MediaSessionGrant_revoke (as_grant a)
                        (s\<lparr>ms_active := unlock_with (ms_active s) None\<rparr>)))"

section \<open>The hexadecimal codec\<close>

lemma HEX_nibble:
  assumes "n < 16"
  shows "decode_nibble (as_byte (HEX ! n)) = Some (word_of_nat n) \<and> is_ascii (HEX ! n)"
proof -
  have "n \<in> set [0..<16]" using assms by simp
  then show ?thesis
    by (simp add: upt_rec HEX_def)
      (elim disjE; simp add: decode_nibble_def as_byte_def byte_of_def is_ascii_def word_le_nat_alt)
qed

lemma nibbles_less: "unat (drop_bit 4 (b :: u8)) < 16" "unat ((b :: u8) AND 0x0f) < 16"
proof -
  have "unat (b :: u8) < 16 * 16" using unsigned_less [of b] by simp
  then show "unat (drop_bit 4 b) < 16"
    by (simp add: drop_bit_eq_div unat_div less_mult_imp_div_less)
  have "(b AND 0x0f) = take_bit 4 b" by (simp add: take_bit_eq_mask mask_eq_exp_minus_1)
  then show "unat (b AND 0x0f) < 16"
    using take_bit_nat_less_exp [of 4 "unat b"] by (simp add: unsigned_take_bit_eq)
qed

lemma nibbles_join: "push_bit 4 (drop_bit 4 (b :: u8)) OR (b AND 0x0f) = b"
proof -
  have "(b AND 0x0f) = take_bit 4 b" by (simp add: take_bit_eq_mask mask_eq_exp_minus_1)
  then show ?thesis by (auto intro!: bit_word_eqI simp: bit_simps)
qed

lemma decode_pairs_encode:
  "decode_pairs (chunks_exact2 (encode_hex bs)) = Some bs"
  unfolding encode_hex_def chunks_exact2_concat
  by (induction bs) (simp_all add: HEX_nibble nibbles_less nibbles_join)

lemma length_encode_hex [simp]: "length (encode_hex bs) = 2 * length bs"
  by (induction bs) (simp_all add: encode_hex_def)

lemma decode_encode_hex [codec_simps]:
  "length bs = n \<Longrightarrow> decode_hex n (encode_hex bs) = (bs, True)"
proof -
  have "list_all is_ascii (encode_hex bs)"
    by (induction bs) (simp_all add: encode_hex_def HEX_nibble nibbles_less)
  then show "length bs = n \<Longrightarrow> decode_hex n (encode_hex bs) = (bs, True)"
    by (simp add: decode_hex_def decode_pairs_encode)
qed

lemma length_decode_pairs: "decode_pairs ps = Some bs \<Longrightarrow> length bs = length ps"
  by (induction ps arbitrary: bs rule: decode_pairs.induct) (auto split: option.splits)

lemma length_decode_hex [simp]: "length (fst (decode_hex n s)) = n"
  by (auto simp: decode_hex_def dest!: length_decode_pairs split: option.splits)

text \<open>The decoder as an option, and its two uses as codecs.\<close>

definition hex_option :: "nat \<Rightarrow> string \<Rightarrow> u8 list option" where
  "hex_option n s = (case decode_hex n s of (bs, valid) \<Rightarrow> if valid then Some bs else None)"

lemma hex_option_Some_iff: "hex_option n s = Some bs \<longleftrightarrow> decode_hex n s = (bs, True)"
  by (auto simp: hex_option_def split: prod.splits)

interpretation session_hex: codec
  "\<lambda>bs. Some (encode_hex bs)" "hex_option SESSION_ID_BYTES" "\<lambda>bs. length bs = SESSION_ID_BYTES"
  by unfold_locales (auto simp: hex_option_Some_iff decode_encode_hex)

interpretation token_hex: codec
  "\<lambda>bs. Some (encode_hex bs)" "hex_option TOKEN_BYTES" "\<lambda>bs. length bs = TOKEN_BYTES"
  by unfold_locales (auto simp: hex_option_Some_iff decode_encode_hex)

text \<open>Exactly the hexadecimal texts of the right length are accepted, in either case.\<close>

lemma as_byte_range:
  "(word_of_nat k \<le> as_byte c) = (k \<le> byte_of c)" "(as_byte c \<le> word_of_nat k) = (byte_of c \<le> k)"
  if "k < 256"
  using that byte_of_less [of c]
  by (simp_all add: as_byte_def word_le_nat_alt unat_of_nat)

lemma decode_nibble_Some: "(decode_nibble (as_byte c) \<noteq> None) = is_ascii_hexdigit c"
  using as_byte_range [of 48 c] as_byte_range [of 57 c] as_byte_range [of 97 c]
    as_byte_range [of 102 c] as_byte_range [of 65 c] as_byte_range [of 70 c]
  by (auto simp: decode_nibble_def is_ascii_hexdigit_def is_ascii_digit_def)

lemma decode_pairs_Some:
  "even (length s) \<Longrightarrow>
   (decode_pairs (chunks_exact2 s) \<noteq> None) = list_all is_ascii_hexdigit s"
proof (induction s rule: chunks_exact2.induct)
  case (1 a b xs)
  then show ?case
    using decode_nibble_Some [of a] decode_nibble_Some [of b]
    by (auto split: option.splits)
qed simp_all

lemma decode_hex_valid:
  "snd (decode_hex n s) \<longleftrightarrow> length s = 2 * n \<and> list_all is_ascii_hexdigit s"
proof -
  have "list_all is_ascii_hexdigit s \<Longrightarrow> list_all is_ascii s"
    by (auto simp: list_all_iff is_ascii_def is_ascii_hexdigit_def is_ascii_digit_def)
  then show ?thesis
    using decode_pairs_Some [of s]
    by (auto simp: decode_hex_def split: option.splits)
qed

section \<open>Claims\<close>

lemma authorize_iff:
  assumes "ct_eq_spec ct" and "length (gr_token g) = TOKEN_BYTES"
  shows "MediaSessionGrant_authorize ct g presented now \<longleftrightarrow>
    hex_option TOKEN_BYTES presented = Some (gr_token g) \<and> now < gr_expires_at g \<and> \<not> gr_revoked g"
proof -
  obtain bs valid where d: "decode_hex TOKEN_BYTES presented = (bs, valid)" by force
  then have "length bs = TOKEN_BYTES" using length_decode_hex [of TOKEN_BYTES presented] by simp
  then have "ct (gr_token g) bs \<longleftrightarrow> gr_token g = bs" using assms by (intro ct_eq_specD) simp_all
  with d show ?thesis by (auto simp: MediaSessionGrant_authorize_def hex_option_def)
qed

lemma lookup_Ok_iff:
  assumes "ct_eq_spec ct" and "\<And>x. mutex_data (ms_active s) = Some x \<Longrightarrow> length (as_session_id x) = SESSION_ID_BYTES"
  shows "claim_lookup ct sid s = Ok a \<longleftrightarrow> \<not> poisoned (ms_active s) \<and>
    (\<exists>x. mutex_data (ms_active s) = Some x \<and> as_grant x = a \<and>
       hex_option SESSION_ID_BYTES sid = Some (as_session_id x))"
proof (cases "ms_active s")
  case (Mutex p m)
  obtain bs valid where d: "decode_hex SESSION_ID_BYTES sid = (bs, valid)" by force
  then have len: "length bs = SESSION_ID_BYTES"
    using length_decode_hex [of SESSION_ID_BYTES sid] by simp
  show ?thesis
  proof (cases m)
    case None
    with Mutex show ?thesis by (cases p) (simp_all add: claim_lookup_def)
  next
    case (Some x)
    then have "ct (as_session_id x) bs \<longleftrightarrow> as_session_id x = bs"
      using assms Mutex len by (intro ct_eq_specD) simp_all
    with Some Mutex d show ?thesis
      by (cases p) (auto simp: claim_lookup_def hex_option_def)
  qed
qed

lemma decode_pairs_lower:
  "decode_pairs (map (\<lambda>(a, b). (to_ascii_lowercase a, to_ascii_lowercase b)) ps) = decode_pairs ps"
proof -
  have nib: "decode_nibble (as_byte (to_ascii_lowercase c)) = decode_nibble (as_byte c)" for c
  proof (cases "65 \<le> byte_of c \<and> byte_of c \<le> 90")
    case True
    then have "byte_of c \<in> set [65..<91]" unfolding set_upt atLeastLessThan_iff by linarith
    then show ?thesis
      by (simp add: upt_rec to_ascii_lowercase_def as_byte_def)
        (elim disjE; simp add: decode_nibble_def word_le_nat_alt)
  next
    case False
    then have "to_ascii_lowercase c = c" by (auto simp: to_ascii_lowercase_def)
    then show ?thesis by simp
  qed
  then show ?thesis by (induction ps rule: decode_pairs.induct) (simp_all add: nib split: option.splits)
qed

section \<open>Interleaved use of the registry\<close>

text \<open>
  The system with its live leases and the claims in flight: a claim first looks the session up
  under the lock, then checks the credential, and only then exchanges the claim flag; each of
  these is a step of its own, so that other operations come in between. Issuing and revoking
  hold the lock throughout.
\<close>

record MediaWorld =
  w_sys :: MediaSystem
  w_looked_up :: "addr list"
  w_authorized :: "addr list"
  w_leases :: "addr list"

definition MediaWorld_init :: MediaWorld where
  "MediaWorld_init = \<lparr>w_sys = MediaSystem_new, w_looked_up = [], w_authorized = [], w_leases = []\<rparr>"

inductive media_step :: "u8 ct_eq \<Rightarrow> ('r, 'e) random_source \<Rightarrow> MediaWorld \<Rightarrow> MediaWorld \<Rightarrow> bool"
  for ct :: "u8 ct_eq" and fill :: "('r, 'e) random_source"
where
  issue: "MediaSessionRegistry_issue fill r lifetime now (w_sys w) = (res, r', s')
    \<Longrightarrow> media_step ct fill w (w\<lparr>w_sys := s'\<rparr>)"
| revoke: "MediaSessionRegistry_revoke ct sid (w_sys w) = (res, s')
    \<Longrightarrow> media_step ct fill w (w\<lparr>w_sys := s'\<rparr>)"
| lookup: "claim_lookup ct sid (w_sys w) = Ok a
    \<Longrightarrow> media_step ct fill w (w\<lparr>w_looked_up := a # w_looked_up w\<rparr>)"
| authorize: "a \<in> set (w_looked_up w)
    \<Longrightarrow> MediaSessionGrant_authorize ct (ms_heap (w_sys w) ! a) token now
    \<Longrightarrow> media_step ct fill w (w\<lparr>w_looked_up := remove1 a (w_looked_up w),
                                w_authorized := a # w_authorized w\<rparr>)"
| exchange: "a \<in> set (w_authorized w)
    \<Longrightarrow> claim_exchange (ms_heap (w_sys w) ! a) = (won, g)
    \<Longrightarrow> media_step ct fill w (w\<lparr>w_sys := update_grant (\<lambda>_. g) a (w_sys w),
           w_authorized := remove1 a (w_authorized w),
           w_leases := (if won then a # w_leases w else w_leases w)\<rparr>)"
| drop: "a \<in> set (w_leases w)
    \<Longrightarrow> media_step ct fill w (w\<lparr>w_sys := MediaSessionLease_drop a (w_sys w),
           w_leases := remove1 a (w_leases w)\<rparr>)"

definition media_inv :: "MediaWorld \<Rightarrow> bool" where
  "media_inv w \<longleftrightarrow>
     (let heap = ms_heap (w_sys w); active = mutex_data (ms_active (w_sys w)) in
      distinct (w_leases w) \<and>
      (\<forall>a < length heap. gr_claimed (heap ! a) = (a \<in> set (w_leases w)) \<and>
         length (gr_token (heap ! a)) = TOKEN_BYTES) \<and>
      (\<forall>a \<in> set (w_looked_up w) \<union> set (w_authorized w) \<union> set (w_leases w). a < length heap) \<and>
      (\<forall>a < length heap. \<not> gr_revoked (heap ! a) \<longrightarrow> (\<exists>x. active = Some x \<and> as_grant x = a)) \<and>
      (\<forall>x. active = Some x \<longrightarrow> as_grant x < length heap \<and> length (as_session_id x) = SESSION_ID_BYTES))"

lemma issue_cases:
  assumes "fills_buffer fill" and "MediaSessionRegistry_issue fill r lifetime now s = (res, r', s')"
  obtains (failed) e where "res = Err e" "s' = s"
  | (issued) entropy where
      "\<not> poisoned (ms_active s)" "from_secs 1 \<le> lifetime" "lifetime \<le> MAX_LIFETIME"
      "fill r ENTROPY_BYTES = (Ok entropy, r')" "length entropy = ENTROPY_BYTES"
      "res = Ok \<lparr>en_session_id = encode_hex (take SESSION_ID_BYTES entropy),
                 en_token = encode_hex (drop SESSION_ID_BYTES entropy),
                 en_lifetime_seconds = as_secs lifetime\<rparr>"
      "s' = (let s1 = s\<lparr>ms_heap := ms_heap s @ [\<lparr>gr_token = drop SESSION_ID_BYTES entropy,
                    gr_expires_at = now + lifetime, gr_revoked = False, gr_claimed = False\<rparr>],
                ms_active := Mutex False (Some \<lparr>as_session_id = take SESSION_ID_BYTES entropy,
                    as_grant = length (ms_heap s)\<rparr>)\<rparr>
             in case mutex_data (ms_active s) of None \<Rightarrow> s1
                | Some p \<Rightarrow> update_grant MediaSessionGrant_revoke (as_grant p) s1)"
proof (cases "lifetime < from_secs 1 \<or> MAX_LIFETIME < lifetime")
  case True
  then show ?thesis
    using assms failed by (auto simp: MediaSessionRegistry_issue_def MediaSessionGrant_issue_def)
next
  case False
  obtain o' r1 where f: "fill r ENTROPY_BYTES = (o', r1)" by force
  show ?thesis
  proof (cases "\<exists>entropy. o' = Ok entropy \<and> \<not> poisoned (ms_active s)")
    case True
    then obtain entropy where o': "o' = Ok entropy" "\<not> poisoned (ms_active s)" by blast
    then obtain m where m: "ms_active s = Mutex False m" by (cases "ms_active s") auto
    have len: "length entropy = ENTROPY_BYTES" using assms(1) f o' by (auto simp: fills_buffer_def)
    then have "decode_hex SESSION_ID_BYTES (encode_hex (take SESSION_ID_BYTES entropy)) =
        (take SESSION_ID_BYTES entropy, True)"
      by (intro decode_encode_hex) (simp add: ENTROPY_BYTES_def)
    then show ?thesis
      using assms(2) False f o' m len
      by (intro issued [of entropy])
        (auto simp: MediaSessionRegistry_issue_def MediaSessionGrant_issue_def Let_def split: option.splits)
  next
    case none: False
    then show ?thesis
      using assms(2) False f failed
      by (cases o'; cases "ms_active s")
        (auto simp: MediaSessionRegistry_issue_def MediaSessionGrant_issue_def Let_def
          split: prod.splits)
  qed
qed

lemma update_grant_simps [simp]:
  "ms_heap (update_grant f a s) = (ms_heap s)[a := f (ms_heap s ! a)]"
  "ms_active (update_grant f a s) = ms_active s"
  by (simp_all add: update_grant_def)

lemma media_inv_issue:
  assumes "media_inv w" and "fills_buffer fill"
    and "MediaSessionRegistry_issue fill r lifetime now (w_sys w) = (res, r', s')"
  shows "media_inv (w\<lparr>w_sys := s'\<rparr>)"
  using assms(2,3)
proof (cases rule: issue_cases)
  case (failed e)
  then show ?thesis using assms(1) by simp
next
  case (issued entropy)
  have len: "length (drop SESSION_ID_BYTES entropy) = TOKEN_BYTES"
    "length (take SESSION_ID_BYTES entropy) = SESSION_ID_BYTES"
    using issued by (simp_all add: ENTROPY_BYTES_def)
  show ?thesis
  proof (cases "mutex_data (ms_active (w_sys w))")
    case None
    then show ?thesis
      using assms(1) len unfolding media_inv_def Let_def issued(7)
      by (auto simp: nth_append less_Suc_eq)
  next
    case (Some p)
    then show ?thesis
      using assms(1) len unfolding media_inv_def Let_def issued(7)
      by (auto simp: nth_append less_Suc_eq nth_list_update MediaSessionGrant_revoke_def)
  qed
qed

lemma media_inv_revoke:
  assumes "media_inv w" and "MediaSessionRegistry_revoke ct sid (w_sys w) = (res, s')"
  shows "media_inv (w\<lparr>w_sys := s'\<rparr>)"
proof (cases "s' = w_sys w")
  case True
  then show ?thesis using assms by simp
next
  case False
  obtain p m where m: "ms_active (w_sys w) = Mutex p m" by (cases "ms_active (w_sys w)") auto
  obtain bs valid where d: "decode_hex SESSION_ID_BYTES sid = (bs, valid)" by force
  from False obtain x where x: "m = Some x" "\<not> p"
    and s': "s' = update_grant MediaSessionGrant_revoke (as_grant x)
               ((w_sys w)\<lparr>ms_active := Mutex p None\<rparr>)"
    using assms(2) m d
    by (cases p) (auto simp: MediaSessionRegistry_revoke_def split: option.splits if_splits)
  show ?thesis
    using assms(1) m x unfolding media_inv_def Let_def s'
    by (auto simp: nth_list_update MediaSessionGrant_revoke_def)
qed

lemma media_inv_exchange:
  assumes "media_inv w" and "a \<in> set (w_authorized w)"
    and "claim_exchange (ms_heap (w_sys w) ! a) = (won, g)"
  shows "media_inv (w\<lparr>w_sys := update_grant (\<lambda>_. g) a (w_sys w),
           w_authorized := remove1 a (w_authorized w),
           w_leases := (if won then a # w_leases w else w_leases w)\<rparr>)"
proof (cases "gr_claimed (ms_heap (w_sys w) ! a)")
  case True
  then have "\<not> won" "g = ms_heap (w_sys w) ! a" using assms(3) by (auto simp: claim_exchange_def)
  then show ?thesis using assms(1) unfolding media_inv_def Let_def
    by (auto dest: notin_set_remove1 simp del: remove1.simps)
next
  case False
  then have g: "won" "g = (ms_heap (w_sys w) ! a)\<lparr>gr_claimed := True\<rparr>"
    using assms(3) by (auto simp: claim_exchange_def)
  have "a < length (ms_heap (w_sys w))" using assms unfolding media_inv_def Let_def by auto
  then show ?thesis using assms(1) False g unfolding media_inv_def Let_def
    by (auto simp: nth_list_update dest: notin_set_remove1)
qed

lemma media_inv_drop:
  assumes "media_inv w" and "a \<in> set (w_leases w)"
  shows "media_inv (w\<lparr>w_sys := MediaSessionLease_drop a (w_sys w),
           w_leases := remove1 a (w_leases w)\<rparr>)"
  using assms unfolding media_inv_def Let_def MediaSessionLease_drop_def
  by (auto simp: nth_list_update set_remove1_eq distinct_remove1)

lemma media_inv_step:
  assumes "ct_eq_spec ct" and "fills_buffer fill" and "media_step ct fill w w'" and "media_inv w"
  shows "media_inv w'"
  using assms(3,4)
proof (cases rule: media_step.cases)
  case (issue r lifetime now res r' s')
  with assms show ?thesis by (simp add: media_inv_issue)
next
  case (revoke sid res s')
  with assms show ?thesis by (simp add: media_inv_revoke)
next
  case (lookup sid a)
  have "\<And>x. mutex_data (ms_active (w_sys w)) = Some x \<Longrightarrow> length (as_session_id x) = SESSION_ID_BYTES"
    using assms(4) by (auto simp: media_inv_def Let_def)
  with lookup assms(1) obtain x where "mutex_data (ms_active (w_sys w)) = Some x" "as_grant x = a"
    using lookup_Ok_iff by blast
  with lookup assms(4) show ?thesis by (auto simp: media_inv_def Let_def)
next
  case (authorize a token now)
  with assms(4) show ?thesis
    by (auto simp: media_inv_def Let_def dest!: set_remove1_subset [THEN subsetD])
next
  case (exchange a won g)
  with assms show ?thesis by (simp add: media_inv_exchange)
next
  case (drop a)
  with assms show ?thesis by (simp add: media_inv_drop)
qed

lemma media_inv_init: "media_inv MediaWorld_init"
  by (simp add: media_inv_def MediaWorld_init_def MediaSystem_new_def)

lemma media_inv_reachable:
  assumes "(media_step ct fill)\<^sup>*\<^sup>* MediaWorld_init w" and "ct_eq_spec ct" and "fills_buffer fill"
  shows "media_inv w"
  using assms(1)
  by (induction rule: rtranclp_induct) (auto simp: media_inv_init intro: media_inv_step assms)

text \<open>
  C1: Media access is exclusive under every interleaving of issuing, revoking, dropping leases
  and of the separate lookup, credential check and flag exchange of concurrent claims: no grant
  ever has two live leases, at most one live lease in the whole daemon is active, and it belongs
  to the session the registry currently holds; every superseded or revoked session's lease reads
  inactive.
\<close>

theorem media_lease_exclusive:
  assumes "(media_step ct fill)\<^sup>*\<^sup>* MediaWorld_init w" and "ct_eq_spec ct" and "fills_buffer fill"
  shows "distinct (w_leases w) \<and>
    (\<forall>a \<in> set (w_leases w). MediaSessionLease_is_active (w_sys w) a \<longrightarrow>
       (\<exists>x. mutex_data (ms_active (w_sys w)) = Some x \<and> as_grant x = a)) \<and>
    length (filter (MediaSessionLease_is_active (w_sys w)) (w_leases w)) \<le> 1"
proof -
  have inv: "media_inv w" using assms media_inv_reachable by blast
  then have d: "distinct (w_leases w)" by (simp add: media_inv_def Let_def)
  have act: "\<exists>x. mutex_data (ms_active (w_sys w)) = Some x \<and> as_grant x = a"
    if "a \<in> set (w_leases w)" "MediaSessionLease_is_active (w_sys w) a" for a
    using inv that
    by (simp add: media_inv_def Let_def MediaSessionLease_is_active_def
        MediaSessionGrant_lease_is_active_def)
  let ?L = "filter (MediaSessionLease_is_active (w_sys w)) (w_leases w)"
  have "a = b" if "a \<in> set ?L" "b \<in> set ?L" for a b
    using act [of a] act [of b] that by auto
  then have "card (set ?L) \<le> 1" by (simp add: card_le_Suc0_iff_eq)
  moreover have "length ?L = card (set ?L)"
    using distinct_card [OF distinct_filter [OF d], symmetric] .
  ultimately show ?thesis using d act by simp
qed

section \<open>The life of one session\<close>

text \<open>The registry holds session \<open>x\<close>, whose grant is \<open>g\<close>.\<close>

definition session_at :: "MediaSystem \<Rightarrow> ActiveSession \<Rightarrow> MediaSessionGrant \<Rightarrow> bool" where
  "session_at s x g \<longleftrightarrow> ms_active s = Mutex False (Some x) \<and> as_grant x < length (ms_heap s) \<and>
     ms_heap s ! as_grant x = g \<and> length (as_session_id x) = SESSION_ID_BYTES \<and>
     length (gr_token g) = TOKEN_BYTES"

lemma update_grant_same [simp]: "update_grant (\<lambda>_. ms_heap s ! a) a s = s"
  by (cases s) (simp add: update_grant_def)

lemma session_lookup:
  assumes "ct_eq_spec ct" and "session_at s x g"
  shows "claim_lookup ct (encode_hex (as_session_id x)) s = Ok (as_grant x)"
  using assms by (subst lookup_Ok_iff) (auto simp: session_at_def hex_option_Some_iff decode_encode_hex)

lemma session_authorize:
  assumes "ct_eq_spec ct" and "session_at s x g"
  shows "MediaSessionGrant_authorize ct (ms_heap s ! as_grant x) (encode_hex (gr_token g)) t \<longleftrightarrow>
    t < gr_expires_at g \<and> \<not> gr_revoked g"
  using assms by (subst authorize_iff) (auto simp: session_at_def hex_option_Some_iff decode_encode_hex)

lemma session_claim:
  assumes "ct_eq_spec ct" and "session_at s x g"
  shows "MediaSessionRegistry_claim ct (encode_hex (as_session_id x)) (encode_hex (gr_token g)) t s =
    (if t < gr_expires_at g \<and> \<not> gr_revoked g \<and> \<not> gr_claimed g
     then (Ok (as_grant x), update_grant (\<lambda>g. g\<lparr>gr_claimed := True\<rparr>) (as_grant x) s)
     else (Err Unauthorized, s))"
  using session_lookup [OF assms] session_authorize [OF assms, of t] assms(2)
  by (cases s) (auto simp: MediaSessionRegistry_claim_def MediaSessionGrant_claim_def
      claim_exchange_def session_at_def update_grant_def)

lemma session_at_update:
  "session_at s x g \<Longrightarrow> gr_token (f g) = gr_token g \<Longrightarrow> session_at (update_grant f (as_grant x) s) x (f g)"
  by (simp add: session_at_def)

lemma issue_session:
  assumes "fills_buffer fill" and "MediaSessionRegistry_issue fill r lifetime now s = (Ok en, r', s')"
    and "\<And>x. mutex_data (ms_active s) = Some x \<Longrightarrow> as_grant x < length (ms_heap s)"
  obtains sid tok where "en_session_id en = encode_hex sid" "en_token en = encode_hex tok"
    "session_at s' \<lparr>as_session_id = sid, as_grant = length (ms_heap s)\<rparr>
       \<lparr>gr_token = tok, gr_expires_at = now + lifetime, gr_revoked = False, gr_claimed = False\<rparr>"
  using assms(1,2)
proof (cases rule: issue_cases)
  case (issued entropy)
  then show ?thesis
    using assms(3) that [of "take SESSION_ID_BYTES entropy" "drop SESSION_ID_BYTES entropy"]
    by (auto simp: session_at_def Let_def ENTROPY_BYTES_def nth_list_update nth_append
        split: option.splits)
qed simp

text \<open>
  The enrollment returned by \<open>issue\<close> works exactly as promised: until the lifetime has
  passed its identifier and token claim the new grant; a second claim while the lease lives is
  refused; after the lease is dropped the same credentials claim again; at or after expiry they
  never do; revoking the session returns true, makes the living lease inactive and refuses every
  later claim.
\<close>

theorem media_session_life:
  assumes "ct_eq_spec ct" and "fills_buffer fill"
    and "\<forall>x. mutex_data (ms_active s) = Some x \<longrightarrow> as_grant x < length (ms_heap s)"
    and "MediaSessionRegistry_issue fill r lifetime now s = (Ok en, r', s')"
  defines "claim \<equiv> \<lambda>t. MediaSessionRegistry_claim ct (en_session_id en) (en_token en) t"
  shows "\<exists>a s1. (\<forall>t. now + lifetime \<le> t \<longrightarrow> claim t s' = (Err Unauthorized, s')) \<and>
    (\<forall>t < now + lifetime. claim t s' = (Ok a, s1) \<and>
       fst (claim t (MediaSessionLease_drop a s1)) = Ok a) \<and>
    (\<forall>t. claim t s1 = (Err Unauthorized, s1)) \<and> MediaSessionLease_is_active s1 a \<and>
    (\<exists>s2. MediaSessionRegistry_revoke ct (en_session_id en) s1 = (Ok True, s2) \<and>
       \<not> MediaSessionLease_is_active s2 a \<and> (\<forall>t. claim t s2 = (Err Unauthorized, s2)))"
proof -
  obtain sid tok where en: "en_session_id en = encode_hex sid" "en_token en = encode_hex tok"
    and at: "session_at s' \<lparr>as_session_id = sid, as_grant = length (ms_heap s)\<rparr>
       \<lparr>gr_token = tok, gr_expires_at = now + lifetime, gr_revoked = False, gr_claimed = False\<rparr>"
    using issue_session [OF assms(2,4)] assms(3) by metis
  let ?a = "length (ms_heap s)"
  let ?x = "\<lparr>as_session_id = sid, as_grant = ?a\<rparr>"
  let ?s1 = "update_grant (\<lambda>g. g\<lparr>gr_claimed := True\<rparr>) ?a s'"
  let ?s2 = "update_grant MediaSessionGrant_revoke ?a (?s1\<lparr>ms_active := Mutex False None\<rparr>)"
  have at1: "session_at ?s1 ?x \<lparr>gr_token = tok, gr_expires_at = now + lifetime, gr_revoked = False,
      gr_claimed = True\<rparr>"
    using session_at_update [OF at, of "\<lambda>g. g\<lparr>gr_claimed := True\<rparr>"] by simp
  have at2: "session_at (MediaSessionLease_drop ?a ?s1) ?x
      \<lparr>gr_token = tok, gr_expires_at = now + lifetime, gr_revoked = False, gr_claimed = False\<rparr>"
    using session_at_update [OF at1, of "\<lambda>g. g\<lparr>gr_claimed := False\<rparr>"]
    by (simp add: MediaSessionLease_drop_def)
  have rev: "MediaSessionRegistry_revoke ct (encode_hex sid) ?s1 = (Ok True, ?s2)"
    using at1 ct_eq_specD [OF assms(1), of sid sid]
    by (simp add: MediaSessionRegistry_revoke_def session_at_def decode_encode_hex)
  have gone: "claim t ?s2 = (Err Unauthorized, ?s2)" for t
    by (simp add: claim_def MediaSessionRegistry_claim_def claim_lookup_def)
  have inactive: "\<not> MediaSessionLease_is_active ?s2 ?a"
    using at1 by (simp add: MediaSessionLease_is_active_def MediaSessionGrant_lease_is_active_def
        MediaSessionGrant_revoke_def session_at_def)
  have active: "MediaSessionLease_is_active ?s1 ?a"
    using at1 by (simp add: MediaSessionLease_is_active_def MediaSessionGrant_lease_is_active_def
        session_at_def)
  show ?thesis
    using session_claim [OF assms(1) at] session_claim [OF assms(1) at1]
      session_claim [OF assms(1) at2] rev gone inactive active
    by (intro exI [of _ ?a] exI [of _ ?s1]) (auto simp: claim_def en)
qed

text \<open>A source of zero bytes, for the concrete runs.\<close>

definition zero_fill :: "(unit, unit) random_source" where
  "zero_fill r n = (Ok (replicate n 0), r)"

lemma zero_fill_ok: "fills_buffer zero_fill"
  by (auto simp: fills_buffer_def zero_fill_def)

lemma eq_ct_ok: "ct_eq_spec (\<lambda>a b. a = b)"
  by (simp add: ct_eq_spec_def)

lemma zero_issue:
  obtains en s' where "MediaSessionRegistry_issue zero_fill () (from_secs 60) 0 MediaSystem_new =
    (Ok en, (), s')"
  by (cases "decode_hex SESSION_ID_BYTES (encode_hex (replicate (min ENTROPY_BYTES SESSION_ID_BYTES) 0))")
    (simp add: MediaSessionRegistry_issue_def MediaSessionGrant_issue_def zero_fill_def
      from_secs_def MAX_LIFETIME_def MediaSystem_new_def Let_def min.commute)

theorem media_session_life_witness:
  "\<exists>en s' a s1. MediaSessionRegistry_issue zero_fill () (from_secs 60) 0 MediaSystem_new = (Ok en, (), s') \<and>
     MediaSessionRegistry_claim (\<lambda>a b. a = b) (en_session_id en) (en_token en) 5 s' = (Ok a, s1)"
proof -
  obtain en s' where i: "MediaSessionRegistry_issue zero_fill () (from_secs 60) 0 MediaSystem_new =
    (Ok en, (), s')" by (rule zero_issue)
  have "\<forall>x. mutex_data (ms_active MediaSystem_new) = Some x \<longrightarrow> as_grant x < length (ms_heap MediaSystem_new)"
    by (simp add: MediaSystem_new_def)
  from media_session_life [OF eq_ct_ok zero_fill_ok this i] obtain a s1 where
    "\<forall>t < 0 + from_secs 60. MediaSessionRegistry_claim (\<lambda>a b. a = b) (en_session_id en) (en_token en) t s' = (Ok a, s1)"
    by blast
  moreover have "5 < 0 + from_secs 60" by (simp add: from_secs_def)
  ultimately show ?thesis using i by blast
qed

theorem media_lease_exclusive_witness:
  "\<exists>w. (media_step (\<lambda>a b. a = b) zero_fill)\<^sup>*\<^sup>* MediaWorld_init w \<and> w_leases w \<noteq> [] \<and>
     length (filter (MediaSessionLease_is_active (w_sys w)) (w_leases w)) \<le> 1"
proof -
  let ?ct = "\<lambda>a b :: u8 list. a = b"
  obtain en s' where i: "MediaSessionRegistry_issue zero_fill () (from_secs 60) 0 MediaSystem_new =
    (Ok en, (), s')" by (rule zero_issue)
  obtain sid tok where at: "session_at s' \<lparr>as_session_id = sid, as_grant = 0\<rparr>
       \<lparr>gr_token = tok, gr_expires_at = from_secs 60, gr_revoked = False, gr_claimed = False\<rparr>"
    by (rule issue_session [OF zero_fill_ok i]) (simp_all add: MediaSystem_new_def)
  let ?w = "\<lambda>us as. \<lparr>w_sys = s', w_looked_up = us, w_authorized = as, w_leases = []\<rparr>"
  have s1: "media_step ?ct zero_fill MediaWorld_init (?w [] [])"
    using media_step.issue [of zero_fill "()" "from_secs 60" 0 MediaWorld_init] i
    by (simp add: MediaWorld_init_def)
  have s2: "media_step ?ct zero_fill (?w [] []) (?w [0] [])"
    using media_step.lookup [of ?ct "encode_hex sid" "?w [] []" 0 zero_fill]
      session_lookup [OF eq_ct_ok at] by simp
  have s3: "media_step ?ct zero_fill (?w [0] []) (?w [] [0])"
    using media_step.authorize [of 0 "?w [0] []" ?ct "encode_hex tok" 0 zero_fill]
      session_authorize [OF eq_ct_ok at, of 0] by (simp add: from_secs_def)
  obtain g where ex: "claim_exchange (ms_heap s' ! 0) = (True, g)"
    using at by (auto simp: claim_exchange_def session_at_def)
  have s4: "media_step ?ct zero_fill (?w [] [0])
      \<lparr>w_sys = update_grant (\<lambda>_. g) 0 s', w_looked_up = [], w_authorized = [], w_leases = [0]\<rparr>"
    using media_step.exchange [of 0 "?w [] [0]" True g ?ct zero_fill] ex by simp
  let ?w4 = "\<lparr>w_sys = update_grant (\<lambda>_. g) 0 s', w_looked_up = [], w_authorized = [], w_leases = [0]\<rparr>"
  have run: "(media_step ?ct zero_fill)\<^sup>*\<^sup>* MediaWorld_init ?w4"
    using s1 s2 s3 s4 by (meson converse_rtranclp_into_rtranclp rtranclp.rtrancl_refl)
  from media_lease_exclusive [OF run eq_ct_ok zero_fill_ok] run show ?thesis
    by (intro exI [of _ ?w4]) simp
qed

end
