(* ===== verification/Ancs_Transport.thy ===== *)
theory Ancs_Transport
  imports Rust_Text
begin

text \<open>
  \<open>crates/analogconnectd/src/ancs_transport.rs\<close>: the Apple Notification Center Service protocol
  core. \<open>AncsProtocolConsumer\<close> turns notification events into attribute requests, reassembles
  the fragmented responses and suppresses replays; \<open>AncsSupervisor\<close> wraps it in the connection
  life cycle with an exponential reconnect delay. A UID \<open>[u8; 4]\<close> is a quadruple.
\<close>

type_synonym uid = "u8 \<times> u8 \<times> u8 \<times> u8"

fun uid_bytes :: "uid \<Rightarrow> u8 list" where
  "uid_bytes (a, b, c, d) = [a, b, c, d]"

definition MESSAGES_APP :: string where
  "MESSAGES_APP = ''com.apple.MobileSMS''"

definition ATTRIBUTE_IDS :: "u8 list" where
  "ATTRIBUTE_IDS = [0, 1, 2, 4, 5, 6, 7]"

definition MAX_RESPONSE_BYTES :: nat where
  "MAX_RESPONSE_BYTES = 4096"

datatype NotificationEventKind = Added | Modified | Removed

record NotificationSourceEvent =
  ev_kind :: NotificationEventKind
  ev_uid :: uid

definition NotificationSourceEvent_parse :: "u8 list \<Rightarrow> NotificationSourceEvent option" where
  "NotificationSourceEvent_parse bytes =
     (case bytes of
        [event_id, _, _, _, a, b, c, d] \<Rightarrow>
          map_option (\<lambda>kind. \<lparr>ev_kind = kind, ev_uid = (a, b, c, d)\<rparr>)
            (if event_id = 0 then Some Added
             else if event_id = 1 then Some Modified
             else if event_id = 2 then Some Removed
             else None)
      | _ \<Rightarrow> None)"

record AncsNotificationMetadata =
  md_uid :: uid
  md_title :: string
  md_subtitle :: string
  md_positive_action_label :: string
  md_negative_action_label :: string

datatype NotificationAction = Positive | Negative

definition notification_action_request :: "uid \<Rightarrow> NotificationAction \<Rightarrow> u8 list" where
  "notification_action_request uid action =
     [2] @ uid_bytes uid @ [case action of NotificationAction.Positive \<Rightarrow> 0 | NotificationAction.Negative \<Rightarrow> 1]"

definition attribute_request :: "uid \<Rightarrow> u8 list" where
  "attribute_request uid =
     [0] @ uid_bytes uid @ [0]
     @ concat (map (\<lambda>i. i # to_le_bytes 2 (256 :: u16)) [1, 2])
     @ [4, 5, 6, 7]"

section \<open>Attribute responses\<close>

definition slice_get :: "'a list \<Rightarrow> nat \<Rightarrow> 'a option" where
  "slice_get xs i = (if i < length xs then Some (xs ! i) else None)"

definition slice_range :: "'a list \<Rightarrow> nat \<Rightarrow> nat \<Rightarrow> 'a list option" where
  "slice_range xs start stop =
     (if start \<le> stop \<and> stop \<le> length xs then Some (take (stop - start) (drop start xs)) else None)"

text \<open>
  The loop over the expected identifiers. A \<open>checked_add\<close> that overflowed would return
  \<open>None\<close>, as does the range that ends past the data, so offsets are natural numbers.
\<close>

fun parse_loop :: "u8 list \<Rightarrow> u8 list \<Rightarrow> nat \<Rightarrow> (u8 list list \<times> nat) option" where
  "parse_loop [] data offset = Some ([], offset)"
| "parse_loop (expected # ids) data offset =
     Option.bind (slice_get data offset) (\<lambda>found.
     if found \<noteq> expected then None
     else Option.bind (slice_get data (offset + 1)) (\<lambda>lo.
     Option.bind (slice_get data (offset + 2)) (\<lambda>hi.
     let len = unat (from_le_bytes [lo, hi] :: u16);
         start = offset + 3;
         stop = start + len
     in Option.bind (slice_range data start stop) (\<lambda>attribute.
        map_option (\<lambda>(vs, n). (attribute # vs, n)) (parse_loop ids data stop)))))"

definition parse_attributes :: "u8 list \<Rightarrow> (u8 list list \<times> nat) option" where
  "parse_attributes data =
     (if length data < 5 \<or> data ! 0 \<noteq> 0 then None else parse_loop ATTRIBUTE_IDS data 5)"

section \<open>The protocol consumer\<close>

record AncsProtocolConsumer =
  ap_queued :: "uid list"
  ap_completed :: "uid list"
  ap_pending :: "uid option"
  ap_response :: "u8 list"

definition AncsProtocolConsumer_default :: AncsProtocolConsumer where
  "AncsProtocolConsumer_default = \<lparr>ap_queued = [], ap_completed = [], ap_pending = None, ap_response = []\<rparr>"

definition AncsProtocolConsumer_notification_source ::
  "AncsProtocolConsumer \<Rightarrow> u8 list \<Rightarrow> u8 list option \<times> AncsProtocolConsumer" where
  "AncsProtocolConsumer_notification_source self bytes =
     (case NotificationSourceEvent_parse bytes of
        None \<Rightarrow> (None, self)
      | Some event \<Rightarrow>
          let uid = ev_uid event in
          if ev_kind event = Removed
          then (None, self\<lparr>ap_queued := filter (\<lambda>u. u \<noteq> uid) (ap_queued self)\<rparr>)
          else if uid \<in> set (ap_completed self) \<or> ap_pending self = Some uid \<or> uid \<in> set (ap_queued self)
          then (None, self)
          else if ap_pending self = None
          then (Some (attribute_request uid), self\<lparr>ap_pending := Some uid, ap_response := []\<rparr>)
          else if length (ap_queued self) < 32
          then (None, self\<lparr>ap_queued := ap_queued self @ [uid]\<rparr>)
          else (None, self))"

definition AncsProtocolConsumer_reset_pending :: "AncsProtocolConsumer \<Rightarrow> AncsProtocolConsumer" where
  "AncsProtocolConsumer_reset_pending self = self\<lparr>ap_pending := None, ap_response := []\<rparr>"

definition AncsProtocolConsumer_start_next ::
  "AncsProtocolConsumer \<Rightarrow> u8 list option \<times> AncsProtocolConsumer" where
  "AncsProtocolConsumer_start_next self =
     (let self = AncsProtocolConsumer_reset_pending self in
      case ap_queued self of
        [] \<Rightarrow> (None, self)
      | uid # rest \<Rightarrow> (Some (attribute_request uid), self\<lparr>ap_queued := rest, ap_pending := Some uid\<rparr>))"

text \<open>\<open>push_back\<close>, then \<open>pop_front\<close> while longer than 64.\<close>

definition remember_completed :: "uid \<Rightarrow> uid list \<Rightarrow> uid list" where
  "remember_completed uid uids = evict 64 (uids @ [uid])"

definition metadata_of :: "uid \<Rightarrow> u8 list list \<Rightarrow> AncsNotificationMetadata option" where
  "metadata_of uid vs =
     (if map char_of_byte (vs ! 0) = MESSAGES_APP
      then Some \<lparr>md_uid = uid,
                 md_title = from_utf8_lossy (vs ! 1),
                 md_subtitle = from_utf8_lossy (vs ! 2),
                 md_positive_action_label = from_utf8_lossy (vs ! 5),
                 md_negative_action_label = from_utf8_lossy (vs ! 6)\<rparr>
      else None)"

definition AncsProtocolConsumer_data_source ::
  "AncsProtocolConsumer \<Rightarrow> u8 list \<Rightarrow>
   (AncsNotificationMetadata option \<times> u8 list option) \<times> AncsProtocolConsumer" where
  "AncsProtocolConsumer_data_source self fragment =
     (if ap_pending self = None \<or> MAX_RESPONSE_BYTES < length (ap_response self) + length fragment
      then let self = AncsProtocolConsumer_reset_pending self;
               (request, self) = AncsProtocolConsumer_start_next self
           in ((None, request), self)
      else let self = self\<lparr>ap_response := ap_response self @ fragment\<rparr> in
        case parse_attributes (ap_response self) of
          None \<Rightarrow> ((None, None), self)
        | Some (vs, consumed) \<Rightarrow>
            (case ap_pending self of
               None \<Rightarrow> ((None, None), self)
             | Some uid \<Rightarrow>
                 let self = self\<lparr>ap_pending := None, ap_response := drop consumed (ap_response self),
                                 ap_completed := remember_completed uid (ap_completed self)\<rparr>;
                     metadata = metadata_of uid vs;
                     (request, self) = AncsProtocolConsumer_start_next self
                 in ((metadata, request), self)))"

section \<open>The supervisor\<close>

datatype ReconnectBackoff = ReconnectBackoff (bo_failures: u8)

definition ReconnectBackoff_new :: ReconnectBackoff where
  "ReconnectBackoff_new = ReconnectBackoff 0"

definition ReconnectBackoff_connected :: "ReconnectBackoff \<Rightarrow> ReconnectBackoff" where
  "ReconnectBackoff_connected _ = ReconnectBackoff 0"

definition ReconnectBackoff_failed :: "ReconnectBackoff \<Rightarrow> u64 \<times> ReconnectBackoff" where
  "ReconnectBackoff_failed self =
     (let n = min (saturating_add (bo_failures self) 1) 6
      in (push_bit (unat n) 1, ReconnectBackoff n))"

datatype SupervisorCommand =
    Connect | SubscribeNotificationSource | SubscribeDataSource
  | WriteControlPoint "u8 list"
  | RetryAfterSeconds u64

datatype SupervisorState =
  Disconnected | SubscribingNotificationSource | SubscribingDataSource | Ready

record AncsSupervisor =
  sv_state :: SupervisorState
  sv_protocol :: AncsProtocolConsumer
  sv_backoff :: ReconnectBackoff

definition AncsSupervisor_default :: AncsSupervisor where
  "AncsSupervisor_default =
     \<lparr>sv_state = SupervisorState.Disconnected, sv_protocol = AncsProtocolConsumer_default,
      sv_backoff = ReconnectBackoff_new\<rparr>"

definition AncsSupervisor_start :: "AncsSupervisor \<Rightarrow> SupervisorCommand" where
  "AncsSupervisor_start _ = Connect"

definition AncsSupervisor_connected :: "AncsSupervisor \<Rightarrow> SupervisorCommand \<times> AncsSupervisor" where
  "AncsSupervisor_connected self =
     (SubscribeNotificationSource,
      self\<lparr>sv_protocol := AncsProtocolConsumer_default,
           sv_state := SupervisorState.SubscribingNotificationSource\<rparr>)"

definition AncsSupervisor_notification_source_subscribed ::
  "AncsSupervisor \<Rightarrow> SupervisorCommand \<times> AncsSupervisor" where
  "AncsSupervisor_notification_source_subscribed self =
     (SubscribeDataSource, self\<lparr>sv_state := SupervisorState.SubscribingDataSource\<rparr>)"

definition AncsSupervisor_data_source_subscribed :: "AncsSupervisor \<Rightarrow> AncsSupervisor" where
  "AncsSupervisor_data_source_subscribed self =
     self\<lparr>sv_state := SupervisorState.Ready, sv_backoff := ReconnectBackoff_connected (sv_backoff self)\<rparr>"

definition AncsSupervisor_disconnected :: "AncsSupervisor \<Rightarrow> SupervisorCommand \<times> AncsSupervisor" where
  "AncsSupervisor_disconnected self =
     (let (seconds, backoff) = ReconnectBackoff_failed (sv_backoff self)
      in (RetryAfterSeconds seconds,
          self\<lparr>sv_state := SupervisorState.Disconnected, sv_protocol := AncsProtocolConsumer_default,
               sv_backoff := backoff\<rparr>))"

definition AncsSupervisor_notification_source ::
  "AncsSupervisor \<Rightarrow> u8 list \<Rightarrow> SupervisorCommand option \<times> AncsSupervisor" where
  "AncsSupervisor_notification_source self bytes =
     (if sv_state self = SupervisorState.Ready
      then let (request, protocol) = AncsProtocolConsumer_notification_source (sv_protocol self) bytes
           in (map_option WriteControlPoint request, self\<lparr>sv_protocol := protocol\<rparr>)
      else (None, self))"

definition AncsSupervisor_data_source ::
  "AncsSupervisor \<Rightarrow> u8 list \<Rightarrow>
   (AncsNotificationMetadata option \<times> SupervisorCommand option) \<times> AncsSupervisor" where
  "AncsSupervisor_data_source self bytes =
     (if sv_state self \<noteq> SupervisorState.Ready then ((None, None), self)
      else let ((metadata, request), protocol) =
                 AncsProtocolConsumer_data_source (sv_protocol self) bytes
           in ((metadata, map_option WriteControlPoint request), self\<lparr>sv_protocol := protocol\<rparr>))"

section \<open>Responses and their prefixes\<close>

text \<open>The response a phone sends: command, UID, then each attribute with its 16-bit length.\<close>

definition attribute_bytes :: "u8 \<times> u8 list \<Rightarrow> u8 list" where
  "attribute_bytes iv = fst iv # to_le_bytes 2 (word_of_nat (length (snd iv)) :: u16) @ snd iv"

definition response_bytes :: "uid \<Rightarrow> u8 list list \<Rightarrow> u8 list" where
  "response_bytes uid vs = [0] @ uid_bytes uid @ concat (map attribute_bytes (zip ATTRIBUTE_IDS vs))"

lemma slice_get_append: "slice_get xs i = Some x \<Longrightarrow> slice_get (xs @ ys) i = Some x"
  by (auto simp: slice_get_def nth_append split: if_splits)

lemma slice_range_append: "slice_range xs i j = Some x \<Longrightarrow> slice_range (xs @ ys) i j = Some x"
  by (auto simp: slice_range_def split: if_splits)

lemma parse_loop_append:
  "parse_loop ids data offset = Some r \<Longrightarrow> parse_loop ids (data @ rest) offset = Some r"
proof (induction ids arbitrary: offset r)
  case Nil
  then show ?case by simp
next
  case (Cons i ids)
  then obtain lo hi stop a r' where "slice_get data offset = Some i"
    "slice_get data (offset + 1) = Some lo" "slice_get data (offset + 2) = Some hi"
    "stop = offset + 3 + unat (from_le_bytes [lo, hi] :: u16)"
    "slice_range data (offset + 3) stop = Some a" "parse_loop ids data stop = Some r'"
    "r = (\<lambda>(vs, n). (a # vs, n)) r'"
    by (auto simp: bind_eq_Some_conv Let_def simp del: from_le_bytes.simps split: if_splits)
  with Cons.IH [of stop r'] show ?case
    by (simp add: slice_get_append slice_range_append Let_def del: from_le_bytes.simps)
qed

lemma parse_loop_consumed:
  "parse_loop ids data offset = Some (vs, n) \<Longrightarrow> offset \<le> length data \<Longrightarrow>
   offset \<le> n \<and> n \<le> length data \<and> length vs = length ids"
proof (induction ids arbitrary: offset vs n)
  case Nil
  then show ?case by simp
next
  case (Cons i ids)
  then obtain lo hi stop a ws where stop: "stop = offset + 3 + unat (from_le_bytes [lo, hi] :: u16)"
    "slice_range data (offset + 3) stop = Some a" "parse_loop ids data stop = Some (ws, n)"
    "vs = a # ws"
    by (auto simp: bind_eq_Some_conv Let_def simp del: from_le_bytes.simps split: if_splits)
  moreover have "stop \<le> length data" using stop(2) by (simp add: slice_range_def split: if_splits)
  ultimately show ?case using Cons.IH [of stop ws n] by auto
qed

lemma parse_attributes_append:
  "parse_attributes data = Some r \<Longrightarrow> parse_attributes (data @ rest) = Some r"
  using parse_loop_append [of ATTRIBUTE_IDS data 5 r rest]
  by (auto simp: parse_attributes_def nth_append split: if_splits)

lemma parse_attributes_consumed:
  "parse_attributes data = Some (vs, n) \<Longrightarrow> 5 \<le> n \<and> n \<le> length data \<and> length vs = 7"
  using parse_loop_consumed [of ATTRIBUTE_IDS data 5 vs n]
  by (auto simp: parse_attributes_def ATTRIBUTE_IDS_def split: if_splits)

lemma le_bytes2_length:
  assumes "length v < 65536"
  shows "\<exists>lo hi. to_le_bytes 2 (word_of_nat (length v) :: u16) = [lo, hi] \<and>
    unat (from_le_bytes [lo, hi] :: u16) = length v"
proof -
  let ?w = "word_of_nat (length v) :: u16"
  obtain lo hi where b: "to_le_bytes 2 ?w = [lo, hi]"
    by (simp add: to_le_bytes_def upt_rec)
  moreover have "from_le_bytes [lo, hi] = ?w"
    using from_to_le_bytes [of 2 ?w] b by simp
  ultimately show ?thesis using assms by (auto simp: unat_of_nat)
qed

lemma parse_loop_response:
  assumes "length vs = length ids" and "\<forall>v \<in> set vs. length v < 65536"
  shows "parse_loop ids (pre @ concat (map attribute_bytes (zip ids vs))) (length pre) =
    Some (vs, length pre + length (concat (map attribute_bytes (zip ids vs))))"
  using assms
proof (induction ids vs arbitrary: pre rule: list_induct2')
  case (4 i ids v vs)
  obtain lo hi where b: "to_le_bytes 2 (word_of_nat (length v) :: u16) = [lo, hi]"
    and n: "unat (from_le_bytes [lo, hi] :: u16) = length v"
    using le_bytes2_length [of v] 4 by auto
  let ?rest = "concat (map attribute_bytes (zip ids vs))"
  let ?pre = "pre @ [i, lo, hi] @ v"
  have data: "pre @ concat (map attribute_bytes (zip (i # ids) (v # vs))) = ?pre @ ?rest"
    by (simp add: attribute_bytes_def b)
  have gets: "slice_get (?pre @ ?rest) (length pre) = Some i"
    "slice_get (?pre @ ?rest) (length pre + 1) = Some lo"
    "slice_get (?pre @ ?rest) (length pre + 2) = Some hi"
    by (simp_all add: slice_get_def nth_append)
  have range: "slice_range (?pre @ ?rest) (length pre + 3) (length pre + 3 + length v) = Some v"
    by (simp add: slice_range_def)
  have len: "length ?pre = length pre + 3 + length v" by simp
  have ih: "parse_loop ids (?pre @ ?rest) (length pre + 3 + length v) =
      Some (vs, length ?pre + length ?rest)"
    using 4 (1) [of ?pre] 4 (2,3) len by (simp only: append_assoc) simp
  show ?case
    unfolding data parse_loop.simps gets Option.bind.simps(2) Let_def n range ih
    using data [symmetric] by simp
qed simp_all

lemma parse_attributes_response:
  assumes "length vs = 7" and "\<forall>v \<in> set vs. length v < 65536"
  shows "parse_attributes (response_bytes uid vs) = Some (vs, length (response_bytes uid vs))"
proof -
  obtain a b c d where uid: "uid = (a, b, c, d)" by (cases uid) auto
  have head: "length [0, a, b, c, d] = 5" by simp
  have len: "length ATTRIBUTE_IDS = 7" by (simp add: ATTRIBUTE_IDS_def)
  have "parse_loop ATTRIBUTE_IDS (response_bytes uid vs) 5 = Some (vs, length (response_bytes uid vs))"
    using parse_loop_response [of vs ATTRIBUTE_IDS "[0, a, b, c, d]"] assms len head
    by (simp only: head) (simp add: response_bytes_def uid)
  then show ?thesis by (simp add: parse_attributes_def response_bytes_def uid)
qed

text \<open>No proper prefix of a response is taken for a response.\<close>

lemma parse_attributes_prefix:
  assumes "parse_attributes r = Some (vs, length r)" and "r = p @ q" and "q \<noteq> []"
  shows "parse_attributes p = None"
proof (rule ccontr)
  assume "parse_attributes p \<noteq> None"
  then obtain ws n where p: "parse_attributes p = Some (ws, n)" by auto
  then have "parse_attributes r = Some (ws, n)" using assms(2) parse_attributes_append by blast
  then have "n = length r" using assms(1) by simp
  with parse_attributes_consumed [OF p] assms(2,3) show False by simp
qed

section \<open>The consumer's invariant\<close>

interpretation completed_uids: bounded_memory remember_completed "\<lambda>uids. uids" "\<lambda>_. 64"
  by unfold_locales (simp_all add: remember_completed_def)

definition consumer_inv :: "AncsProtocolConsumer \<Rightarrow> bool" where
  "consumer_inv c \<longleftrightarrow>
     length (ap_queued c) \<le> 32 \<and> length (ap_completed c) \<le> 64 \<and>
     length (ap_response c) \<le> MAX_RESPONSE_BYTES \<and>
     distinct (ap_queued c) \<and> distinct (ap_completed c) \<and>
     set (ap_queued c) \<inter> set (ap_completed c) = {} \<and>
     (case ap_pending c of
        None \<Rightarrow> ap_queued c = [] \<and> ap_response c = []
      | Some uid \<Rightarrow> uid \<notin> set (ap_queued c) \<and> uid \<notin> set (ap_completed c))"

datatype consumer_event = NotificationSource "u8 list" | DataSource "u8 list"

fun consumer_step :: "consumer_event \<Rightarrow> AncsProtocolConsumer \<Rightarrow> AncsProtocolConsumer" where
  "consumer_step (NotificationSource bs) c = snd (AncsProtocolConsumer_notification_source c bs)"
| "consumer_step (DataSource bs) c = snd (AncsProtocolConsumer_data_source c bs)"

fun consumer_request :: "consumer_event \<Rightarrow> AncsProtocolConsumer \<Rightarrow> u8 list option" where
  "consumer_request (NotificationSource bs) c = fst (AncsProtocolConsumer_notification_source c bs)"
| "consumer_request (DataSource bs) c = snd (fst (AncsProtocolConsumer_data_source c bs))"

lemma set_remember_completed:
  "set (remember_completed uid uids) \<subseteq> insert uid (set uids)"
  using set_evict [of 64 "uids @ [uid]"] by (simp add: remember_completed_def)

lemma start_next_inv:
  assumes "length (ap_queued c) \<le> 32" "length (ap_completed c) \<le> 64"
    "distinct (ap_queued c)" "distinct (ap_completed c)"
    "set (ap_queued c) \<inter> set (ap_completed c) = {}"
  shows "consumer_inv (snd (AncsProtocolConsumer_start_next c))"
  using assms
  by (auto simp: AncsProtocolConsumer_start_next_def AncsProtocolConsumer_reset_pending_def
      consumer_inv_def Let_def split: list.splits)

lemma notification_source_inv:
  "consumer_inv c \<Longrightarrow> consumer_inv (snd (AncsProtocolConsumer_notification_source c bs))"
  by (auto simp: AncsProtocolConsumer_notification_source_def consumer_inv_def Let_def
      split: option.splits intro: le_trans [OF length_filter_le])

lemma data_source_inv:
  assumes c: "consumer_inv c"
  shows "consumer_inv (snd (AncsProtocolConsumer_data_source c bs))"
proof (cases "ap_pending c = None \<or> MAX_RESPONSE_BYTES < length (ap_response c) + length bs")
  case True
  have "consumer_inv (snd (AncsProtocolConsumer_start_next (AncsProtocolConsumer_reset_pending c)))"
    using c by (intro start_next_inv)
      (auto simp: consumer_inv_def AncsProtocolConsumer_reset_pending_def)
  with True show ?thesis by (auto simp: AncsProtocolConsumer_data_source_def Let_def split: prod.splits)
next
  case False
  then obtain uid where uid: "ap_pending c = Some uid" by auto
  show ?thesis
  proof (cases "parse_attributes (ap_response c @ bs)")
    case None
    with False c uid show ?thesis
      by (auto simp: AncsProtocolConsumer_data_source_def Let_def consumer_inv_def)
  next
    case (Some r)
    obtain vs n where r: "r = (vs, n)" by force
    let ?c = "c\<lparr>ap_pending := None, ap_response := drop n (ap_response c @ bs),
                ap_completed := remember_completed uid (ap_completed c)\<rparr>"
    have "consumer_inv (snd (AncsProtocolConsumer_start_next ?c))"
    proof (rule start_next_inv)
      show "set (ap_queued ?c) \<inter> set (ap_completed ?c) = {}"
        using c uid set_remember_completed [of uid "ap_completed c"]
        by (simp add: consumer_inv_def) blast
    qed (use c uid in \<open>simp_all add: consumer_inv_def remember_completed_def distinct_evict\<close>)
    with False uid Some r show ?thesis
      by (auto simp: AncsProtocolConsumer_data_source_def Let_def split: prod.splits)
  qed
qed

interpretation ancs_consumer: step_machine consumer_step consumer_inv
proof
  fix c e assume "consumer_inv c"
  then show "consumer_inv (consumer_step e c)"
    by (cases e) (simp_all add: notification_source_inv data_source_inv)
qed

lemma consumer_inv_default: "consumer_inv AncsProtocolConsumer_default"
  by (simp add: consumer_inv_def AncsProtocolConsumer_default_def)

lemma start_next_request:
  "fst (AncsProtocolConsumer_start_next c) = Some req \<Longrightarrow>
   \<exists>uid. req = attribute_request uid \<and> ap_pending (snd (AncsProtocolConsumer_start_next c)) = Some uid \<and>
     ap_response (snd (AncsProtocolConsumer_start_next c)) = [] \<and> uid \<in> set (ap_queued c)"
  by (auto simp: AncsProtocolConsumer_start_next_def AncsProtocolConsumer_reset_pending_def Let_def
      split: list.splits)

lemma request_pending:
  assumes "consumer_request e c = Some req"
  shows "\<exists>uid. req = attribute_request uid \<and> ap_pending (consumer_step e c) = Some uid \<and>
    ap_response (consumer_step e c) = []"
proof (cases e)
  case (NotificationSource bs)
  with assms show ?thesis
    by (auto simp: AncsProtocolConsumer_notification_source_def Let_def
        simp del: split_paired_Ex split: option.splits if_splits)
next
  case (DataSource bs)
  with assms obtain c' where
    "fst (AncsProtocolConsumer_start_next c') = Some req"
    "consumer_step e c = snd (AncsProtocolConsumer_start_next c')"
    by (auto simp: AncsProtocolConsumer_data_source_def Let_def case_prod_unfold
        split: option.splits if_splits)
  with start_next_request [of c' req] show ?thesis by auto
qed

text \<open>
  What happens to the pending request: a fragment completes its response, or the fragment does not
  fit the 4096 bytes any more and the request is given up.
\<close>

fun response_completed :: "consumer_event \<Rightarrow> AncsProtocolConsumer \<Rightarrow> uid list" where
  "response_completed (NotificationSource bs) c = []"
| "response_completed (DataSource bs) c =
     (case ap_pending c of
        None \<Rightarrow> []
      | Some uid \<Rightarrow> if length (ap_response c) + length bs \<le> MAX_RESPONSE_BYTES \<and>
                      parse_attributes (ap_response c @ bs) \<noteq> None then [uid] else [])"

fun request_given_up :: "uid \<Rightarrow> consumer_event \<Rightarrow> AncsProtocolConsumer \<Rightarrow> bool" where
  "request_given_up uid (NotificationSource bs) c \<longleftrightarrow> False"
| "request_given_up uid (DataSource bs) c \<longleftrightarrow>
     ap_pending c = Some uid \<and> MAX_RESPONSE_BYTES < length (ap_response c) + length bs"

text \<open>The completions of a run, in their order, and whether it gives a request up.\<close>

fun completions :: "AncsProtocolConsumer \<Rightarrow> consumer_event list \<Rightarrow> uid list" where
  "completions c [] = []"
| "completions c (e # es) = response_completed e c @ completions (consumer_step e c) es"

fun given_up :: "uid \<Rightarrow> AncsProtocolConsumer \<Rightarrow> consumer_event list \<Rightarrow> bool" where
  "given_up uid c [] \<longleftrightarrow> False"
| "given_up uid c (e # es) \<longleftrightarrow> request_given_up uid e c \<or> given_up uid (consumer_step e c) es"

lemma start_next_completed [simp]:
  "ap_completed (snd (AncsProtocolConsumer_start_next c)) = ap_completed c"
  by (simp add: AncsProtocolConsumer_start_next_def AncsProtocolConsumer_reset_pending_def Let_def split: list.splits)

lemma step_completed:
  "ap_completed (consumer_step e c) = fold remember_completed (response_completed e c) (ap_completed c)"
proof (cases e)
  case (NotificationSource bs)
  then show ?thesis
    by (auto simp: AncsProtocolConsumer_notification_source_def Let_def split: option.splits)
next
  case (DataSource bs)
  then show ?thesis
    by (auto simp: AncsProtocolConsumer_data_source_def Let_def case_prod_unfold
        AncsProtocolConsumer_reset_pending_def split: option.splits)
qed

lemma run_completed:
  "ap_completed (fold consumer_step es c) = fold remember_completed (completions c es) (ap_completed c)"
  by (induction es arbitrary: c) (simp_all add: step_completed)

lemma step_pending:
  assumes "ap_pending c = Some uid"
  shows "request_given_up uid e c \<or> response_completed e c = [uid] \<or>
    response_completed e c = [] \<and> ap_pending (consumer_step e c) = Some uid"
proof (cases e)
  case (NotificationSource bs)
  then show ?thesis using assms
    by (auto simp: AncsProtocolConsumer_notification_source_def Let_def split: option.splits)
next
  case (DataSource bs)
  then show ?thesis using assms
    by (auto simp: AncsProtocolConsumer_data_source_def Let_def split: option.splits)
qed

lemma run_pending:
  "ap_pending c = Some uid \<Longrightarrow>
   given_up uid c es \<or> uid \<in> set (completions c es) \<or> ap_pending (fold consumer_step es c) = Some uid"
proof (induction es arbitrary: c)
  case Nil
  then show ?case by simp
next
  case (Cons e es)
  then show ?case using step_pending [OF Cons.prems, of e] Cons.IH [of "consumer_step e c"] by auto
qed

lemma attribute_request_inject: "attribute_request uid = attribute_request uid' \<Longrightarrow> uid = uid'"
  by (cases uid; cases uid') (simp add: attribute_request_def)

lemma request_fresh:
  assumes "consumer_inv c" and "consumer_request e c = Some (attribute_request uid)"
  shows "uid \<notin> set (ap_completed c) \<and> ap_pending c \<noteq> Some uid"
proof (cases e)
  case (NotificationSource bs)
  then show ?thesis using assms(2)
    by (auto simp: AncsProtocolConsumer_notification_source_def Let_def
        dest: attribute_request_inject split: option.splits if_splits)
next
  case (DataSource bs)
  then obtain c' where "fst (AncsProtocolConsumer_start_next c') = Some (attribute_request uid)"
    "ap_queued c' = ap_queued c"
    using assms(2)
    by (auto simp: AncsProtocolConsumer_data_source_def Let_def case_prod_unfold
        AncsProtocolConsumer_reset_pending_def split: option.splits if_splits)
  then have "uid \<in> set (ap_queued c)"
    using start_next_request [of c' "attribute_request uid"] by (metis attribute_request_inject)
  then show ?thesis using assms(1) by (auto simp: consumer_inv_def)
qed

text \<open>Between two requests for a UID: the first was given up, or completed and then forgotten.\<close>

lemma requested_again:
  assumes "ap_pending c = Some uid" and "consumer_inv c"
    and "consumer_request e (fold consumer_step es c) = Some (attribute_request uid)"
  shows "given_up uid c es \<or> (\<exists>ks ks'. completions c es = ks @ uid # ks' \<and> 64 \<le> length ks')"
proof -
  have "consumer_inv (fold consumer_step es c)" using assms(2) by (rule ancs_consumer.run_inv)
  note fresh = request_fresh [OF this assms(3)]
  then consider "given_up uid c es" | "uid \<in> set (completions c es)"
    using run_pending [OF assms(1), of es] by blast
  then show ?thesis
  proof cases
    case 2
    then obtain ks ks' where ks: "completions c es = ks @ uid # ks'" by (meson split_list)
    have "uid \<in> set (fold remember_completed ks' (remember_completed uid (fold remember_completed ks (ap_completed c))))"
      if "length ks' < 64" using that completed_uids.recent_entry_kept by blast
    then have "64 \<le> length ks'" using fresh by (force simp: run_completed ks)
    with ks show ?thesis by blast
  qed simp
qed

text \<open>
  C12: Whatever bytes the bearer delivers, in whatever order, the protocol consumer keeps its
  bounds (32 queued, 64 remembered as completed, 4096 response bytes), the pending, the queued and
  the remembered UIDs are pairwise distinct, and nothing is queued while it is idle. Every request
  it emits is the attribute request of exactly the UID it then waits for, with an empty response
  buffer. During one connection it asks for a UID again only when the earlier request was given
  up, because a fragment did not fit the 4096 bytes, or when its response was complete and the
  responses of at least 64 further requests have completed since: a notification that is replayed
  while its request is pending or its completion is remembered is never asked for again.
\<close>

theorem ancs_consumer_safe:
  fixes es :: "consumer_event list"
  defines "c \<equiv> fold consumer_step es AncsProtocolConsumer_default"
  shows "consumer_inv c \<and>
    (\<forall>req. consumer_request e c = Some req \<longrightarrow>
       (\<exists>uid. req = attribute_request uid \<and> ap_pending (consumer_step e c) = Some uid \<and>
          ap_response (consumer_step e c) = [] \<and> uid \<notin> set (ap_completed (consumer_step e c)) \<and>
          (\<forall>es1 e1 es2 c1. es = es1 @ e1 # es2 \<and> c1 = fold consumer_step es1 AncsProtocolConsumer_default \<and>
             consumer_request e1 c1 = Some req \<longrightarrow>
             given_up uid (consumer_step e1 c1) es2 \<or>
             (\<exists>ks ks'. completions (consumer_step e1 c1) es2 = ks @ uid # ks' \<and> 64 \<le> length ks'))))"
proof -
  have inv: "consumer_inv (fold consumer_step es AncsProtocolConsumer_default)" for es
    using consumer_inv_default by (rule ancs_consumer.run_inv)
  have again: "given_up uid (consumer_step e1 c1) es2 \<or>
      (\<exists>ks ks'. completions (consumer_step e1 c1) es2 = ks @ uid # ks' \<and> 64 \<le> length ks')"
    if "consumer_request e c = Some (attribute_request uid)" and es: "es = es1 @ e1 # es2"
      "c1 = fold consumer_step es1 AncsProtocolConsumer_default"
      and "consumer_request e1 c1 = Some (attribute_request uid)" for uid es1 e1 es2 c1
  proof (rule requested_again)
    show "ap_pending (consumer_step e1 c1) = Some uid"
      using request_pending [OF that(4)] attribute_request_inject by metis
    show "consumer_inv (consumer_step e1 c1)" using inv [of "es1 @ [e1]"] es(2) by simp
    show "consumer_request e (fold consumer_step es2 (consumer_step e1 c1)) = Some (attribute_request uid)"
      using that(1) by (simp add: c_def es)
  qed
  have after: "consumer_inv (consumer_step e c)" using inv [of "es @ [e]"] by (simp add: c_def)
  show ?thesis
  proof (intro conjI allI impI)
    show "consumer_inv c" using inv by (simp add: c_def)
  next
    fix req assume req: "consumer_request e c = Some req"
    then obtain uid where uid: "req = attribute_request uid" "ap_pending (consumer_step e c) = Some uid"
      "ap_response (consumer_step e c) = []" using request_pending by blast
    moreover have "uid \<notin> set (ap_completed (consumer_step e c))"
      using after uid(2) by (simp add: consumer_inv_def)
    ultimately show "\<exists>uid. req = attribute_request uid \<and> ap_pending (consumer_step e c) = Some uid \<and>
        ap_response (consumer_step e c) = [] \<and> uid \<notin> set (ap_completed (consumer_step e c)) \<and>
        (\<forall>es1 e1 es2 c1. es = es1 @ e1 # es2 \<and> c1 = fold consumer_step es1 AncsProtocolConsumer_default \<and>
           consumer_request e1 c1 = Some req \<longrightarrow>
           given_up uid (consumer_step e1 c1) es2 \<or>
           (\<exists>ks ks'. completions (consumer_step e1 c1) es2 = ks @ uid # ks' \<and> 64 \<le> length ks'))"
      using again req by blast
  qed
qed

text \<open>A response that does not fit: the notification is asked for a second time when it changes.\<close>

definition oversized :: "consumer_event list" where
  "oversized = [NotificationSource [0, 0, 0, 0, 1, 2, 3, 4], DataSource (replicate 4097 0)]"

lemma oversized_run:
  "consumer_request (NotificationSource [0, 0, 0, 0, 1, 2, 3, 4]) AncsProtocolConsumer_default =
     Some (attribute_request (1, 2, 3, 4))"
  "consumer_request (NotificationSource [1, 0, 0, 0, 1, 2, 3, 4]) (fold consumer_step oversized AncsProtocolConsumer_default) =
     Some (attribute_request (1, 2, 3, 4))"
  by (simp_all add: oversized_def AncsProtocolConsumer_notification_source_def NotificationSourceEvent_parse_def
      AncsProtocolConsumer_data_source_def AncsProtocolConsumer_start_next_def MAX_RESPONSE_BYTES_def
      AncsProtocolConsumer_reset_pending_def AncsProtocolConsumer_default_def Let_def)

theorem ancs_consumer_safe_witness:
  "given_up (1, 2, 3, 4)
     (consumer_step (NotificationSource [0, 0, 0, 0, 1, 2, 3, 4]) AncsProtocolConsumer_default) (tl oversized) \<or>
   (\<exists>ks ks'. completions (consumer_step (NotificationSource [0, 0, 0, 0, 1, 2, 3, 4]) AncsProtocolConsumer_default)
      (tl oversized) = ks @ (1, 2, 3, 4) # ks' \<and> 64 \<le> length ks')"
proof -
  let ?e = "NotificationSource [0, 0, 0, 0, 1, 2, 3, 4]"
  have run: "oversized = [] @ ?e # tl oversized" by (simp add: oversized_def)
  obtain uid where uid: "attribute_request (1, 2, 3, 4) = attribute_request uid"
    and again: "\<forall>es1 e1 es2 c1. oversized = es1 @ e1 # es2 \<and> c1 = fold consumer_step es1 AncsProtocolConsumer_default \<and>
       consumer_request e1 c1 = Some (attribute_request (1, 2, 3, 4)) \<longrightarrow>
       given_up uid (consumer_step e1 c1) es2 \<or>
       (\<exists>ks ks'. completions (consumer_step e1 c1) es2 = ks @ uid # ks' \<and> 64 \<le> length ks')"
    using ancs_consumer_safe [of oversized "NotificationSource [1, 0, 0, 0, 1, 2, 3, 4]"] oversized_run(2) by blast
  have "(1, 2, 3, 4) = uid" using attribute_request_inject [OF uid] .
  then show ?thesis
    using again [rule_format, of "[]" ?e "tl oversized" AncsProtocolConsumer_default] run oversized_run(1)
    by (simp only: fold_Nil id_apply simp_thms)
qed

section \<open>Reassembly\<close>

text \<open>Delivering fragments one after another, with everything the consumer returned.\<close>

fun deliver :: "AncsProtocolConsumer \<Rightarrow> u8 list list \<Rightarrow>
    (AncsNotificationMetadata option \<times> u8 list option) list \<times> AncsProtocolConsumer" where
  "deliver c [] = ([], c)"
| "deliver c (f # fs) =
     (let (r, c') = AncsProtocolConsumer_data_source c f;
          (rs, c'') = deliver c' fs
      in (r # rs, c''))"

text \<open>What a complete response does to the consumer.\<close>

definition finish_response :: "AncsProtocolConsumer \<Rightarrow> uid \<Rightarrow> AncsProtocolConsumer" where
  "finish_response c uid =
     c\<lparr>ap_pending := None, ap_response := [], ap_completed := remember_completed uid (ap_completed c)\<rparr>"

lemma data_source_partial:
  assumes "ap_pending c = Some uid" and "length (ap_response c @ f) \<le> MAX_RESPONSE_BYTES"
    and "parse_attributes (ap_response c @ f) = None"
  shows "AncsProtocolConsumer_data_source c f = ((None, None), c\<lparr>ap_response := ap_response c @ f\<rparr>)"
  using assms by (simp add: AncsProtocolConsumer_data_source_def)

lemma data_source_complete:
  assumes "ap_pending c = Some uid" and "length (ap_response c @ f) \<le> MAX_RESPONSE_BYTES"
    and "parse_attributes (ap_response c @ f) = Some (vs, n)" and "n = length (ap_response c @ f)"
  shows "AncsProtocolConsumer_data_source c f =
    (let (request, c') = AncsProtocolConsumer_start_next (finish_response c uid)
     in ((metadata_of uid vs, request), c'))"
  using assms by (simp add: AncsProtocolConsumer_data_source_def finish_response_def)

lemma deliver_response:
  assumes "ap_pending c = Some uid" and "ap_response c @ concat fs @ f = r" and "f \<noteq> []"
    and "length r \<le> MAX_RESPONSE_BYTES" and "parse_attributes r = Some (vs, length r)"
  shows "deliver c (fs @ [f]) =
    (let (request, c') = AncsProtocolConsumer_start_next (finish_response c uid)
     in (replicate (length fs) (None, None) @ [(metadata_of uid vs, request)], c'))"
  using assms
proof (induction fs arbitrary: c)
  case Nil
  obtain request c' where nxt: "AncsProtocolConsumer_start_next (finish_response c uid) = (request, c')"
    by force
  have "AncsProtocolConsumer_data_source c f = ((metadata_of uid vs, request), c')"
    using data_source_complete [of c uid f vs "length r"] Nil nxt by auto
  with nxt show ?case by simp
next
  case (Cons g fs)
  obtain request c' where nxt: "AncsProtocolConsumer_start_next (finish_response c uid) = (request, c')"
    by force
  have "parse_attributes (ap_response c @ g) = None"
    using Cons.prems by (intro parse_attributes_prefix [of r vs _ "concat fs @ f"]) auto
  then have step: "AncsProtocolConsumer_data_source c g =
      ((None, None), c\<lparr>ap_response := ap_response c @ g\<rparr>)"
    using Cons.prems by (intro data_source_partial) auto
  have "finish_response (c\<lparr>ap_response := ap_response c @ g\<rparr>) uid = finish_response c uid"
    by (simp add: finish_response_def)
  then have "deliver (c\<lparr>ap_response := ap_response c @ g\<rparr>) (fs @ [f]) =
      (replicate (length fs) (None, None) @ [(metadata_of uid vs, request)], c')"
    using Cons.IH [of "c\<lparr>ap_response := ap_response c @ g\<rparr>"] Cons.prems nxt by simp
  with step nxt show ?case by simp
qed

text \<open>
  C26: Reassembly does not depend on how the response is cut: for every way of splitting the
  response to the pending request into fragments (the last one not empty), all but the last
  return nothing, and the last returns the metadata decoded from exactly the attribute strings
  that were sent (when the application is Messages; nothing otherwise) together with the request
  for the next queued UID; the UID is then completed.
\<close>

theorem ancs_reassembly:
  assumes "ap_pending c = Some uid" and "ap_response c = []"
    and "length vs = 7" and "\<forall>v \<in> set vs. length v < 65536"
    and "concat fs @ f = response_bytes sent_uid vs" and "f \<noteq> []"
    and "length (response_bytes sent_uid vs) \<le> MAX_RESPONSE_BYTES"
  shows "\<exists>request c'. deliver c (fs @ [f]) =
      (replicate (length fs) (None, None) @ [(metadata_of uid vs, request)], c') \<and>
    uid \<in> set (ap_completed c') \<and>
    (case ap_queued c of
       [] \<Rightarrow> request = None \<and> ap_pending c' = None
     | next # rest \<Rightarrow> request = Some (attribute_request next) \<and> ap_pending c' = Some next \<and>
                      ap_queued c' = rest)"
proof -
  have "uid \<in> set (ap_completed (finish_response c uid))"
    using completed_uids.remember_present by (simp add: finish_response_def)
  moreover have "deliver c (fs @ [f]) =
    (let (request, c') = AncsProtocolConsumer_start_next (finish_response c uid)
     in (replicate (length fs) (None, None) @ [(metadata_of uid vs, request)], c'))"
    using assms parse_attributes_response [OF assms(3,4), of sent_uid]
    by (intro deliver_response [where r = "response_bytes sent_uid vs"]) simp_all
  ultimately show ?thesis
    by (cases "ap_queued c")
      (auto simp: AncsProtocolConsumer_start_next_def AncsProtocolConsumer_reset_pending_def
        finish_response_def)
qed

theorem ancs_reassembly_witness:
  "\<exists>request c'. deliver (AncsProtocolConsumer_default\<lparr>ap_pending := Some (1, 2, 3, 4)\<rparr>)
      ([take 7 (response_bytes (1, 2, 3, 4) (replicate 7 [65]))]
       @ [drop 7 (response_bytes (1, 2, 3, 4) (replicate 7 [65]))]) =
      (replicate 1 (None, None) @ [(metadata_of (1, 2, 3, 4) (replicate 7 [65]), request)], c')"
proof -
  let ?r = "response_bytes (1, 2, 3, 4) (replicate 7 [65])"
  have len: "length ?r = 33"
    by (simp add: response_bytes_def ATTRIBUTE_IDS_def attribute_bytes_def numeral_eq_Suc)
  then have "drop 7 ?r \<noteq> []" by simp
  with len show ?thesis
    using ancs_reassembly [of "AncsProtocolConsumer_default\<lparr>ap_pending := Some (1, 2, 3, 4)\<rparr>"
        "(1, 2, 3, 4)" "replicate 7 [65]" "[take 7 ?r]" "drop 7 ?r" "(1, 2, 3, 4)"]
    by (auto simp: AncsProtocolConsumer_default_def MAX_RESPONSE_BYTES_def)
qed

section \<open>The reconnect delay\<close>

lemma failed_delay:
  assumes "unat (bo_failures b) \<le> 6"
  shows "ReconnectBackoff_failed b =
    (2 ^ min (Suc (unat (bo_failures b))) 6,
     ReconnectBackoff (word_of_nat (min (Suc (unat (bo_failures b))) 6)))"
proof -
  obtain k where k: "bo_failures b = word_of_nat k" "k = unat (bo_failures b)"
    by simp
  then have "k \<in> set [0..<7]" unfolding set_upt atLeastLessThan_iff using assms by linarith
  then show ?thesis
    using k(1)
    by (simp add: upt_rec)
      (elim disjE; simp add: ReconnectBackoff_failed_def saturating_add_def min_def word_le_nat_alt)
qed

text \<open>The supervisor under failed attempts only: each one is a connect that is lost again.\<close>

fun failed_attempts :: "nat \<Rightarrow> AncsSupervisor \<Rightarrow> AncsSupervisor" where
  "failed_attempts 0 s = s"
| "failed_attempts (Suc n) s =
     snd (AncsSupervisor_disconnected (snd (AncsSupervisor_connected (failed_attempts n s))))"

lemma failed_bounded:
  assumes "unat (bo_failures b) \<le> 6"
  shows "unat (bo_failures (snd (ReconnectBackoff_failed b))) = min (Suc (unat (bo_failures b))) 6"
proof -
  have "min (Suc (unat (bo_failures b))) 6 < 256" by linarith
  then show ?thesis
    unfolding failed_delay [OF assms] snd_conv ReconnectBackoff.sel unat_of_nat by simp
qed

lemma failed_attempts_backoff:
  assumes "sv_backoff s = ReconnectBackoff 0"
  shows "unat (bo_failures (sv_backoff (failed_attempts n s))) = min n 6"
proof (induction n)
  case (Suc n)
  then show ?case
    using failed_bounded [of "sv_backoff (failed_attempts n s)"]
    by (simp add: AncsSupervisor_disconnected_def AncsSupervisor_connected_def case_prod_unfold Let_def)
qed (simp add: assms)

datatype supervisor_event =
    Connected | NotificationSubscribed | DataSubscribed | Lost
  | Notified "u8 list" | Delivered "u8 list"

fun supervisor_step :: "supervisor_event \<Rightarrow> AncsSupervisor \<Rightarrow> AncsSupervisor" where
  "supervisor_step Connected s = snd (AncsSupervisor_connected s)"
| "supervisor_step NotificationSubscribed s = snd (AncsSupervisor_notification_source_subscribed s)"
| "supervisor_step DataSubscribed s = AncsSupervisor_data_source_subscribed s"
| "supervisor_step Lost s = snd (AncsSupervisor_disconnected s)"
| "supervisor_step (Notified bs) s = snd (AncsSupervisor_notification_source s bs)"
| "supervisor_step (Delivered bs) s = snd (AncsSupervisor_data_source s bs)"

definition supervisor_inv :: "AncsSupervisor \<Rightarrow> bool" where
  "supervisor_inv s \<longleftrightarrow> consumer_inv (sv_protocol s) \<and> unat (bo_failures (sv_backoff s)) \<le> 6 \<and>
     (sv_state s = SupervisorState.Disconnected \<longrightarrow> sv_protocol s = AncsProtocolConsumer_default)"

lemma supervisor_step_inv: "supervisor_inv s \<Longrightarrow> supervisor_inv (supervisor_step e s)"
proof (cases e)
  case Lost
  assume "supervisor_inv s"
  then show ?thesis
    using failed_bounded [of "sv_backoff s"] Lost
    by (simp add: supervisor_inv_def AncsSupervisor_disconnected_def consumer_inv_default case_prod_unfold Let_def)
next
  case (Notified bs)
  assume "supervisor_inv s"
  then show ?thesis
    using Notified notification_source_inv [of "sv_protocol s" bs]
    by (auto simp: supervisor_inv_def AncsSupervisor_notification_source_def split: prod.splits)
next
  case (Delivered bs)
  assume "supervisor_inv s"
  then show ?thesis
    using Delivered data_source_inv [of "sv_protocol s" bs]
    by (auto simp: supervisor_inv_def AncsSupervisor_data_source_def split: prod.splits)
qed (auto simp: supervisor_inv_def AncsSupervisor_connected_def consumer_inv_default
    AncsSupervisor_notification_source_subscribed_def AncsSupervisor_data_source_subscribed_def
    ReconnectBackoff_connected_def)

interpretation ancs_supervisor: step_machine supervisor_step supervisor_inv
  by unfold_locales (rule supervisor_step_inv)

text \<open>
  The supervisor waits 2, 4, 8, 16, 32, 64, 64, ... seconds after consecutive failures, a
  complete subscription starts the schedule again, the delay is between 2 and 64 seconds in
  every state reachable by any sequence of bearer events, and no Control Point write is ever
  issued outside the \<open>Ready\<close> state.
\<close>

theorem supervisor_backoff:
  "fst (AncsSupervisor_disconnected (snd (AncsSupervisor_connected (failed_attempts n
       (AncsSupervisor_data_source_subscribed s))))) = RetryAfterSeconds (2 ^ min (Suc n) 6) \<and>
   (\<exists>k \<in> {1..6}. fst (AncsSupervisor_disconnected (fold supervisor_step es AncsSupervisor_default)) =
      RetryAfterSeconds (2 ^ k)) \<and>
   (sv_state s \<noteq> SupervisorState.Ready \<longrightarrow>
      fst (AncsSupervisor_notification_source s bs) = None \<and>
      fst (AncsSupervisor_data_source s bs) = (None, None))"
proof -
  let ?s = "failed_attempts n (AncsSupervisor_data_source_subscribed s)"
  have n: "unat (bo_failures (sv_backoff ?s)) = min n 6"
    by (rule failed_attempts_backoff)
      (simp add: AncsSupervisor_data_source_subscribed_def ReconnectBackoff_connected_def)
  have schedule: "fst (AncsSupervisor_disconnected (snd (AncsSupervisor_connected ?s))) =
      RetryAfterSeconds (2 ^ min (Suc n) 6)"
    using failed_delay [of "sv_backoff ?s"] n
    by (simp add: AncsSupervisor_disconnected_def AncsSupervisor_connected_def min_def)
  let ?t = "fold supervisor_step es AncsSupervisor_default"
  have "supervisor_inv AncsSupervisor_default"
    by (simp add: supervisor_inv_def AncsSupervisor_default_def consumer_inv_default ReconnectBackoff_new_def)
  then have "supervisor_inv ?t" by (rule ancs_supervisor.run_inv)
  then have "fst (AncsSupervisor_disconnected ?t) =
      RetryAfterSeconds (2 ^ min (Suc (unat (bo_failures (sv_backoff ?t)))) 6)"
    using failed_delay [of "sv_backoff ?t"]
    by (simp add: supervisor_inv_def AncsSupervisor_disconnected_def)
  moreover have "min (Suc (unat (bo_failures (sv_backoff ?t)))) 6 \<in> {1..6}" by (simp only: atLeastAtMost_iff) linarith
  ultimately have "\<exists>k \<in> {1..6}. fst (AncsSupervisor_disconnected ?t) = RetryAfterSeconds (2 ^ k)"
    by blast
  then show ?thesis
    using schedule
    by (auto simp: AncsSupervisor_notification_source_def AncsSupervisor_data_source_def)
qed

theorem supervisor_backoff_witness:
  "fst (AncsSupervisor_disconnected (snd (AncsSupervisor_connected (failed_attempts 2
       (AncsSupervisor_data_source_subscribed AncsSupervisor_default))))) = RetryAfterSeconds 8 \<and>
   fst (AncsSupervisor_notification_source AncsSupervisor_default []) = None"
  using supervisor_backoff [of 2 AncsSupervisor_default "[]" "[]"]
  by (simp add: AncsSupervisor_default_def)

end
