(* ===== verification/Message_Store.thy ===== *)
theory Message_Store
  imports Rust_Text
begin

text \<open>
  The encrypted message store (\<open>vendor/imsg-store/src/query.rs\<close>, \<open>outbox.rs\<close>,
  \<open>cursors.rs\<close>, \<open>row.rs\<close>): the tables as lists and maps, every statement of the source
  as its effect on them. A transaction that fails leaves the store as it was. Calls fail with
  \<open>Connection\<close> when the connection is down or a statement violates a constraint. Foreign keys
  are enforced or not according to the connection (\<open>st_foreign_keys\<close>): the source leaves
  SQLite's build-time default in place. The identifier that SQLite assigns to a new row is an
  argument.
\<close>

section \<open>Rows\<close>

datatype Direction = Received | Sent

datatype OutboxStatus = Queued | Sending | Sent | Failed | Unknown

datatype OutgoingStatus =
  Queued | Sending | SentUnconfirmed | SentConfirmed | FailedRetryable | FailedPermanent | Unknown

datatype FolderSyncStatus = Never | Syncing | Complete | Failed

record NewMessage =
  m_map_handle :: string
  m_timestamp_ms :: int
  m_folder :: string
  m_direction :: Direction
  m_address :: string
  m_conversation_key :: string
  m_participants :: string
  m_status :: int
  m_synced_at :: int
  m_text :: string
  m_outgoing_status :: "OutgoingStatus option"

record MessageRow = NewMessage +
  m_rowid :: int

record OutboxRow =
  ob_id :: int
  ob_command :: string
  ob_payload :: string
  ob_local_message_id :: "int option"
  ob_status :: OutboxStatus
  ob_created_at :: int
  ob_attempted_at :: "int option"
  ob_resolved_at :: "int option"
  ob_error :: "string option"

record FolderCursor =
  fc_last_sync_at :: int
  fc_highest_ts :: int
  fc_sync_status :: FolderSyncStatus

record GroupRow =
  g_display_subtitle :: string
  g_first_seen :: int
  g_last_seen :: int
  g_identity_conflict :: bool

record AssignmentRow =
  a_group_id :: string
  a_notification_uid :: "u8 list"
  a_correlated_at :: int

datatype GroupAssignmentResult = Assigned | IdentityConflict

datatype StoreError = Connection | InvalidTransition

record Store =
  st_up :: bool
  st_foreign_keys :: bool
  st_messages :: "MessageRow list"
  st_outbox :: "OutboxRow list"
  st_cursors :: "string \<rightharpoonup> FolderCursor"
  st_meta :: "string \<rightharpoonup> string"
  st_groups :: "string \<rightharpoonup> GroupRow"
  st_senders :: "string \<times> string \<rightharpoonup> int \<times> int"
  st_assignments :: "string \<rightharpoonup> AssignmentRow"
  st_ambiguous :: "string \<rightharpoonup> int"

type_synonym 'a db = "Store \<Rightarrow> ('a, StoreError) result \<times> Store"

text \<open>\<open>conn.call\<close>: a closure that returns nothing on an SQL error, which rolls back.\<close>

definition call :: "(Store \<Rightarrow> ('a \<times> Store) option) \<Rightarrow> 'a db" where
  "call f s = (if \<not> st_up s then (Err Connection, s)
     else case f s of None \<Rightarrow> (Err Connection, s) | Some (a, s') \<Rightarrow> (Ok a, s'))"

definition has_handle :: "string \<Rightarrow> Store \<Rightarrow> bool" where
  "has_handle h s \<longleftrightarrow> h \<in> m_map_handle ` set (st_messages s)"

text \<open>\<open>UPDATE messages SET ... WHERE map_handle = h\<close>.\<close>

definition update_messages :: "string \<Rightarrow> (MessageRow \<Rightarrow> MessageRow) \<Rightarrow> Store \<Rightarrow> Store" where
  "update_messages h f s =
     s\<lparr>st_messages := map (\<lambda>m. if m_map_handle m = h then f m else m) (st_messages s)\<rparr>"

text \<open>A reference to a message handle: checked when foreign keys are enforced.\<close>

definition handle_ref_ok :: "string \<Rightarrow> Store \<Rightarrow> bool" where
  "handle_ref_ok h s \<longleftrightarrow> st_foreign_keys s \<longrightarrow> has_handle h s"

section \<open>Group identity\<close>

definition Store_mark_ancs_ambiguous :: "string \<Rightarrow> int \<Rightarrow> unit db" where
  "Store_mark_ancs_ambiguous map_handle observed_at = call (\<lambda>s.
     if \<not> handle_ref_ok map_handle s then None
     else Some ((), s\<lparr>st_ambiguous := (st_ambiguous s)(map_handle \<mapsto>
       (case st_ambiguous s map_handle of None \<Rightarrow> observed_at | Some t \<Rightarrow> max t observed_at))\<rparr>))"

definition Store_clear_ancs_ambiguous :: "string \<Rightarrow> unit db" where
  "Store_clear_ancs_ambiguous map_handle = call (\<lambda>s.
     Some ((), s\<lparr>st_ambiguous := (st_ambiguous s)(map_handle := None)\<rparr>))"

definition upsert_group :: "string \<Rightarrow> string \<Rightarrow> int \<Rightarrow> Store \<Rightarrow> Store" where
  "upsert_group group_id display_subtitle seen_at s =
     s\<lparr>st_groups := (st_groups s)(group_id \<mapsto>
       (case st_groups s group_id of
          None \<Rightarrow> \<lparr>g_display_subtitle = display_subtitle, g_first_seen = seen_at,
                    g_last_seen = seen_at, g_identity_conflict = False\<rparr>
        | Some g \<Rightarrow> g\<lparr>g_display_subtitle := display_subtitle, g_last_seen := max (g_last_seen g) seen_at\<rparr>))\<rparr>"

definition flag_conflict :: "string \<Rightarrow> Store \<Rightarrow> Store" where
  "flag_conflict group_id s =
     s\<lparr>st_groups := (st_groups s)(group_id :=
       map_option (\<lambda>g. g\<lparr>g_identity_conflict := True\<rparr>) (st_groups s group_id))\<rparr>"

definition upsert_sender :: "string \<Rightarrow> string \<Rightarrow> int \<Rightarrow> Store \<Rightarrow> Store" where
  "upsert_sender group_id sender seen_at s =
     s\<lparr>st_senders := (st_senders s)((group_id, sender) \<mapsto>
       (case st_senders s (group_id, sender) of
          None \<Rightarrow> (seen_at, seen_at) | Some (f, l) \<Rightarrow> (f, max l seen_at)))\<rparr>"

definition upsert_assignment :: "string \<Rightarrow> string \<Rightarrow> u8 list \<Rightarrow> int \<Rightarrow> Store \<Rightarrow> Store" where
  "upsert_assignment map_handle group_id notification_uid seen_at s =
     s\<lparr>st_assignments := (st_assignments s)(map_handle \<mapsto>
       (case st_assignments s map_handle of
          None \<Rightarrow> \<lparr>a_group_id = group_id, a_notification_uid = notification_uid, a_correlated_at = seen_at\<rparr>
        | Some a \<Rightarrow> a\<lparr>a_notification_uid := notification_uid, a_correlated_at := seen_at\<rparr>))\<rparr>"

definition Store_assign_ancs_group ::
  "string \<Rightarrow> string \<Rightarrow> string \<Rightarrow> string \<Rightarrow> u8 list \<Rightarrow> int \<Rightarrow> GroupAssignmentResult db" where
  "Store_assign_ancs_group map_handle group_id display_subtitle sender notification_uid seen_at =
     call (\<lambda>s.
       let s = upsert_group group_id display_subtitle seen_at s;
           existing = map_option a_group_id (st_assignments s map_handle)
       in if existing \<noteq> None \<and> existing \<noteq> Some group_id
          then Some (IdentityConflict, flag_conflict group_id (flag_conflict (the existing) s))
          else if \<not> handle_ref_ok map_handle s then None
          else let s = upsert_sender group_id sender seen_at s;
                   s = upsert_assignment map_handle group_id notification_uid seen_at s;
                   s = update_messages map_handle (\<lambda>m. m\<lparr>m_conversation_key := group_id\<rparr>) s;
                   s = s\<lparr>st_ambiguous := (st_ambiguous s)(map_handle := None)\<rparr>
            in Some (Assigned, s))"

section \<open>Messages\<close>

text \<open>Inserting a row under an identifier assigned by SQLite; \<open>map_handle\<close> is unique.\<close>

definition insert_message :: "int \<Rightarrow> NewMessage \<Rightarrow> Store \<Rightarrow> Store option" where
  "insert_message rid msg s =
     (if has_handle (m_map_handle msg) s then None
      else Some (s\<lparr>st_messages := st_messages s @ [NewMessage.extend msg \<lparr>m_rowid = rid\<rparr>]\<rparr>))"

definition Store_upsert :: "int \<Rightarrow> NewMessage \<Rightarrow> unit db" where
  "Store_upsert rid msg = call (\<lambda>s.
     case insert_message rid msg s of
       Some s' \<Rightarrow> Some ((), s')
     | None \<Rightarrow> Some ((), update_messages (m_map_handle msg)
         (\<lambda>m. m\<lparr>m_conversation_key := m_conversation_key msg, m_participants := m_participants msg\<rparr>) s))"

definition insert_outbox :: "OutboxRow \<Rightarrow> Store \<Rightarrow> Store" where
  "insert_outbox row s = s\<lparr>st_outbox := st_outbox s @ [row]\<rparr>"

definition update_outbox :: "int \<Rightarrow> (OutboxRow \<Rightarrow> OutboxRow) \<Rightarrow> Store \<Rightarrow> Store" where
  "update_outbox i f s = s\<lparr>st_outbox := map (\<lambda>r. if ob_id r = i then f r else r) (st_outbox s)\<rparr>"

definition new_outbox_row :: "int \<Rightarrow> string \<Rightarrow> string \<Rightarrow> int option \<Rightarrow> int \<Rightarrow> OutboxRow" where
  "new_outbox_row i command payload local_message_id created_at =
     \<lparr>ob_id = i, ob_command = command, ob_payload = payload, ob_local_message_id = local_message_id,
      ob_status = OutboxStatus.Queued, ob_created_at = created_at, ob_attempted_at = None,
      ob_resolved_at = None, ob_error = None\<rparr>"

text \<open>\<open>format!("local:{outbox_id}")\<close>; identifiers of rows are positive.\<close>

definition placeholder :: "int \<Rightarrow> string" where
  "placeholder outbox_id = ''local:'' @ decimal (nat outbox_id)"

definition Store_enqueue_send ::
  "int \<Rightarrow> int \<Rightarrow> NewMessage \<Rightarrow> string \<Rightarrow> string \<Rightarrow> int \<Rightarrow> (int \<times> int) db" where
  "Store_enqueue_send rid outbox_id msg command payload created_at = call (\<lambda>s.
     let s = insert_outbox (new_outbox_row outbox_id command payload None created_at) s
     in case insert_message rid (msg\<lparr>m_map_handle := placeholder outbox_id\<rparr>) s of
          None \<Rightarrow> None
        | Some s \<Rightarrow> Some ((rid, outbox_id),
            update_outbox outbox_id (\<lambda>r. r\<lparr>ob_local_message_id := Some rid\<rparr>) s))"

definition Store_update_outgoing_status :: "string \<Rightarrow> OutgoingStatus \<Rightarrow> unit db" where
  "Store_update_outgoing_status handle status = call (\<lambda>s.
     Some ((), update_messages handle (\<lambda>m. m\<lparr>m_outgoing_status := Some status\<rparr>) s))"

text \<open>
  Renaming a handle: unique, not referenced by an assignment when foreign keys are enforced,
  and an ambiguity marker follows (\<open>ON UPDATE CASCADE\<close>) under the same condition.
\<close>

definition rename_message :: "string \<Rightarrow> string \<Rightarrow> OutgoingStatus \<Rightarrow> Store \<Rightarrow> Store option" where
  "rename_message old new status s =
     (if \<not> has_handle old s then Some s
      else if new \<noteq> old \<and> has_handle new s then None
      else if st_foreign_keys s \<and> new \<noteq> old \<and> st_assignments s old \<noteq> None then None
      else let s' = update_messages old
                      (\<lambda>m. m\<lparr>m_map_handle := new, m_outgoing_status := Some status\<rparr>) s
        in Some (if st_foreign_keys s \<and> new \<noteq> old
                 then s'\<lparr>st_ambiguous := (st_ambiguous s)(new := st_ambiguous s old, old := None)\<rparr>
                 else s'))"

definition Store_promote_outgoing :: "string \<Rightarrow> string \<Rightarrow> OutgoingStatus \<Rightarrow> unit db" where
  "Store_promote_outgoing old_handle new_handle status = call (\<lambda>s.
     map_option (Pair ()) (rename_message old_handle new_handle status s))"

definition Store_reconcile_outgoing :: "string \<Rightarrow> unit db" where
  "Store_reconcile_outgoing handle = call (\<lambda>s.
     Some ((), update_messages handle (\<lambda>m.
       if m_outgoing_status m = Some OutgoingStatus.SentUnconfirmed
       then m\<lparr>m_outgoing_status := Some OutgoingStatus.SentConfirmed\<rparr> else m) s))"

definition Store_complete_send :: "int \<Rightarrow> string \<Rightarrow> string \<Rightarrow> int \<Rightarrow> unit db" where
  "Store_complete_send outbox_id old_handle new_handle now_ms = call (\<lambda>s.
     let s = update_outbox outbox_id (\<lambda>r. r\<lparr>ob_status := OutboxStatus.Sent,
               ob_resolved_at := Some now_ms, ob_error := None\<rparr>) s
     in map_option (Pair ()) (rename_message old_handle new_handle OutgoingStatus.SentUnconfirmed s))"

definition Store_messages_since :: "int \<Rightarrow> MessageRow list db" where
  "Store_messages_since after_ms = call (\<lambda>s.
     Some (sort_key m_timestamp_ms (filter (\<lambda>m. after_ms < m_timestamp_ms m) (st_messages s)), s))"

definition Store_max_timestamp :: "int option db" where
  "Store_max_timestamp = call (\<lambda>s.
     Some (case map m_timestamp_ms (st_messages s) of [] \<Rightarrow> None | t # ts \<Rightarrow> Some (fold max ts t), s))"

definition Store_delete_by_handle :: "string \<Rightarrow> unit db" where
  "Store_delete_by_handle handle = call (\<lambda>s.
     if st_foreign_keys s \<and> has_handle handle s
        \<and> (st_assignments s handle \<noteq> None
            \<or> (\<exists>m \<in> set (st_messages s). m_map_handle m = handle
                \<and> Some (m_rowid m) \<in> ob_local_message_id ` set (st_outbox s)))
     then None
     else Some ((), s\<lparr>st_messages := filter (\<lambda>m. m_map_handle m \<noteq> handle) (st_messages s),
                      st_ambiguous := (if st_foreign_keys s \<and> has_handle handle s
                        then (st_ambiguous s)(handle := None) else st_ambiguous s)\<rparr>))"

definition Store_update_folder :: "string \<Rightarrow> string \<Rightarrow> unit db" where
  "Store_update_folder handle folder = call (\<lambda>s.
     Some ((), update_messages handle (\<lambda>m. m\<lparr>m_folder := folder\<rparr>) s))"

definition Store_update_status :: "string \<Rightarrow> int \<Rightarrow> unit db" where
  "Store_update_status handle status = call (\<lambda>s.
     Some ((), update_messages handle (\<lambda>m. m\<lparr>m_status := status\<rparr>) s))"

definition STATUS_UNREAD :: int where "STATUS_UNREAD = 0"

definition visible_folders :: "string list" where
  "visible_folders = [''inbox'', ''sent'', ''telecom/msg/inbox'', ''telecom/msg/sent'']"

text \<open>\<open>ORDER BY timestamp_ms DESC, rowid DESC LIMIT .. OFFSET ..\<close>.\<close>

definition Store_list_conversation_messages :: "string \<Rightarrow> nat \<Rightarrow> nat \<Rightarrow> MessageRow list db" where
  "Store_list_conversation_messages conversation_key limit offset = call (\<lambda>s.
     Some (take limit (drop offset (sort_key (\<lambda>m. - m_timestamp_ms m) (sort_key (\<lambda>m. - m_rowid m)
       (filter (\<lambda>m. m_conversation_key m = conversation_key \<and> m_folder m \<in> set visible_folders) (st_messages s))))), s))"

text \<open>
  \<open>build_list_query\<close>: every given criterion is one more condition. The query leaves the order of
  messages with the same timestamp open; the model keeps the table's.
\<close>

definition Store_list_messages ::
  "string option \<Rightarrow> bool \<Rightarrow> string option \<Rightarrow> int option \<Rightarrow> nat \<Rightarrow> nat \<Rightarrow> MessageRow list db" where
  "Store_list_messages folder unread_only sender since_ms limit offset = call (\<lambda>s.
     Some (take limit (drop offset (sort_key (\<lambda>m. - m_timestamp_ms m) (filter (\<lambda>m.
       (case folder of None \<Rightarrow> True | Some f \<Rightarrow> m_folder m = f) \<and> (unread_only \<longrightarrow> m_status m = STATUS_UNREAD) \<and>
       (case sender of None \<Rightarrow> True | Some a \<Rightarrow> m_address m = a) \<and>
       (case since_ms of None \<Rightarrow> True | Some t \<Rightarrow> t \<le> m_timestamp_ms m)) (st_messages s)))), s))"

definition Store_get_meta :: "string \<Rightarrow> string option db" where
  "Store_get_meta key = call (\<lambda>s. Some (st_meta s key, s))"

definition Store_set_meta :: "string \<Rightarrow> string \<Rightarrow> unit db" where
  "Store_set_meta key v = call (\<lambda>s. Some ((), s\<lparr>st_meta := (st_meta s)(key \<mapsto> v)\<rparr>))"

definition Store_get_by_handle :: "string \<Rightarrow> MessageRow option db" where
  "Store_get_by_handle handle = call (\<lambda>s.
     Some (List.find (\<lambda>m. m_map_handle m = handle) (st_messages s), s))"

section \<open>Outbox and cursors\<close>

definition Store_enqueue :: "int \<Rightarrow> string \<Rightarrow> string \<Rightarrow> int option \<Rightarrow> int \<Rightarrow> int db" where
  "Store_enqueue i command payload local_message_id created_at = call (\<lambda>s.
     if st_foreign_keys s \<and> (case local_message_id of None \<Rightarrow> False
          | Some r \<Rightarrow> r \<notin> m_rowid ` set (st_messages s)) then None
     else Some (i, insert_outbox (new_outbox_row i command payload local_message_id created_at) s))"

definition Store_resolve :: "int \<Rightarrow> OutboxStatus \<Rightarrow> int \<Rightarrow> string option \<Rightarrow> unit db" where
  "Store_resolve i status now_ms error s =
     (case status of
        OutboxStatus.Queued \<Rightarrow> (Err InvalidTransition, s)
      | OutboxStatus.Sending \<Rightarrow>
          call (\<lambda>s. Some ((), update_outbox i (\<lambda>r. r\<lparr>ob_status := status,
            ob_attempted_at := Some now_ms, ob_error := error\<rparr>) s)) s
      | _ \<Rightarrow>
          call (\<lambda>s. Some ((), update_outbox i (\<lambda>r. r\<lparr>ob_status := status,
            ob_resolved_at := Some now_ms, ob_error := error\<rparr>) s)) s)"

definition Store_pending :: "OutboxRow list db" where
  "Store_pending = call (\<lambda>s.
     Some (sort_key ob_created_at (filter (\<lambda>r. ob_status r = OutboxStatus.Queued) (st_outbox s)), s))"

definition Store_get_cursor :: "string \<Rightarrow> FolderCursor option db" where
  "Store_get_cursor folder = call (\<lambda>s. Some (st_cursors s folder, s))"

definition Store_set_cursor :: "string \<Rightarrow> int \<Rightarrow> int \<Rightarrow> FolderSyncStatus \<Rightarrow> unit db" where
  "Store_set_cursor folder last_sync_at highest_ts sync_status = call (\<lambda>s.
     Some ((), s\<lparr>st_cursors := (st_cursors s)(folder \<mapsto>
       \<lparr>fc_last_sync_at = last_sync_at, fc_highest_ts = highest_ts, fc_sync_status = sync_status\<rparr>)\<rparr>))"

section \<open>All writes as operations\<close>

datatype store_op =
    MarkAmbiguous string int | ClearAmbiguous string
  | AssignGroup string string string string "u8 list" int
  | Upsert int NewMessage | EnqueueSend int int NewMessage string string int
  | UpdateOutgoing string OutgoingStatus | Promote string string OutgoingStatus
  | Reconcile string | CompleteSend int string string int
  | Delete string | UpdateFolder string string | UpdateStatus string int
  | SetMeta string string | Enqueue int string string "int option" int
  | Resolve int OutboxStatus int "string option" | SetCursor string int int FolderSyncStatus

fun run_op :: "store_op \<Rightarrow> Store \<Rightarrow> Store" where
  "run_op (MarkAmbiguous h t) s = snd (Store_mark_ancs_ambiguous h t s)"
| "run_op (ClearAmbiguous h) s = snd (Store_clear_ancs_ambiguous h s)"
| "run_op (AssignGroup h g d f u t) s = snd (Store_assign_ancs_group h g d f u t s)"
| "run_op (Upsert r m) s = snd (Store_upsert r m s)"
| "run_op (EnqueueSend r i m c p t) s = snd (Store_enqueue_send r i m c p t s)"
| "run_op (UpdateOutgoing h o1) s = snd (Store_update_outgoing_status h o1 s)"
| "run_op (Promote h h' o1) s = snd (Store_promote_outgoing h h' o1 s)"
| "run_op (Reconcile h) s = snd (Store_reconcile_outgoing h s)"
| "run_op (CompleteSend i h h' t) s = snd (Store_complete_send i h h' t s)"
| "run_op (Delete h) s = snd (Store_delete_by_handle h s)"
| "run_op (UpdateFolder h f) s = snd (Store_update_folder h f s)"
| "run_op (UpdateStatus h n) s = snd (Store_update_status h n s)"
| "run_op (SetMeta k v) s = snd (Store_set_meta k v s)"
| "run_op (Enqueue i c p l t) s = snd (Store_enqueue i c p l t s)"
| "run_op (Resolve i o1 t e) s = snd (Store_resolve i o1 t e s)"
| "run_op (SetCursor f l h y) s = snd (Store_set_cursor f l h y s)"

lemma call_cases:
  obtains (failed) "call f s = (Err Connection, s)"
  | (finished) a s' where "st_up s" "f s = Some (a, s')" "call f s = (Ok a, s')"
  by (cases "st_up s"; cases "f s") (auto simp: call_def)

lemma snd_call: "snd (call f s) = (if st_up s then (case f s of None \<Rightarrow> s | Some (_, s') \<Rightarrow> s') else s)"
  by (auto simp: call_def split: option.splits)

lemmas store_write_defs =
  Store_mark_ancs_ambiguous_def Store_clear_ancs_ambiguous_def Store_assign_ancs_group_def
  Store_upsert_def Store_enqueue_send_def Store_update_outgoing_status_def
  Store_promote_outgoing_def Store_reconcile_outgoing_def Store_complete_send_def
  Store_delete_by_handle_def Store_update_folder_def Store_update_status_def Store_set_meta_def
  Store_enqueue_def Store_resolve_def Store_set_cursor_def

lemmas store_helper_defs =
  upsert_group_def flag_conflict_def upsert_sender_def upsert_assignment_def update_messages_def
  insert_message_def insert_outbox_def update_outbox_def rename_message_def

text \<open>Handles stay unique: the \<open>UNIQUE\<close> column is respected by every statement.\<close>

definition handles_distinct :: "Store \<Rightarrow> bool" where
  "handles_distinct s \<longleftrightarrow> distinct (map m_map_handle (st_messages s))"

lemma update_messages_handles:
  assumes "\<And>m. m_map_handle (f m) = m_map_handle m"
  shows "map m_map_handle (st_messages (update_messages h f s)) = map m_map_handle (st_messages s)"
  by (simp add: update_messages_def assms)

lemma insert_message_distinct:
  "insert_message r m s = Some s' \<Longrightarrow> handles_distinct s \<Longrightarrow> handles_distinct s'"
  by (auto simp: insert_message_def handles_distinct_def has_handle_def NewMessage.defs split: if_splits)

lemma map_rename_distinct:
  assumes "distinct xs" and "new = old \<or> new \<notin> set xs"
  shows "distinct (map (\<lambda>x. if x = old then new else x) xs)"
  using assms by (induction xs) auto

lemma rename_message_distinct:
  assumes "rename_message old new st s = Some s'" and "handles_distinct s"
  shows "handles_distinct s'"
proof (cases "has_handle old s")
  case False
  then show ?thesis using assms by (simp add: rename_message_def)
next
  case True
  then have new: "new = old \<or> new \<notin> set (map m_map_handle (st_messages s))"
    using assms(1) by (auto simp: rename_message_def has_handle_def split: if_splits)
  have "map m_map_handle (st_messages s') =
      map (\<lambda>x. if x = old then new else x) (map m_map_handle (st_messages s))"
    using assms(1) True
    by (auto simp: rename_message_def update_messages_def Let_def split: if_splits)
  then show ?thesis
    using map_rename_distinct [OF _ new] assms(2) by (simp add: handles_distinct_def)
qed

lemma messages_untouched:
  "st_messages (upsert_group a b c s) = st_messages s"
  "st_messages (flag_conflict a s) = st_messages s"
  "st_messages (upsert_sender a b c s) = st_messages s"
  "st_messages (upsert_assignment a b d c s) = st_messages s"
  "st_messages (update_outbox i f s) = st_messages s"
  "st_messages (insert_outbox r s) = st_messages s"
  by (simp_all add: store_helper_defs)

lemma handles_distinct_cong: "st_messages s' = st_messages s \<Longrightarrow> handles_distinct s' = handles_distinct s"
  by (simp add: handles_distinct_def)

lemma handles_distinct_update:
  "(\<And>m. m_map_handle (f m) = m_map_handle m) \<Longrightarrow>
   handles_distinct (update_messages h f s) = handles_distinct s"
  by (simp add: handles_distinct_def update_messages_handles)

lemma run_op_distinct:
  assumes s: "handles_distinct s"
  shows "handles_distinct (run_op e s)"
proof (cases e)
  case (AssignGroup h g d f u t)
  let ?s1 = "upsert_sender g f t (upsert_group g d t s)"
  let ?s2 = "update_messages h (\<lambda>m. m\<lparr>m_conversation_key := g\<rparr>) (upsert_assignment h g u t ?s1)"
  have "handles_distinct ?s2"
    by (subst handles_distinct_update) (use s in \<open>simp_all add: handles_distinct_def messages_untouched\<close>)
  then show ?thesis
    using s AssignGroup
    by (auto simp: Store_assign_ancs_group_def snd_call Let_def handles_distinct_def messages_untouched)
next
  case (Upsert r m)
  then show ?thesis
    using s insert_message_distinct
    by (auto simp: Store_upsert_def snd_call handles_distinct_update split: option.splits)
next
  case (EnqueueSend r i m c p t)
  let ?s = "insert_outbox (new_outbox_row i c p None t) s"
  have "handles_distinct ?s" using s by (simp add: handles_distinct_def messages_untouched)
  then show ?thesis
    using s EnqueueSend insert_message_distinct
    by (auto simp: Store_enqueue_send_def snd_call Let_def handles_distinct_cong [OF messages_untouched(5)]
        split: option.splits)
next
  case (Promote h h' o1)
  then show ?thesis
    using s rename_message_distinct by (auto simp: Store_promote_outgoing_def snd_call split: option.splits)
next
  case (CompleteSend i h h' t)
  have "handles_distinct (update_outbox i f s)" for f
    using s by (simp add: handles_distinct_def messages_untouched)
  then show ?thesis
    using s CompleteSend rename_message_distinct
    by (auto simp: Store_complete_send_def snd_call Let_def split: option.splits)
next
  case (Delete h)
  then show ?thesis
    using s by (auto simp: Store_delete_by_handle_def snd_call handles_distinct_def distinct_map_filter)
next
  case (Resolve i o1 t e)
  then show ?thesis
    using s by (cases o1) (simp_all add: Store_resolve_def snd_call handles_distinct_def messages_untouched)
qed (use s in \<open>auto simp: store_write_defs snd_call handles_distinct_update handles_distinct_def
      messages_untouched update_messages_handles split: option.splits\<close>)

interpretation message_store: step_machine run_op handles_distinct
  by unfold_locales (rule run_op_distinct)

section \<open>Group identity is durable\<close>

definition assigned_to :: "string \<Rightarrow> string \<Rightarrow> Store \<Rightarrow> bool" where
  "assigned_to h gid s \<longleftrightarrow> map_option a_group_id (st_assignments s h) = Some gid"

definition conflicted :: "string \<Rightarrow> Store \<Rightarrow> bool" where
  "conflicted gid s \<longleftrightarrow> map_option g_identity_conflict (st_groups s gid) = Some True"

lemma groups_untouched:
  "\<not> (\<exists>h g d f u t. e = AssignGroup h g d f u t) \<Longrightarrow>
   st_assignments (run_op e s) = st_assignments s \<and> st_groups (run_op e s) = st_groups s"
proof (cases e)
  case (Resolve i o1 t er)
  then show ?thesis by (cases o1) (simp_all add: Store_resolve_def snd_call store_helper_defs)
qed (auto simp: store_write_defs snd_call store_helper_defs Let_def split: option.splits)

lemma assign_cases:
  obtains (failed) "Store_assign_ancs_group h g d f u t s = (Err Connection, s)"
  | (conflict) old where "st_up s" "assigned_to h old s" "old \<noteq> g"
      "Store_assign_ancs_group h g d f u t s =
         (Ok IdentityConflict, flag_conflict g (flag_conflict old (upsert_group g d t s)))"
  | (assigned) "st_up s" "st_assignments s h = None \<or> assigned_to h g s" "handle_ref_ok h s"
      "Store_assign_ancs_group h g d f u t s =
         (Ok Assigned, (update_messages h (\<lambda>m. m\<lparr>m_conversation_key := g\<rparr>)
            (upsert_assignment h g u t (upsert_sender g f t (upsert_group g d t s))))
            \<lparr>st_ambiguous := (st_ambiguous s)(h := None)\<rparr>)"
proof -
  have same: "st_assignments (upsert_group g d t s) = st_assignments s"
    "handle_ref_ok h (upsert_group g d t s) = handle_ref_ok h s"
    by (simp_all add: upsert_group_def handle_ref_ok_def has_handle_def)
  have amb: "st_ambiguous (update_messages h k (upsert_assignment h g u t (upsert_sender g f t
      (upsert_group g d t s)))) = st_ambiguous s" for k
    by (simp add: store_helper_defs)
  show ?thesis
  proof (cases "st_up s \<and> (\<exists>a. st_assignments s h = Some a \<and> a_group_id a \<noteq> g)")
    case True
    then obtain a where "st_up s" "st_assignments s h = Some a" "a_group_id a \<noteq> g" by blast
    then show ?thesis
      by (intro conflict [of "a_group_id a"])
        (simp_all add: Store_assign_ancs_group_def call_def same assigned_to_def Let_def)
  next
    case ok: False
    show ?thesis
    proof (cases "st_up s \<and> handle_ref_ok h s")
      case True
      then show ?thesis
        using ok by (intro assigned)
          (auto simp: Store_assign_ancs_group_def call_def same amb assigned_to_def Let_def)
    next
      case False
      then show ?thesis
        using ok by (intro failed)
          (auto simp: Store_assign_ancs_group_def call_def same Let_def)
    qed
  qed
qed

lemma run_op_assigned_to: "assigned_to h gid s \<Longrightarrow> assigned_to h gid (run_op e s)"
proof (cases "\<exists>h g d f u t. e = AssignGroup h g d f u t")
  case False
  then show "assigned_to h gid s \<Longrightarrow> assigned_to h gid (run_op e s)"
    using groups_untouched [of e s] by (simp add: assigned_to_def)
next
  case True
  then obtain k g d f u t where e: "e = AssignGroup k g d f u t" by blast
  assume a: "assigned_to h gid s"
  show ?thesis
    by (rule assign_cases [of k g d f u t s])
      (use a e in \<open>auto simp: assigned_to_def store_helper_defs split: option.splits\<close>)
qed

lemma run_op_conflicted: "conflicted gid s \<Longrightarrow> conflicted gid (run_op e s)"
proof (cases "\<exists>h g d f u t. e = AssignGroup h g d f u t")
  case False
  then show "conflicted gid s \<Longrightarrow> conflicted gid (run_op e s)"
    using groups_untouched [of e s] by (simp add: conflicted_def)
next
  case True
  then obtain k g d f u t where e: "e = AssignGroup k g d f u t" by blast
  assume a: "conflicted gid s"
  show ?thesis
    by (rule assign_cases [of k g d f u t s])
      (use a e in \<open>auto simp: conflicted_def store_helper_defs split: option.splits\<close>)
qed

interpretation assignment: step_machine run_op "assigned_to h gid" for h gid
  by unfold_locales (rule run_op_assigned_to)

interpretation conflict: step_machine run_op "conflicted gid" for gid
  by unfold_locales (rule run_op_conflicted)

text \<open>
  The rows of a message carry the key of its group. A write brings a row in under a handle when it
  fetches the message again or gives the handle to another row.
\<close>

definition keyed :: "string \<Rightarrow> string \<Rightarrow> Store \<Rightarrow> bool" where
  "keyed h gid s \<longleftrightarrow> (\<forall>m \<in> set (st_messages s). m_map_handle m = h \<longrightarrow> m_conversation_key m = gid)"

fun fetches :: "string \<Rightarrow> store_op \<Rightarrow> bool" where
  "fetches h (Upsert r msg) \<longleftrightarrow> m_map_handle msg = h"
| "fetches h _ \<longleftrightarrow> False"

fun renames_to :: "string \<Rightarrow> store_op \<Rightarrow> bool" where
  "renames_to h (EnqueueSend r i msg c p t) \<longleftrightarrow> placeholder i = h"
| "renames_to h (Promote old new o1) \<longleftrightarrow> new = h"
| "renames_to h (CompleteSend i old new t) \<longleftrightarrow> new = h"
| "renames_to h _ \<longleftrightarrow> False"

lemma keyed_update:
  "keyed h gid s \<Longrightarrow> (\<And>m. m_map_handle (f m) = m_map_handle m) \<Longrightarrow>
   (\<And>m. k = h \<Longrightarrow> m_conversation_key (f m) = m_conversation_key m) \<Longrightarrow> keyed h gid (update_messages k f s)"
  by (auto simp: keyed_def update_messages_def)

lemma keyed_cong: "st_messages s' = st_messages s \<Longrightarrow> keyed h gid s' = keyed h gid s"
  by (simp add: keyed_def)

lemma keyed_fields:
  "keyed h gid (s\<lparr>st_meta := a\<rparr>) = keyed h gid s" "keyed h gid (s\<lparr>st_ambiguous := b\<rparr>) = keyed h gid s"
  "keyed h gid (s\<lparr>st_cursors := c\<rparr>) = keyed h gid s" "keyed h gid (insert_outbox r s) = keyed h gid s"
  by (simp_all add: keyed_def insert_outbox_def)

lemma keyed_rename:
  "keyed h gid s \<Longrightarrow> new \<noteq> h \<or> has_handle h s \<Longrightarrow> rename_message old new status s = Some s' \<Longrightarrow> keyed h gid s'"
  by (auto simp: rename_message_def keyed_def update_messages_def Let_def split: if_splits)

lemma keyed_insert:
  "keyed h gid s \<Longrightarrow> m_map_handle msg \<noteq> h \<or> has_handle h s \<Longrightarrow> insert_message r msg s = Some s' \<Longrightarrow> keyed h gid s'"
  by (auto simp: insert_message_def keyed_def NewMessage.defs split: if_splits)

lemma assign_keyed:
  "assigned_to h gid s \<Longrightarrow> keyed h gid s \<Longrightarrow> keyed h gid (run_op (AssignGroup k g d f u t) s)"
  by (rule assign_cases [of k g d f u t s])
    (auto simp: keyed_def assigned_to_def update_messages_def messages_untouched split: if_splits)

lemma has_handle_cong: "st_messages s' = st_messages s \<Longrightarrow> has_handle h s' = has_handle h s"
  by (simp add: has_handle_def)

lemma run_op_keyed:
  assumes "keyed h gid s" and "assigned_to h gid s" and "\<not> fetches h e" and "renames_to h e \<longrightarrow> has_handle h s"
  shows "keyed h gid (run_op e s)"
proof (cases e)
  case (AssignGroup k g d f u t)
  then show ?thesis using assign_keyed assms by blast
next
  case (Upsert r m)
  then show ?thesis
    using assms keyed_insert [of h gid s m r]
    by (auto simp: Store_upsert_def snd_call intro!: keyed_update split: option.splits)
next
  case (EnqueueSend r i m c p t)
  let ?s = "insert_outbox (new_outbox_row i c p None t) s"
  let ?m = "m\<lparr>m_map_handle := placeholder i\<rparr>"
  have k: "keyed h gid ?s" and "has_handle h ?s = has_handle h s"
    using assms(1) by (simp_all add: keyed_cong [OF messages_untouched(6)] has_handle_cong [OF messages_untouched(6)])
  then have ph: "m_map_handle ?m \<noteq> h \<or> has_handle h ?s" using assms(4) EnqueueSend by simp
  show ?thesis
  proof (cases "insert_message r ?m ?s")
    case None
    then show ?thesis using assms(1) EnqueueSend by (simp add: Store_enqueue_send_def snd_call Let_def)
  next
    case (Some s')
    have "keyed h gid s'" using keyed_insert [OF k ph Some] .
    then have "keyed h gid (update_outbox i f s')" for f by (simp add: keyed_cong [OF messages_untouched(5)])
    then show ?thesis
      using Some assms(1) EnqueueSend by (simp add: Store_enqueue_send_def snd_call Let_def)
  qed
next
  case (Promote old new o1)
  then show ?thesis
    using assms keyed_rename [of h gid s new old] by (auto simp: Store_promote_outgoing_def snd_call split: option.splits)
next
  case (CompleteSend i old new t)
  let ?s = "update_outbox i (\<lambda>r. r\<lparr>ob_status := OutboxStatus.Sent, ob_resolved_at := Some t, ob_error := None\<rparr>) s"
  have k: "keyed h gid ?s" and "has_handle h ?s = has_handle h s"
    using assms(1) by (simp_all add: keyed_cong [OF messages_untouched(5)] has_handle_cong [OF messages_untouched(5)])
  then have "new \<noteq> h \<or> has_handle h ?s" using assms(4) CompleteSend by simp
  then show ?thesis
    using CompleteSend assms(1) keyed_rename [OF k]
    by (cases "rename_message old new OutgoingStatus.SentUnconfirmed ?s")
      (simp_all add: Store_complete_send_def snd_call Let_def)
next
  case (Delete k)
  then show ?thesis
    using assms by (auto simp: Store_delete_by_handle_def snd_call keyed_def)
next
  case (Resolve i o1 t er)
  then show ?thesis
    using assms(1) by (cases o1) (simp_all add: Store_resolve_def snd_call keyed_cong [OF messages_untouched(5)])
qed (use assms(1) in \<open>auto simp: store_write_defs snd_call keyed_fields
      intro!: keyed_update split: option.splits\<close>)

text \<open>With foreign keys enforced, the row of an assigned message cannot be removed or replaced.\<close>

definition pinned :: "string \<Rightarrow> Store \<Rightarrow> bool" where
  "pinned h s \<longleftrightarrow> st_foreign_keys s \<and> st_assignments s h \<noteq> None \<and> has_handle h s"

lemma run_op_fixed: "st_foreign_keys (run_op e s) = st_foreign_keys s \<and> st_up (run_op e s) = st_up s"
proof (cases e)
  case (Resolve i o1 t er)
  then show ?thesis by (cases o1) (simp_all add: Store_resolve_def snd_call store_helper_defs)
qed (auto simp: store_write_defs snd_call store_helper_defs Let_def split: option.splits)

lemma has_handle_set: "has_handle h s \<longleftrightarrow> h \<in> set (map m_map_handle (st_messages s))"
  by (simp add: has_handle_def)

lemma has_handle_map:
  "(\<And>m. m_map_handle (f m) = m_map_handle m) \<Longrightarrow> has_handle h (update_messages k f s) = has_handle h s"
  unfolding has_handle_set by (subst update_messages_handles) simp_all

lemma has_handle_rename:
  assumes "has_handle h s" "st_foreign_keys s" "st_assignments s h \<noteq> None"
    and "rename_message old new status s = Some s'"
  shows "has_handle h s'"
proof (cases "has_handle old s")
  case False
  then show ?thesis using assms by (simp add: rename_message_def)
next
  case True
  then have "old \<noteq> h \<or> new = old" using assms by (auto simp: rename_message_def split: if_splits)
  moreover define f :: "MessageRow \<Rightarrow> MessageRow" where "f = (\<lambda>m. if m_map_handle m = old
      then m\<lparr>m_map_handle := new, m_outgoing_status := Some status\<rparr> else m)"
  ultimately have "m_map_handle m = h \<longrightarrow> m_map_handle (f m) = h" for m by auto
  moreover have "st_messages s' = map f (st_messages s)"
    unfolding f_def using True assms(4) by (auto simp: rename_message_def update_messages_def Let_def split: if_splits)
  moreover obtain m where "m \<in> set (st_messages s)" "m_map_handle m = h"
    using assms(1) by (auto simp: has_handle_def)
  ultimately show ?thesis unfolding has_handle_def by (metis image_eqI list.set_map)
qed

lemma has_handle_insert: "has_handle h s \<Longrightarrow> insert_message r msg s = Some s' \<Longrightarrow> has_handle h s'"
  by (auto simp: insert_message_def has_handle_def split: if_splits)

lemma has_handle_fields:
  "has_handle h (s\<lparr>st_meta := a\<rparr>) = has_handle h s" "has_handle h (s\<lparr>st_ambiguous := b\<rparr>) = has_handle h s"
  "has_handle h (s\<lparr>st_cursors := c\<rparr>) = has_handle h s" "has_handle h (insert_outbox r s) = has_handle h s"
  by (simp_all add: has_handle_def insert_outbox_def)

lemma run_op_has_handle:
  assumes "has_handle h s" and "st_foreign_keys s" and "st_assignments s h \<noteq> None"
  shows "has_handle h (run_op e s)"
proof (cases e)
  case (AssignGroup k g d f u t)
  have "has_handle h (update_messages k (\<lambda>m. m\<lparr>m_conversation_key := g\<rparr>)
      (upsert_assignment k g u t (upsert_sender g f t (upsert_group g d t s))))"
    using assms(1) by (subst has_handle_map) (simp_all add: has_handle_def messages_untouched)
  then show ?thesis
    using assms(1) AssignGroup
    by (auto simp: Store_assign_ancs_group_def snd_call Let_def has_handle_def messages_untouched)
next
  case (Upsert r m)
  then show ?thesis
    using assms(1) has_handle_insert [of h s r m]
    by (auto simp: Store_upsert_def snd_call has_handle_map split: option.splits)
next
  case (EnqueueSend r i m c p t)
  let ?s = "insert_outbox (new_outbox_row i c p None t) s"
  have "has_handle h ?s" using assms(1) by (simp add: has_handle_cong [OF messages_untouched(6)])
  then show ?thesis
    using assms(1) EnqueueSend has_handle_insert [of h ?s r "m\<lparr>m_map_handle := placeholder i\<rparr>"]
    by (cases "insert_message r (m\<lparr>m_map_handle := placeholder i\<rparr>) ?s")
      (simp_all add: Store_enqueue_send_def snd_call Let_def has_handle_cong [OF messages_untouched(5)])
next
  case (Promote old new o1)
  then show ?thesis
    using assms has_handle_rename [OF assms, of old new o1]
    by (cases "rename_message old new o1 s") (simp_all add: Store_promote_outgoing_def snd_call)
next
  case (CompleteSend i old new t)
  let ?s = "update_outbox i (\<lambda>r. r\<lparr>ob_status := OutboxStatus.Sent, ob_resolved_at := Some t, ob_error := None\<rparr>) s"
  have "has_handle h ?s" "st_foreign_keys ?s" "st_assignments ?s h \<noteq> None"
    using assms by (simp_all add: has_handle_def update_outbox_def)
  from has_handle_rename [OF this, of old new] show ?thesis
    using CompleteSend assms(1)
    by (cases "rename_message old new OutgoingStatus.SentUnconfirmed ?s")
      (simp_all add: Store_complete_send_def snd_call Let_def)
next
  case (Delete k)
  then show ?thesis
    using assms by (auto simp: Store_delete_by_handle_def snd_call has_handle_def)
next
  case (Resolve i o1 t er)
  then show ?thesis
    using assms(1) by (cases o1) (simp_all add: Store_resolve_def snd_call has_handle_cong [OF messages_untouched(5)])
qed (use assms(1) in \<open>auto simp: store_write_defs snd_call has_handle_map has_handle_fields split: option.splits\<close>)

lemma run_op_pinned: "pinned h s \<Longrightarrow> pinned h (run_op e s)"
proof -
  assume p: "pinned h s"
  then obtain gid where "assigned_to h gid s" by (auto simp: pinned_def assigned_to_def)
  from run_op_assigned_to [OF this, of e] have "st_assignments (run_op e s) h \<noteq> None"
    by (auto simp: assigned_to_def)
  then show ?thesis using p run_op_has_handle [of h s e] run_op_fixed [of e s] by (auto simp: pinned_def)
qed

interpretation pinned_message: step_machine run_op "pinned h" for h
  by unfold_locales (rule run_op_pinned)

lemma run_keyed:
  "keyed h gid s \<Longrightarrow> assigned_to h gid s \<Longrightarrow> \<forall>e \<in> set es. \<not> fetches h e \<Longrightarrow>
   pinned h s \<or> (\<forall>e \<in> set es. \<not> renames_to h e) \<Longrightarrow> keyed h gid (fold run_op es s)"
proof (induction es arbitrary: s)
  case (Cons e es)
  have "keyed h gid (run_op e s)"
    by (rule run_op_keyed) (use Cons.prems in \<open>auto simp: pinned_def\<close>)
  then show ?case
    using Cons.IH [of "run_op e s"] Cons.prems run_op_assigned_to run_op_pinned by auto
qed simp

text \<open>The state after a successful assignment.\<close>

lemma assigned_state:
  assumes "Store_assign_ancs_group h g d f u t s = (Ok Assigned, s0)"
  shows "st_up s0" "assigned_to h g s0" "keyed h g s0" "st_groups s0 g \<noteq> None"
    "st_foreign_keys s \<Longrightarrow> pinned h s0" "handles_distinct s \<Longrightarrow> handles_distinct s0"
proof -
  have s0: "s0 = run_op (AssignGroup h g d f u t) s" using assms by simp
  show "handles_distinct s \<Longrightarrow> handles_distinct s0" unfolding s0 by (rule run_op_distinct)
  let ?sa = "upsert_assignment h g u t (upsert_sender g f t (upsert_group g d t s))"
  have up: "st_up s" and old: "st_assignments s h = None \<or> assigned_to h g s" and ref: "handle_ref_ok h s"
    and new: "s0 = (update_messages h (\<lambda>m. m\<lparr>m_conversation_key := g\<rparr>) ?sa)\<lparr>st_ambiguous := (st_ambiguous s)(h := None)\<rparr>"
    by (rule assign_cases [of h g d f u t s]; use assms in simp)+
  show "st_up s0" using up by (simp add: new store_helper_defs)
  show a: "assigned_to h g s0"
    using old by (auto simp: new assigned_to_def store_helper_defs split: option.splits)
  show "keyed h g s0" by (auto simp: new keyed_def update_messages_def simp del: if_image_distrib split: if_splits)
  show "st_groups s0 g \<noteq> None" by (simp add: new store_helper_defs)
  show "pinned h s0" if "st_foreign_keys s"
  proof -
    have "has_handle h ?sa" using ref that by (simp add: handle_ref_ok_def has_handle_def messages_untouched)
    then have "has_handle h s0" by (simp add: new has_handle_fields has_handle_map)
    moreover have "st_foreign_keys s0" using that by (simp add: new store_helper_defs)
    ultimately show ?thesis using a by (auto simp: pinned_def assigned_to_def)
  qed
qed

lemma run_op_group: "st_groups s g \<noteq> None \<Longrightarrow> st_groups (run_op e s) g \<noteq> None"
proof (cases "\<exists>h g d f u t. e = AssignGroup h g d f u t")
  case False
  then show "st_groups s g \<noteq> None \<Longrightarrow> st_groups (run_op e s) g \<noteq> None"
    using groups_untouched [of e s] by simp
next
  case True
  then obtain k g' d f u t where e: "e = AssignGroup k g' d f u t" by blast
  assume a: "st_groups s g \<noteq> None"
  show ?thesis
    by (rule assign_cases [of k g' d f u t s]) (use a e in \<open>auto simp: store_helper_defs split: option.splits\<close>)
qed

interpretation group_row: step_machine run_op "\<lambda>s. st_groups s g \<noteq> None \<and> st_up s" for g
  by unfold_locales (use run_op_group run_op_fixed in blast)

lemma assign_other:
  assumes "assigned_to h g s" and "st_up s" and "st_groups s g \<noteq> None" and "g' \<noteq> g"
  shows "\<exists>s'. Store_assign_ancs_group h g' d f u t s = (Ok IdentityConflict, s') \<and>
    conflicted g s' \<and> conflicted g' s' \<and> st_messages s' = st_messages s \<and> st_assignments s' = st_assignments s"
  by (rule assign_cases [of h g' d f u t s])
    (use assms in \<open>auto simp: Store_assign_ancs_group_def call_def Let_def assigned_to_def conflicted_def store_helper_defs
      split: option.splits\<close>)

text \<open>
  C13: A verified group assignment is durable and fails closed. Once a message has been assigned to
  a group, then after any sequence of the store's writing operations the assignment still names
  this group. The rows of the message carry the group's key as their conversation until the message
  is fetched again (which overwrites the key) or another row is given its handle; with foreign keys
  enforced the row also stays, and only fetching it again changes its key. Whenever the message is
  assigned to another group, the answer is a conflict, nothing of the messages and assignments
  changes, and both groups are flagged as conflicted, for ever. Handles stay unique.
\<close>

theorem group_identity_durable:
  assumes "Store_assign_ancs_group h g d f u t s = (Ok Assigned, s0)" and "s1 = fold run_op es s0"
  shows "assigned_to h g s1 \<and>
    ((\<forall>e \<in> set es. \<not> fetches h e \<and> \<not> renames_to h e) \<longrightarrow>
       (\<forall>m \<in> set (st_messages s1). m_map_handle m = h \<longrightarrow> m_conversation_key m = g)) \<and>
    (st_foreign_keys s \<longrightarrow> has_handle h s1 \<and> ((\<forall>e \<in> set es. \<not> fetches h e) \<longrightarrow>
       (\<forall>m \<in> set (st_messages s1). m_map_handle m = h \<longrightarrow> m_conversation_key m = g))) \<and>
    (g' \<noteq> g \<longrightarrow> (\<exists>s2. Store_assign_ancs_group h g' d' f' u' t' s1 = (Ok IdentityConflict, s2) \<and>
       st_messages s2 = st_messages s1 \<and> st_assignments s2 = st_assignments s1 \<and>
       conflicted g (fold run_op es' s2) \<and> conflicted g' (fold run_op es' s2))) \<and>
    (handles_distinct s \<longrightarrow> handles_distinct s1)"
proof -
  note start = assigned_state [OF assms(1)]
  have a: "assigned_to h g s1" using assignment.run_inv start(2) assms(2) by blast
  have rows: "st_groups s1 g \<noteq> None \<and> st_up s1" using group_row.run_inv [of s0 g es] start assms(2) by blast
  have pin: "st_foreign_keys s \<Longrightarrow> pinned h s1" using pinned_message.run_inv start(5) assms(2) by blast
  have keys: "keyed h g s1" if "\<forall>e \<in> set es. \<not> fetches h e" "st_foreign_keys s \<or> (\<forall>e \<in> set es. \<not> renames_to h e)"
    using run_keyed [of h g s0 es] start that assms(2) by blast
  have other: "\<exists>s2. Store_assign_ancs_group h g' d' f' u' t' s1 = (Ok IdentityConflict, s2) \<and>
       st_messages s2 = st_messages s1 \<and> st_assignments s2 = st_assignments s1 \<and>
       conflicted g (fold run_op es' s2) \<and> conflicted g' (fold run_op es' s2)" if "g' \<noteq> g"
    using assign_other [OF a, of g' d' f' u' t'] rows that conflict.run_inv by blast
  show ?thesis
    using a keys other pin start(6) message_store.run_inv [of s0 es] assms(2)
    unfolding keyed_def pinned_def by blast
qed

definition empty_store :: Store where
  "empty_store = \<lparr>st_up = True, st_foreign_keys = True, st_messages = [], st_outbox = [],
     st_cursors = Map.empty, st_meta = Map.empty, st_groups = Map.empty, st_senders = Map.empty,
     st_assignments = Map.empty, st_ambiguous = Map.empty\<rparr>"

definition sample_message :: "string \<Rightarrow> NewMessage" where
  "sample_message h = \<lparr>m_map_handle = h, m_timestamp_ms = 1, m_folder = ''inbox'',
     m_direction = Direction.Received, m_address = ''a'', m_conversation_key = ''k'',
     m_participants = ''a'', m_status = 0, m_synced_at = 1, m_text = ''x'', m_outgoing_status = None\<rparr>"

theorem group_identity_durable_witness:
  "assigned_to ''h'' ''g'' (fold run_op [Upsert 1 (sample_message ''h''),
     AssignGroup ''h'' ''other'' ''O'' ''a'' [] 6, Delete ''h'', ClearAmbiguous ''h'']
     (snd (Store_assign_ancs_group ''h'' ''g'' ''G'' ''a'' [] 5
       (fold run_op [Upsert 1 (sample_message ''h'')] empty_store))))"
proof -
  let ?s = "fold run_op [Upsert 1 (sample_message ''h'')] empty_store"
  have "fst (Store_assign_ancs_group ''h'' ''g'' ''G'' ''a'' [] 5 ?s) = Ok Assigned"
    by (simp add: store_write_defs store_helper_defs call_def empty_store_def
        sample_message_def has_handle_def handle_ref_ok_def Let_def NewMessage.defs)
  then have "Store_assign_ancs_group ''h'' ''g'' ''G'' ''a'' [] 5 ?s =
      (Ok Assigned, snd (Store_assign_ancs_group ''h'' ''g'' ''G'' ''a'' [] 5 ?s))"
    by (metis prod.collapse)
  from group_identity_durable [OF this refl] show ?thesis by blast
qed

text \<open>
  Assigning a message that is already in another group never merges: the answer is
  \<open>IdentityConflict\<close>, both groups are flagged, and messages, assignments, senders and
  ambiguity markers are as before. Otherwise, when the call succeeds, the message is assigned to
  the group, every stored copy of it carries the group's key, and its ambiguity marker is gone.
\<close>

theorem assign_ancs_group_outcome:
  "(case Store_assign_ancs_group h g d f u t s of
      (Inl _, s') \<Rightarrow> s' = s
    | (Inr IdentityConflict, s') \<Rightarrow>
        (\<exists>old. old \<noteq> g \<and> assigned_to h old s \<and> conflicted g s' \<and>
           (st_groups s old \<noteq> None \<longrightarrow> conflicted old s')) \<and>
        st_messages s' = st_messages s \<and> st_assignments s' = st_assignments s \<and>
        st_senders s' = st_senders s \<and> st_ambiguous s' = st_ambiguous s
    | (Inr Assigned, s') \<Rightarrow>
        assigned_to h g s' \<and> st_ambiguous s' h = None \<and>
        (\<forall>m \<in> set (st_messages s'). m_map_handle m = h \<longrightarrow> m_conversation_key m = g) \<and>
        map m_map_handle (st_messages s') = map m_map_handle (st_messages s))"
proof (rule assign_cases [of h g d f u t s])
  assume "Store_assign_ancs_group h g d f u t s = (Err Connection, s)"
  then show ?thesis by simp
next
  fix old assume "st_up s" "assigned_to h old s" "old \<noteq> g"
    "Store_assign_ancs_group h g d f u t s =
         (Ok IdentityConflict, flag_conflict g (flag_conflict old (upsert_group g d t s)))"
  then show ?thesis
    by (auto simp: conflicted_def store_helper_defs split: option.splits intro!: exI [of _ old])
next
  assume "st_up s" "st_assignments s h = None \<or> assigned_to h g s" "handle_ref_ok h s"
    "Store_assign_ancs_group h g d f u t s =
         (Ok Assigned, (update_messages h (\<lambda>m. m\<lparr>m_conversation_key := g\<rparr>)
            (upsert_assignment h g u t (upsert_sender g f t (upsert_group g d t s))))
            \<lparr>st_ambiguous := (st_ambiguous s)(h := None)\<rparr>)"
  moreover from this(2) have "assigned_to h g (upsert_assignment h g u t
      (upsert_sender g f t (upsert_group g d t s)))"
    by (auto simp: assigned_to_def upsert_assignment_def upsert_sender_def upsert_group_def)
  moreover have keys: "m_conversation_key m = g"
    if "m \<in> set (st_messages (update_messages h (\<lambda>m. m\<lparr>m_conversation_key := g\<rparr>) s1))" "m_map_handle m = h"
    for m s1
  proof -
    from that(1) obtain m0 where "m = (if m_map_handle m0 = h then m0\<lparr>m_conversation_key := g\<rparr> else m0)"
      by (auto simp: update_messages_def simp del: if_image_distrib)
    with that(2) show ?thesis by (cases "m_map_handle m0 = h") simp_all
  qed
  moreover have "map m_map_handle (st_messages (update_messages h (\<lambda>m. m\<lparr>m_conversation_key := g\<rparr>)
      (upsert_assignment h g u t (upsert_sender g f t (upsert_group g d t s))))) =
      map m_map_handle (st_messages s)"
    by (subst update_messages_handles) (simp_all add: messages_untouched)
  moreover have "assigned_to h g ((update_messages h k s1)\<lparr>st_ambiguous := a\<rparr>) = assigned_to h g s1"
    for k s1 a
    by (simp add: assigned_to_def update_messages_def)
  ultimately show ?thesis by simp
qed

theorem assign_ancs_group_outcome_witness:
  "conflicted ''o'' (snd (Store_assign_ancs_group ''h'' ''o'' ''O'' ''a'' [] 6
     (fold run_op [Upsert 1 (sample_message ''h''), AssignGroup ''h'' ''g'' ''G'' ''a'' [] 5] empty_store)))"
proof -
  define s where "s = fold run_op [Upsert 1 (sample_message ''h''), AssignGroup ''h'' ''g'' ''G'' ''a'' [] 5] empty_store"
  have "fst (Store_assign_ancs_group ''h'' ''o'' ''O'' ''a'' [] 6 s) = Ok IdentityConflict"
    by (simp add: s_def store_write_defs store_helper_defs call_def empty_store_def
        sample_message_def has_handle_def handle_ref_ok_def Let_def NewMessage.defs)
  moreover obtain r s' where "Store_assign_ancs_group ''h'' ''o'' ''O'' ''a'' [] 6 s = (r, s')" by force
  ultimately have "conflicted ''o'' (snd (Store_assign_ancs_group ''h'' ''o'' ''O'' ''a'' [] 6 s))"
    using assign_ancs_group_outcome [where h = "''h''" and g = "''o''" and d = "''O''" and f = "''a''"
        and u = "[]" and t = 6 and s = s] by auto
  then show ?thesis by (simp only: s_def)
qed

section \<open>The life of an outgoing message\<close>

lemma find_append_new:
  "\<forall>m \<in> set xs. \<not> P m \<Longrightarrow> P y \<Longrightarrow> List.find P (xs @ [y]) = Some y"
  by (induction xs) auto

text \<open>
  An outgoing message goes through the store atomically and reaches the confirmed state:
  after \<open>enqueue_send\<close> its outbox entry is pending and linked to the speculative row;
  \<open>complete_send\<close> with a new device handle removes it from the pending entries and renames
  that very row, keeping its text, to the handle with status \<open>SentUnconfirmed\<close>, leaving no row
  under the placeholder; \<open>reconcile_outgoing\<close> then confirms it.
\<close>

theorem outgoing_message_life:
  assumes "st_up s" and "rid \<notin> m_rowid ` set (st_messages s)" and "oid \<notin> ob_id ` set (st_outbox s)"
    and "\<not> has_handle (placeholder oid) s" and "\<not> has_handle new s" and "new \<noteq> placeholder oid"
    and "st_assignments s (placeholder oid) = None"
    and "Store_enqueue_send rid oid msg command payload t s = (r1, s1)"
    and "Store_complete_send oid (placeholder oid) new now s1 = (r2, s2)"
    and "Store_reconcile_outgoing new s2 = (r3, s3)"
  shows "r1 = Ok (rid, oid) \<and> r2 = Ok () \<and> r3 = Ok () \<and>
    (\<exists>row \<in> set (st_outbox s1). ob_id row = oid \<and> ob_status row = OutboxStatus.Queued \<and>
       ob_local_message_id row = Some rid) \<and>
    (\<forall>pend. fst (Store_pending s2) = Ok pend \<longrightarrow> oid \<notin> ob_id ` set pend) \<and>
    \<not> has_handle (placeholder oid) s2 \<and>
    (\<exists>m. fst (Store_get_by_handle new s2) = Ok (Some m) \<and> m_rowid m = rid \<and>
       m_text m = m_text msg \<and> m_outgoing_status m = Some OutgoingStatus.SentUnconfirmed) \<and>
    (\<exists>m. fst (Store_get_by_handle new s3) = Ok (Some m) \<and> m_rowid m = rid \<and>
       m_outgoing_status m = Some OutgoingStatus.SentConfirmed)"
proof -
  let ?ph = "placeholder oid"
  let ?row = "NewMessage.extend (msg\<lparr>m_map_handle := ?ph\<rparr>) \<lparr>m_rowid = rid\<rparr>"
  let ?ob = "(new_outbox_row oid command payload None t)\<lparr>ob_local_message_id := Some rid\<rparr>"
  let ?new = "?row\<lparr>m_map_handle := new, m_outgoing_status := Some OutgoingStatus.SentUnconfirmed\<rparr>"
  let ?fin = "?ob\<lparr>ob_status := OutboxStatus.Sent, ob_resolved_at := Some now, ob_error := None\<rparr>"
  have old_out: "map (\<lambda>r. if ob_id r = oid then f r else r) (st_outbox s) = st_outbox s" for f
    using assms(3) by (intro map_idI) auto
  have old_msg: "map (\<lambda>m. if m_map_handle m = ?ph then f m else m) (st_messages s) = st_messages s" for f
    using assms(4) by (intro map_idI) (metis has_handle_def image_eqI)
  have new_msg: "map (\<lambda>m. if m_map_handle m = new then f m else m) (st_messages s) = st_messages s" for f
    using assms(5) by (intro map_idI) (metis has_handle_def image_eqI)
  have s1: "r1 = Ok (rid, oid)" "s1 = s\<lparr>st_outbox := st_outbox s @ [?ob],
      st_messages := st_messages s @ [?row]\<rparr>"
    using assms(1,4,8) old_out
    by (auto simp: Store_enqueue_send_def call_def insert_message_def insert_outbox_def
        update_outbox_def has_handle_def new_outbox_row_def NewMessage.defs Let_def)
  have s2: "r2 = Ok ()" "st_up s2" "st_outbox s2 = st_outbox s @ [?fin]"
      "st_messages s2 = st_messages s @ [?new]"
    using assms(1,5,6,7,9) old_out old_msg s1
    by (auto simp: Store_complete_send_def call_def rename_message_def update_outbox_def
        update_messages_def has_handle_def new_outbox_row_def NewMessage.defs Let_def
        split: if_splits)
  have s3: "r3 = Ok ()" "st_up s3" "st_messages s3 = st_messages s @
      [?new\<lparr>m_outgoing_status := Some OutgoingStatus.SentConfirmed\<rparr>]"
    using assms(1,10) new_msg s2
    by (auto simp: Store_reconcile_outgoing_def call_def update_messages_def NewMessage.defs)
  have found: "List.find (\<lambda>m. m_map_handle m = new) (st_messages s @ [m]) = Some m"
    if "m_map_handle m = new" for m
    using assms(5) that by (intro find_append_new) (metis has_handle_def image_eqI, simp)
  have get2: "fst (Store_get_by_handle new s2) = Ok (Some ?new)"
    using s2 assms(1) found [of ?new] by (simp add: Store_get_by_handle_def call_def)
  have get3: "fst (Store_get_by_handle new s3) =
      Ok (Some (?new\<lparr>m_outgoing_status := Some OutgoingStatus.SentConfirmed\<rparr>))"
    using s3 found [of "?new\<lparr>m_outgoing_status := Some OutgoingStatus.SentConfirmed\<rparr>"]
    by (simp add: Store_get_by_handle_def call_def)
  have pend: "\<forall>pend. fst (Store_pending s2) = Ok pend \<longrightarrow> oid \<notin> ob_id ` set pend"
    using s2 assms(1,3) by (auto simp: Store_pending_def call_def)
  have gone: "\<not> has_handle ?ph s2"
    using s2 assms(4,6) by (auto simp: has_handle_def)
  show ?thesis
    using s1 s2(1) s3(1) get2 get3 pend gone by (auto simp: new_outbox_row_def NewMessage.defs)
qed

theorem outgoing_message_life_witness:
  "\<exists>s3 m. fst (Store_get_by_handle ''real'' s3) = Ok (Some m) \<and>
     m_outgoing_status m = Some OutgoingStatus.SentConfirmed"
proof -
  obtain r1 s1 where 1: "Store_enqueue_send 1 1 (sample_message ''x'') ''send'' ''p'' 3 empty_store = (r1, s1)"
    by force
  obtain r2 s2 where 2: "Store_complete_send 1 (placeholder 1) ''real'' 4 s1 = (r2, s2)" by force
  obtain r3 s3 where 3: "Store_reconcile_outgoing ''real'' s2 = (r3, s3)" by force
  have "''real'' \<noteq> placeholder 1" by (simp add: placeholder_def)
  from outgoing_message_life [OF _ _ _ _ _ this _ 1 2 3] show ?thesis
    by (auto simp: empty_store_def has_handle_def)
qed

text \<open>
  A later synchronisation undoes a verified group assignment. When a message that was
  assigned to a group is fetched again, \<open>upsert\<close> overwrites the conversation key of the stored
  row with the key of the fetched message, while the assignment table still names the group: the
  message leaves its group's thread without any conflict being recorded.
\<close>

theorem resync_detaches_group_message:
  assumes "st_up s" and "has_handle h s" and "assigned_to h g s" and "m_map_handle msg = h"
  shows "fst (Store_upsert rid msg s) = Ok () \<and>
    (\<forall>m \<in> set (st_messages (snd (Store_upsert rid msg s))). m_map_handle m = h \<longrightarrow>
       m_conversation_key m = m_conversation_key msg) \<and>
    assigned_to h g (snd (Store_upsert rid msg s)) \<and>
    st_groups (snd (Store_upsert rid msg s)) = st_groups s"
  using assms
  by (auto simp: Store_upsert_def call_def insert_message_def update_messages_def assigned_to_def)

theorem resync_detaches_group_message_witness:
  "\<exists>s. assigned_to ''h'' ''g'' s \<and>
     (\<forall>m \<in> set (st_messages (snd (Store_upsert 2 (sample_message ''h'') s))). m_map_handle m = ''h'' \<longrightarrow>
       m_conversation_key m = ''k'')"
proof -
  let ?s = "fold run_op [Upsert 1 (sample_message ''h''), AssignGroup ''h'' ''g'' ''G'' ''a'' [] 5] empty_store"
  have "st_up ?s" "has_handle ''h'' ?s" "assigned_to ''h'' ''g'' ?s"
    by (simp_all add: assigned_to_def store_write_defs store_helper_defs call_def empty_store_def
        sample_message_def has_handle_def handle_ref_ok_def Let_def NewMessage.defs)
  from resync_detaches_group_message [OF this, of "sample_message ''h''" 2] this(3) show ?thesis
    by (intro exI [of _ ?s]) (auto simp: sample_message_def)
qed

end
