(* ===== verification/Ancs_Groups.thy ===== *)
theory Ancs_Groups
  imports Message_Store Media_Auth Ancs_Transport
begin

text \<open>
  \<open>crates/analogconnectd/src/ancs_groups.rs\<close>: the normalised identity of an ANCS subtitle, the
  bounded correlator that pairs ANCS notifications with MAP messages and refuses ambiguous
  evidence, and the application of a correlation to the message store. Unicode normalisation,
  case folding and SHA-256 come from other crates and are the fields of a parameter.
\<close>

record unicode_hash =
  env_nfkc :: "string \<Rightarrow> string"
  env_case_fold :: "string \<Rightarrow> string"
  env_sha256 :: "string \<Rightarrow> u8 list"

text \<open>SHA-256 returns 32 bytes.\<close>

definition digest_ok :: "unicode_hash \<Rightarrow> bool" where
  "digest_ok env \<longleftrightarrow> (\<forall>s. length (env_sha256 env s) = 32)"

definition HASH_DOMAIN :: string where
  "HASH_DOMAIN = ''ancs-subtitle-v1'' @ [CHR 0x00]"

definition normalize_ancs_subtitle_v1 :: "unicode_hash \<Rightarrow> string \<Rightarrow> string" where
  "normalize_ancs_subtitle_v1 env v =
     join_str '' '' (split_whitespace (env_case_fold env (env_nfkc env v)))"

definition groups_encode_hex :: "u8 list \<Rightarrow> string" where
  "groups_encode_hex bytes =
     concat (map (\<lambda>byte. [''0123456789abcdef'' ! unat (drop_bit 4 byte),
                          ''0123456789abcdef'' ! unat (byte AND 0x0f)]) bytes)"

definition ancs_group_id :: "unicode_hash \<Rightarrow> string \<Rightarrow> string option" where
  "ancs_group_id env v =
     (let normalized = normalize_ancs_subtitle_v1 env v
      in if normalized = [] then None
         else Some (''ancs-v1-'' @ groups_encode_hex (env_sha256 env (HASH_DOMAIN @ normalized))))"

section \<open>The correlator\<close>

record PendingAncsNotification =
  pn_notification_uid :: uid
  pn_title :: string
  pn_subtitle :: string
  pn_observed_unix_millis :: int

record PendingMapMessage =
  pm_map_handle :: string
  pm_sender :: string
  pm_sender_display_name :: "string option"
  pm_observed_unix_millis :: int

datatype CorrelationResult =
    Group (cr_map_handle: string) (cr_notification_uid: uid) (cr_group_id: string)
      (cr_display_subtitle: string) (cr_sender: string) (cr_observed_unix_millis: int)
  | DirectCandidate (cr_map_handle: string) (cr_notification_uid: uid)
  | Pending
  | Ambiguous (cr_map_handles: "string list") (cr_observed_unix_millis: int)

record AncsMapCorrelator =
  co_notifications :: "PendingAncsNotification list"
  co_messages :: "PendingMapMessage list"
  co_completed_uids :: "uid list"
  co_max_delta_millis :: u64

definition AncsMapCorrelator_new :: "u64 \<Rightarrow> AncsMapCorrelator" where
  "AncsMapCorrelator_new max_delta_millis =
     \<lparr>co_notifications = [], co_messages = [], co_completed_uids = [],
      co_max_delta_millis = max_delta_millis\<rparr>"

text \<open>\<open>i64::abs_diff\<close> is exact in \<open>u64\<close>, so both sides are compared as numbers.\<close>

definition AncsMapCorrelator_matches ::
  "unicode_hash \<Rightarrow> AncsMapCorrelator \<Rightarrow> PendingAncsNotification \<Rightarrow> PendingMapMessage \<Rightarrow> bool" where
  "AncsMapCorrelator_matches env self notification message =
     (let sender_label = (case pm_sender_display_name message of
            None \<Rightarrow> pm_sender message | Some name \<Rightarrow> name)
      in \<bar>pn_observed_unix_millis notification - pm_observed_unix_millis message\<bar>
           \<le> uint (co_max_delta_millis self)
         \<and> normalize_ancs_subtitle_v1 env (pn_title notification)
           = normalize_ancs_subtitle_v1 env sender_label)"

definition AncsMapCorrelator_remember_completed :: "uid \<Rightarrow> AncsMapCorrelator \<Rightarrow> AncsMapCorrelator" where
  "AncsMapCorrelator_remember_completed uid self =
     self\<lparr>co_completed_uids := evict 64 (co_completed_uids self @ [uid])\<rparr>"

definition correlate_pair ::
  "unicode_hash \<Rightarrow> PendingAncsNotification \<Rightarrow> PendingMapMessage \<Rightarrow> CorrelationResult" where
  "correlate_pair env notification message =
     (case ancs_group_id env (pn_subtitle notification) of
        None \<Rightarrow> DirectCandidate (pm_map_handle message) (pn_notification_uid notification)
      | Some group_id \<Rightarrow>
          Group (pm_map_handle message) (pn_notification_uid notification) group_id
            (pn_subtitle notification) (pm_sender message) (pn_observed_unix_millis notification))"

text \<open>The indices of the entries a predicate holds for, and removal by index.\<close>

definition candidate_indices :: "('a \<Rightarrow> bool) \<Rightarrow> 'a list \<Rightarrow> nat list" where
  "candidate_indices P xs = filter (\<lambda>i. P (xs ! i)) [0..<length xs]"

definition remove_at :: "nat \<Rightarrow> 'a list \<Rightarrow> 'a list" where
  "remove_at i xs = take i xs @ drop (Suc i) xs"

text \<open>\<open>iter_mut().find(..)\<close> and assignment through the reference.\<close>

fun replace_first :: "('a \<Rightarrow> bool) \<Rightarrow> 'a \<Rightarrow> 'a list \<Rightarrow> 'a list" where
  "replace_first P y [] = []"
| "replace_first P y (x # xs) = (if P x then y # xs else x # replace_first P y xs)"

definition AncsMapCorrelator_observe_ancs ::
  "unicode_hash \<Rightarrow> PendingAncsNotification \<Rightarrow> AncsMapCorrelator \<Rightarrow>
   CorrelationResult option \<times> AncsMapCorrelator" where
  "AncsMapCorrelator_observe_ancs env notification self =
     (let observed = pn_observed_unix_millis notification;
          uid = pn_notification_uid notification;
          same = (\<lambda>existing. pn_notification_uid existing = uid)
      in if uid \<in> set (co_completed_uids self) then (None, self)
         else if list_ex same (co_notifications self)
         then (None, self\<lparr>co_notifications := replace_first same notification (co_notifications self)\<rparr>)
         else let candidates = candidate_indices (AncsMapCorrelator_matches env self notification)
                    (co_messages self)
           in case candidates of
                [index] \<Rightarrow>
                  (let message = co_messages self ! index;
                       self = self\<lparr>co_messages := remove_at index (co_messages self)\<rparr>
                   in (Some (correlate_pair env notification message),
                       AncsMapCorrelator_remember_completed uid self))
              | _ \<Rightarrow>
                  let self = self\<lparr>co_notifications := evict 32 (co_notifications self @ [notification])\<rparr>
                  in (if 1 < length candidates
                      then Some (Ambiguous (map (\<lambda>i. pm_map_handle (co_messages self ! i)) candidates) observed)
                      else None, self))"

definition AncsMapCorrelator_correlate_map ::
  "unicode_hash \<Rightarrow> PendingMapMessage \<Rightarrow> AncsMapCorrelator \<Rightarrow>
   CorrelationResult \<times> AncsMapCorrelator" where
  "AncsMapCorrelator_correlate_map env message self =
     (let map_handle = pm_map_handle message;
          observed = pm_observed_unix_millis message;
          candidates = candidate_indices
            (\<lambda>notification. AncsMapCorrelator_matches env self notification message)
            (co_notifications self)
      in case candidates of
           [index] \<Rightarrow>
             (let notification = co_notifications self ! index;
                  self = self\<lparr>co_notifications := remove_at index (co_notifications self)\<rparr>
              in (correlate_pair env notification message,
                  AncsMapCorrelator_remember_completed (pn_notification_uid notification) self))
         | _ \<Rightarrow>
             let self = (if candidates = []
                            \<and> \<not> list_ex (\<lambda>existing. pm_map_handle existing = map_handle) (co_messages self)
                         then self\<lparr>co_messages := evict 32 (co_messages self @ [message])\<rparr>
                         else self)
             in (if candidates = [] then Pending else Ambiguous [map_handle] observed, self))"

section \<open>Applying a correlation to the store\<close>

datatype ApplyCorrelationResult = GroupAssigned | DirectCandidate | Ambiguous | IdentityConflict

fun mark_all :: "string list \<Rightarrow> int \<Rightarrow> unit db" where
  "mark_all [] observed s = (Ok (), s)"
| "mark_all (h # hs) observed s =
     (case Store_mark_ancs_ambiguous h observed s of
        (Inl e, s) \<Rightarrow> (Err e, s)
      | (Inr _, s) \<Rightarrow> mark_all hs observed s)"

fun apply_correlation :: "CorrelationResult \<Rightarrow> ApplyCorrelationResult db" where
  "apply_correlation (CorrelationResult.DirectCandidate h _) s =
     (case Store_clear_ancs_ambiguous h s of
        (Inl e, s) \<Rightarrow> (Err e, s)
      | (Inr _, s) \<Rightarrow> (Ok ApplyCorrelationResult.DirectCandidate, s))"
| "apply_correlation CorrelationResult.Pending s = (Ok ApplyCorrelationResult.Ambiguous, s)"
| "apply_correlation (CorrelationResult.Ambiguous hs observed) s =
     (case mark_all hs observed s of
        (Inl e, s) \<Rightarrow> (Err e, s)
      | (Inr _, s) \<Rightarrow> (Ok ApplyCorrelationResult.Ambiguous, s))"
| "apply_correlation (CorrelationResult.Group h uid gid subtitle sender observed) s =
     (case Store_assign_ancs_group h gid subtitle sender (uid_bytes uid) observed s of
        (Inl e, s) \<Rightarrow> (Err e, s)
      | (Inr Assigned, s) \<Rightarrow> (Ok ApplyCorrelationResult.GroupAssigned, s)
      | (Inr GroupAssignmentResult.IdentityConflict, s) \<Rightarrow>
          (Ok ApplyCorrelationResult.IdentityConflict, s))"

section \<open>Lists and indices\<close>

lemma set_candidate_indices: "i \<in> set (candidate_indices P xs) \<longleftrightarrow> i < length xs \<and> P (xs ! i)"
  by (auto simp: candidate_indices_def)

lemma candidate_indices_Nil: "candidate_indices P xs = [] \<longleftrightarrow> (\<forall>x \<in> set xs. \<not> P x)"
  by (auto simp: candidate_indices_def filter_empty_conv all_set_conv_all_nth)

lemma list_ex_image: "list_ex (\<lambda>x. f x = y) xs \<longleftrightarrow> y \<in> f ` set xs"
  by (induction xs) auto

lemma candidate_indices_single:
  assumes "candidate_indices P xs = [i]"
  shows "i < length xs \<and> P (xs ! i) \<and> (\<forall>j < length xs. P (xs ! j) \<longrightarrow> j = i)"
proof -
  have "j \<in> set (candidate_indices P xs) \<longleftrightarrow> j = i" for j using assms by simp
  then show ?thesis by (auto simp: set_candidate_indices)
qed

lemma candidate_indices_append_new:
  assumes "\<forall>x \<in> set xs. \<not> P x" and "P y"
  shows "candidate_indices P (xs @ [y]) = [length xs]"
proof -
  have "filter (\<lambda>i. P ((xs @ [y]) ! i)) [0..<length xs] = []"
    using assms(1) by (simp add: filter_empty_conv nth_append)
  with assms(2) show ?thesis by (simp add: candidate_indices_def)
qed

lemma set_remove_at: "set (remove_at i xs) \<subseteq> set xs"
  by (auto simp: remove_at_def dest: in_set_takeD in_set_dropD)

lemma map_remove_at: "map f (remove_at i xs) = remove_at i (map f xs)"
  by (simp add: remove_at_def take_map drop_map)

lemma distinct_remove_at: "distinct xs \<Longrightarrow> distinct (remove_at i xs)"
  by (auto simp: remove_at_def set_take_disj_set_drop_if_distinct)

lemma nth_notin_remove_at: "distinct xs \<Longrightarrow> i < length xs \<Longrightarrow> xs ! i \<notin> set (remove_at i xs)"
  using id_take_nth_drop [of i xs] by (metis Un_iff distinct_append distinct.simps(2) remove_at_def
      set_append disjoint_iff list.set_intros(1))

lemma length_remove_at: "length (remove_at i xs) \<le> length xs"
  by (simp add: remove_at_def)

lemma evict_append_ex: "0 < n \<Longrightarrow> \<exists>ys. evict n (xs @ [y]) = ys @ [y] \<and> set ys \<subseteq> set xs"
  by (intro exI [of _ "drop (Suc (length xs) - n) xs"]) (simp add: evict_drop set_drop_subset)

lemma map_replace_first:
  "(\<And>x. P x \<Longrightarrow> f x = f y) \<Longrightarrow> map f (replace_first P y xs) = map f xs"
  by (induction xs) auto

lemma length_replace_first [simp]: "length (replace_first P y xs) = length xs"
  by (induction xs) auto

section \<open>Group identifiers\<close>

lemma groups_encode_hex_eq: "groups_encode_hex = encode_hex"
  by (simp add: groups_encode_hex_def encode_hex_def HEX_def fun_eq_iff)

text \<open>
  A group identifier exists exactly for subtitles whose normalisation is not empty; it is
  \<open>ancs-v1-\<close> followed by 64 characters, subtitles with the same normalisation share it, and two
  subtitles have the same identifier only when the digests of their domain-separated
  normalisations agree.
\<close>

theorem ancs_group_id_stable:
  assumes "digest_ok env"
  shows "(ancs_group_id env v = None \<longleftrightarrow> normalize_ancs_subtitle_v1 env v = []) \<and>
    (normalize_ancs_subtitle_v1 env v = normalize_ancs_subtitle_v1 env w \<longrightarrow>
       ancs_group_id env v = ancs_group_id env w) \<and>
    (\<forall>gid. ancs_group_id env v = Some gid \<longrightarrow> prefix ''ancs-v1-'' gid \<and> length gid = 72) \<and>
    (\<forall>gid. ancs_group_id env v = Some gid \<and> ancs_group_id env w = Some gid \<longrightarrow>
       env_sha256 env (HASH_DOMAIN @ normalize_ancs_subtitle_v1 env v) =
       env_sha256 env (HASH_DOMAIN @ normalize_ancs_subtitle_v1 env w))"
proof -
  have inj: "a = b" if "encode_hex a = encode_hex b" "length a = 32" "length b = 32" for a b
    by (rule token_hex.encode_inj [of a b "encode_hex a"]) (simp_all only: TOKEN_BYTES_def that)
  have len: "length (env_sha256 env s) = 32" for s using assms by (simp add: digest_ok_def)
  have form: "ancs_group_id env x = Some gid \<longleftrightarrow> normalize_ancs_subtitle_v1 env x \<noteq> [] \<and>
      gid = ''ancs-v1-'' @ encode_hex (env_sha256 env (HASH_DOMAIN @ normalize_ancs_subtitle_v1 env x))"
    for x gid
    by (auto simp: ancs_group_id_def Let_def groups_encode_hex_eq)
  have none: "ancs_group_id env v = None \<longleftrightarrow> normalize_ancs_subtitle_v1 env v = []"
    by (simp add: ancs_group_id_def Let_def)
  have same: "normalize_ancs_subtitle_v1 env v = normalize_ancs_subtitle_v1 env w \<longrightarrow>
       ancs_group_id env v = ancs_group_id env w"
    by (simp add: ancs_group_id_def)
  have shape: "\<forall>gid. ancs_group_id env v = Some gid \<longrightarrow> prefix ''ancs-v1-'' gid \<and> length gid = 72"
    unfolding form using len by (auto simp only: prefixI length_append length_encode_hex) simp
  have digests: "\<forall>gid. ancs_group_id env v = Some gid \<and> ancs_group_id env w = Some gid \<longrightarrow>
       env_sha256 env (HASH_DOMAIN @ normalize_ancs_subtitle_v1 env v) =
       env_sha256 env (HASH_DOMAIN @ normalize_ancs_subtitle_v1 env w)"
    unfolding form using inj len by (metis same_append_eq)
  show ?thesis using none same shape digests by (intro conjI)
qed

definition identity_env :: unicode_hash where
  "identity_env = \<lparr>env_nfkc = (\<lambda>s. s), env_case_fold = (\<lambda>s. s),
     env_sha256 = (\<lambda>s. replicate 32 (word_of_nat (length s)))\<rparr>"

lemma identity_env_ok: "digest_ok identity_env"
  by (simp add: digest_ok_def identity_env_def)

theorem ancs_group_id_stable_witness:
  "ancs_group_id identity_env ''Book  Club'' = ancs_group_id identity_env ''Book Club''"
proof -
  have "normalize_ancs_subtitle_v1 identity_env ''Book  Club'' =
      normalize_ancs_subtitle_v1 identity_env ''Book Club''"
    by (simp add: normalize_ancs_subtitle_v1_def identity_env_def split_whitespace_def
        byte_of_def is_continuation_def white_space_def)
  then show ?thesis using ancs_group_id_stable [OF identity_env_ok] by blast
qed

section \<open>The correlator's window\<close>

interpretation correlator_uids: bounded_memory
  AncsMapCorrelator_remember_completed co_completed_uids "\<lambda>_. 64"
  by unfold_locales (simp_all add: AncsMapCorrelator_remember_completed_def)

datatype correlator_event =
  ObserveAncs PendingAncsNotification | CorrelateMap PendingMapMessage

fun correlator_step ::
  "unicode_hash \<Rightarrow> correlator_event \<Rightarrow> AncsMapCorrelator \<Rightarrow> AncsMapCorrelator" where
  "correlator_step env (ObserveAncs n) c = snd (AncsMapCorrelator_observe_ancs env n c)"
| "correlator_step env (CorrelateMap m) c = snd (AncsMapCorrelator_correlate_map env m c)"

fun correlator_result ::
  "unicode_hash \<Rightarrow> correlator_event \<Rightarrow> AncsMapCorrelator \<Rightarrow> CorrelationResult option" where
  "correlator_result env (ObserveAncs n) c = fst (AncsMapCorrelator_observe_ancs env n c)"
| "correlator_result env (CorrelateMap m) c = Some (fst (AncsMapCorrelator_correlate_map env m c))"

definition correlator_inv :: "AncsMapCorrelator \<Rightarrow> bool" where
  "correlator_inv c \<longleftrightarrow>
     length (co_notifications c) \<le> 32 \<and> length (co_messages c) \<le> 32 \<and>
     length (co_completed_uids c) \<le> 64 \<and>
     distinct (map pn_notification_uid (co_notifications c)) \<and>
     distinct (map pm_map_handle (co_messages c)) \<and>
     distinct (co_completed_uids c) \<and>
     pn_notification_uid ` set (co_notifications c) \<inter> set (co_completed_uids c) = {}"

text \<open>What one event does, branch by branch.\<close>

lemma observe_cases:
  obtains (ignored) "pn_notification_uid n \<in> set (co_completed_uids c)"
      "AncsMapCorrelator_observe_ancs env n c = (None, c)"
  | (updated) "pn_notification_uid n \<notin> set (co_completed_uids c)"
      "pn_notification_uid n \<in> pn_notification_uid ` set (co_notifications c)"
      "AncsMapCorrelator_observe_ancs env n c =
        (None, c\<lparr>co_notifications := replace_first
           (\<lambda>x. pn_notification_uid x = pn_notification_uid n) n (co_notifications c)\<rparr>)"
  | (paired) i where "pn_notification_uid n \<notin> set (co_completed_uids c)"
      "pn_notification_uid n \<notin> pn_notification_uid ` set (co_notifications c)"
      "candidate_indices (AncsMapCorrelator_matches env c n) (co_messages c) = [i]"
      "AncsMapCorrelator_observe_ancs env n c =
        (Some (correlate_pair env n (co_messages c ! i)),
         AncsMapCorrelator_remember_completed (pn_notification_uid n)
           (c\<lparr>co_messages := remove_at i (co_messages c)\<rparr>))"
  | (queued) r where "pn_notification_uid n \<notin> set (co_completed_uids c)"
      "pn_notification_uid n \<notin> pn_notification_uid ` set (co_notifications c)"
      "AncsMapCorrelator_observe_ancs env n c =
        (r, c\<lparr>co_notifications := evict 32 (co_notifications c @ [n])\<rparr>)"
      "r = None \<or> (\<exists>hs t. r = Some (CorrelationResult.Ambiguous hs t))"
      "(r = None) = (\<forall>m \<in> set (co_messages c). \<not> AncsMapCorrelator_matches env c n m)"
proof (cases "pn_notification_uid n \<in> set (co_completed_uids c)")
  case True
  then show ?thesis using ignored by (simp add: AncsMapCorrelator_observe_ancs_def)
next
  case fresh: False
  show ?thesis
  proof (cases "pn_notification_uid n \<in> pn_notification_uid ` set (co_notifications c)")
    case True
    then have "list_ex (\<lambda>x. pn_notification_uid x = pn_notification_uid n) (co_notifications c)"
      by (simp add: list_ex_image)
    then show ?thesis
      using fresh True updated by (simp add: AncsMapCorrelator_observe_ancs_def)
  next
    case False
    then have new: "\<not> list_ex (\<lambda>x. pn_notification_uid x = pn_notification_uid n) (co_notifications c)"
      by (simp add: list_ex_image)
    let ?is = "candidate_indices (AncsMapCorrelator_matches env c n) (co_messages c)"
    show ?thesis
    proof (cases "\<exists>i. ?is = [i]")
      case True
      then obtain i where "?is = [i]" ..
      with fresh new False show ?thesis
        by (intro paired [of i]) (simp_all add: AncsMapCorrelator_observe_ancs_def Let_def)
    next
      case none: False
      let ?c = "c\<lparr>co_notifications := evict 32 (co_notifications c @ [n])\<rparr>"
      show ?thesis
      proof (cases ?is)
        case Nil
        then show ?thesis
          using fresh new False
          by (intro queued [of None])
            (simp_all add: AncsMapCorrelator_observe_ancs_def Let_def candidate_indices_Nil [symmetric])
      next
        case (Cons i js)
        with none obtain j ks where two: "?is = i # j # ks" by (cases js) auto
        then have "\<not> (\<forall>m \<in> set (co_messages c). \<not> AncsMapCorrelator_matches env c n m)"
          using candidate_indices_Nil [of "AncsMapCorrelator_matches env c n" "co_messages c"] by simp
        then show ?thesis
          using fresh new False two
          by (intro queued [of "Some (CorrelationResult.Ambiguous
              (map (\<lambda>i. pm_map_handle (co_messages c ! i)) ?is) (pn_observed_unix_millis n))"])
            (simp_all add: AncsMapCorrelator_observe_ancs_def Let_def)
      qed
    qed
  qed
qed

lemma correlate_cases:
  obtains (paired) i where
      "candidate_indices (\<lambda>n. AncsMapCorrelator_matches env c n m) (co_notifications c) = [i]"
      "AncsMapCorrelator_correlate_map env m c =
        (correlate_pair env (co_notifications c ! i) m,
         AncsMapCorrelator_remember_completed (pn_notification_uid (co_notifications c ! i))
           (c\<lparr>co_notifications := remove_at i (co_notifications c)\<rparr>))"
  | (pending) "\<forall>n \<in> set (co_notifications c). \<not> AncsMapCorrelator_matches env c n m"
      "AncsMapCorrelator_correlate_map env m c =
        (CorrelationResult.Pending,
         if pm_map_handle m \<in> pm_map_handle ` set (co_messages c) then c
         else c\<lparr>co_messages := evict 32 (co_messages c @ [m])\<rparr>)"
  | (ambiguous) "\<exists>n \<in> set (co_notifications c). AncsMapCorrelator_matches env c n m"
      "AncsMapCorrelator_correlate_map env m c =
        (CorrelationResult.Ambiguous [pm_map_handle m] (pm_observed_unix_millis m), c)"
proof -
  let ?is = "candidate_indices (\<lambda>n. AncsMapCorrelator_matches env c n m) (co_notifications c)"
  have ex: "list_ex (\<lambda>x. pm_map_handle x = pm_map_handle m) (co_messages c) =
      (pm_map_handle m \<in> pm_map_handle ` set (co_messages c))"
    by (simp add: list_ex_image)
  show ?thesis
  proof (cases ?is)
    case Nil
    then show ?thesis
      by (intro pending) (auto simp: candidate_indices_Nil [symmetric]
          AncsMapCorrelator_correlate_map_def ex Let_def)
  next
    case (Cons i js)
    show ?thesis
    proof (cases js)
      case Nil
      with Cons show ?thesis
        by (intro paired [of i]) (simp_all add: AncsMapCorrelator_correlate_map_def Let_def)
    next
      case (Cons j ks)
      with \<open>?is = i # js\<close> have "?is \<noteq> []" and two: "?is = i # j # ks" by simp_all
      then show ?thesis
        using candidate_indices_Nil [of "\<lambda>n. AncsMapCorrelator_matches env c n m" "co_notifications c"]
        by (intro ambiguous) (blast, simp add: AncsMapCorrelator_correlate_map_def Let_def)
    qed
  qed
qed

lemma remember_completed_simps [simp]:
  "co_notifications (AncsMapCorrelator_remember_completed u c) = co_notifications c"
  "co_messages (AncsMapCorrelator_remember_completed u c) = co_messages c"
  "co_max_delta_millis (AncsMapCorrelator_remember_completed u c) = co_max_delta_millis c"
  by (simp_all add: AncsMapCorrelator_remember_completed_def)

lemma set_remember:
  "set (co_completed_uids (AncsMapCorrelator_remember_completed u c)) \<subseteq>
     insert u (set (co_completed_uids c))"
  using correlator_uids.remember_no_invention by blast

lemma distinct_remember:
  "distinct (co_completed_uids c) \<Longrightarrow> u \<notin> set (co_completed_uids c) \<Longrightarrow>
   distinct (co_completed_uids (AncsMapCorrelator_remember_completed u c))"
  by (simp add: AncsMapCorrelator_remember_completed_def distinct_evict)

lemma distinct_evict_append:
  assumes "distinct (map f xs)" and "f y \<notin> f ` set xs"
  shows "distinct (map f (evict n (xs @ [y])))"
  using assms by (simp add: map_evict distinct_evict)

lemma disjoint_remember:
  "C \<subseteq> insert u B \<Longrightarrow> A' \<subseteq> A \<Longrightarrow> u \<notin> A' \<Longrightarrow> A \<inter> B = {} \<Longrightarrow> A' \<inter> C = {}"
  by blast

lemma observe_inv: "correlator_inv c \<Longrightarrow> correlator_inv (snd (AncsMapCorrelator_observe_ancs env n c))"
proof (cases rule: observe_cases [of n c env])
  case ignored
  then show "correlator_inv c \<Longrightarrow> ?thesis" by simp
next
  case updated
  let ?ns = "replace_first (\<lambda>x. pn_notification_uid x = pn_notification_uid n) n (co_notifications c)"
  have "map pn_notification_uid ?ns = map pn_notification_uid (co_notifications c)"
    by (rule map_replace_first)
  moreover from this have "pn_notification_uid ` set ?ns = pn_notification_uid ` set (co_notifications c)"
    unfolding set_map [symmetric] by (rule arg_cong)
  moreover from calculation(1) have "length ?ns = length (co_notifications c)" by (rule map_eq_imp_length_eq)
  ultimately have "correlator_inv c \<Longrightarrow> correlator_inv (c\<lparr>co_notifications := ns\<rparr>)" if "ns = ?ns" for ns
    unfolding that [symmetric] by (simp add: correlator_inv_def)
  then show "correlator_inv c \<Longrightarrow> ?thesis" unfolding updated(3) snd_conv by blast
next
  case (paired i)
  let ?c = "c\<lparr>co_messages := remove_at i (co_messages c)\<rparr>"
  assume inv: "correlator_inv c"
  have "length (remove_at i (co_messages c)) \<le> 32"
    using inv length_remove_at [of i "co_messages c"] by (simp add: correlator_inv_def)
  moreover have "distinct (map pm_map_handle (remove_at i (co_messages c)))"
    using inv by (simp add: correlator_inv_def map_remove_at distinct_remove_at)
  moreover have "distinct (co_completed_uids (AncsMapCorrelator_remember_completed (pn_notification_uid n) ?c))"
    using inv paired by (intro distinct_remember) (simp_all add: correlator_inv_def)
  moreover have "pn_notification_uid ` set (co_notifications c) \<inter>
      set (co_completed_uids (AncsMapCorrelator_remember_completed (pn_notification_uid n) ?c)) = {}"
    by (rule disjoint_remember [OF set_remember order_refl])
      (use inv paired in \<open>simp_all add: correlator_inv_def\<close>)
  ultimately show ?thesis
    using inv paired correlator_uids.length_remember [of "pn_notification_uid n" ?c]
    by (simp add: correlator_inv_def)
next
  case (queued r)
  assume inv: "correlator_inv c"
  have "distinct (map pn_notification_uid (evict 32 (co_notifications c @ [n])))"
    using inv queued by (intro distinct_evict_append) (simp_all add: correlator_inv_def)
  moreover have "pn_notification_uid ` set (evict 32 (co_notifications c @ [n])) \<subseteq>
      insert (pn_notification_uid n) (pn_notification_uid ` set (co_notifications c))"
    using set_evict [of 32 "co_notifications c @ [n]"] by auto
  then have "set (co_completed_uids c) \<inter> pn_notification_uid ` set (evict 32 (co_notifications c @ [n])) = {}"
    by (rule disjoint_remember [OF _ order_refl])
      (use inv queued in \<open>simp_all add: correlator_inv_def Int_commute\<close>)
  ultimately show ?thesis
    using inv queued by (simp add: correlator_inv_def Int_commute)
qed

lemma correlate_inv: "correlator_inv c \<Longrightarrow> correlator_inv (snd (AncsMapCorrelator_correlate_map env m c))"
proof (cases rule: correlate_cases [of env c m])
  case (paired i)
  assume inv: "correlator_inv c"
  let ?u = "pn_notification_uid (co_notifications c ! i)"
  let ?c = "c\<lparr>co_notifications := remove_at i (co_notifications c)\<rparr>"
  have i: "i < length (co_notifications c)" using candidate_indices_single [OF paired(1)] by simp
  then have u: "?u \<in> pn_notification_uid ` set (co_notifications c)" by simp
  have ds: "distinct (map pn_notification_uid (remove_at i (co_notifications c)))"
    using inv by (simp add: correlator_inv_def map_remove_at distinct_remove_at)
  have gone: "?u \<notin> pn_notification_uid ` set (remove_at i (co_notifications c))"
    using inv i nth_notin_remove_at [of "map pn_notification_uid (co_notifications c)" i]
    by (simp add: correlator_inv_def flip: map_remove_at set_map)
  have sub: "pn_notification_uid ` set (remove_at i (co_notifications c)) \<subseteq>
      pn_notification_uid ` set (co_notifications c)"
    using set_remove_at by (rule image_mono)
  have fresh: "?u \<notin> set (co_completed_uids c)" using inv u by (auto simp: correlator_inv_def)
  have dc: "distinct (co_completed_uids (AncsMapCorrelator_remember_completed ?u ?c))"
    using inv fresh by (intro distinct_remember) (simp_all add: correlator_inv_def)
  have len: "length (remove_at i (co_notifications c)) \<le> 32"
    using inv length_remove_at [of i "co_notifications c"] by (simp add: correlator_inv_def)
  have "pn_notification_uid ` set (remove_at i (co_notifications c)) \<inter>
      set (co_completed_uids (AncsMapCorrelator_remember_completed ?u ?c)) = {}"
    by (rule disjoint_remember [OF set_remember sub gone]) (use inv in \<open>simp add: correlator_inv_def\<close>)
  then show ?thesis
    using inv paired ds dc len correlator_uids.length_remember [of ?u ?c]
    by (simp add: correlator_inv_def)
next
  case pending
  assume inv: "correlator_inv c"
  show ?thesis
  proof (cases "pm_map_handle m \<in> pm_map_handle ` set (co_messages c)")
    case True
    then show ?thesis using inv pending by simp
  next
    case False
    then have "distinct (map pm_map_handle (evict 32 (co_messages c @ [m])))"
      using inv by (intro distinct_evict_append) (simp_all add: correlator_inv_def)
    then show ?thesis using inv pending False by (simp add: correlator_inv_def)
  qed
next
  case ambiguous
  then show "correlator_inv c \<Longrightarrow> ?thesis" by simp
qed

interpretation correlator: step_machine "correlator_step env" correlator_inv for env
proof
  fix c e assume "correlator_inv c"
  then show "correlator_inv (correlator_step env e c)"
    by (cases e) (simp_all add: observe_inv correlate_inv)
qed

lemma correlator_inv_new: "correlator_inv (AncsMapCorrelator_new d)"
  by (simp add: correlator_inv_def AncsMapCorrelator_new_def)

text \<open>A result that names a pair.\<close>

definition names_pair :: "CorrelationResult \<Rightarrow> bool" where
  "names_pair r \<longleftrightarrow> (case r of Group _ _ _ _ _ _ \<Rightarrow> True | CorrelationResult.DirectCandidate _ _ \<Rightarrow> True | _ \<Rightarrow> False)"

lemma names_correlate_pair [simp]: "names_pair (correlate_pair env n m)"
  by (simp add: names_pair_def correlate_pair_def split: option.splits)

lemma filter_candidate: "candidate_indices P xs = [i] \<Longrightarrow> filter P xs = [xs ! i]"
proof -
  assume "candidate_indices P xs = [i]"
  moreover have "filter P xs = map (\<lambda>i. xs ! i) (candidate_indices P xs)"
    unfolding candidate_indices_def
    by (metis (no_types, lifting) filter_cong filter_map comp_apply map_nth)
  ultimately show ?thesis by simp
qed

lemma observe_names_pair:
  assumes "fst (AncsMapCorrelator_observe_ancs env n c) = Some r" and "names_pair r"
  shows "\<exists>m. r = correlate_pair env n m \<and> AncsMapCorrelator_matches env c n m \<and>
    pn_notification_uid n \<notin> set (co_completed_uids c) \<and>
    pn_notification_uid n \<in> set (co_completed_uids (snd (AncsMapCorrelator_observe_ancs env n c))) \<and>
    filter (AncsMapCorrelator_matches env c n) (co_messages c) = [m]"
proof (cases rule: observe_cases [of n c env])
  case (paired i)
  then show ?thesis
    using assms candidate_indices_single [OF paired(3)] filter_candidate [OF paired(3)]
      correlator_uids.remember_present by auto
next
  case (queued r)
  then show ?thesis using assms by (auto simp: names_pair_def)
qed (use assms in simp_all)

lemma correlate_names_pair:
  assumes "names_pair (fst (AncsMapCorrelator_correlate_map env m c))" and "correlator_inv c"
  shows "\<exists>n. fst (AncsMapCorrelator_correlate_map env m c) = correlate_pair env n m \<and>
    AncsMapCorrelator_matches env c n m \<and> pn_notification_uid n \<notin> set (co_completed_uids c) \<and>
    pn_notification_uid n \<in> set (co_completed_uids (snd (AncsMapCorrelator_correlate_map env m c))) \<and>
    filter (\<lambda>n. AncsMapCorrelator_matches env c n m) (co_notifications c) = [n]"
proof (cases rule: correlate_cases [of env c m])
  case (paired i)
  let ?n = "co_notifications c ! i"
  have i: "i < length (co_notifications c)" "AncsMapCorrelator_matches env c ?n m"
    using candidate_indices_single [OF paired(1)] by simp_all
  then have "pn_notification_uid ?n \<in> pn_notification_uid ` set (co_notifications c)" by simp
  then have "pn_notification_uid ?n \<notin> set (co_completed_uids c)"
    using assms(2) by (auto simp: correlator_inv_def)
  then show ?thesis
    using i paired filter_candidate [OF paired(1)] correlator_uids.remember_present by auto
qed (use assms in \<open>auto simp: names_pair_def\<close>)

text \<open>
  C5: The correlator fails closed. In every state reached by any sequence of observations the
  windows stay within 32 notifications, 32 messages and 64 completed UIDs; and whenever an event
  yields a group or a direct candidate, the event's own entry and exactly one entry of the other
  window match in time and name, no other entry of that window matches, the result is computed
  from this pair alone, and the notification's UID, not completed before, is completed after.
\<close>

theorem correlator_fails_closed:
  fixes es :: "correlator_event list" and env :: unicode_hash and d :: u64
  defines "c \<equiv> fold (correlator_step env) es (AncsMapCorrelator_new d)"
  shows "correlator_inv c \<and>
    (\<forall>r. correlator_result env e c = Some r \<and> names_pair r \<longrightarrow>
       (\<exists>n m. r = correlate_pair env n m \<and> AncsMapCorrelator_matches env c n m \<and>
          pn_notification_uid n \<notin> set (co_completed_uids c) \<and>
          pn_notification_uid n \<in> set (co_completed_uids (correlator_step env e c)) \<and>
          (case e of
             ObserveAncs n' \<Rightarrow> n' = n \<and> filter (AncsMapCorrelator_matches env c n) (co_messages c) = [m]
           | CorrelateMap m' \<Rightarrow> m' = m \<and>
               filter (\<lambda>n. AncsMapCorrelator_matches env c n m) (co_notifications c) = [n])))"
proof -
  have inv: "correlator_inv c" unfolding c_def by (rule correlator.run_inv [OF correlator_inv_new])
  show ?thesis
  proof (cases e)
    case (ObserveAncs n)
    then show ?thesis using inv observe_names_pair [of env n c] by auto
  next
    case (CorrelateMap m)
    then show ?thesis using inv correlate_names_pair [of env m c] by auto
  qed
qed

definition sample_notification :: PendingAncsNotification where
  "sample_notification = \<lparr>pn_notification_uid = (0, 0, 0, 1), pn_title = ''Ada'',
     pn_subtitle = ''Club'', pn_observed_unix_millis = 1000\<rparr>"

definition sample_map_message :: PendingMapMessage where
  "sample_map_message = \<lparr>pm_map_handle = ''h'', pm_sender = ''5550'',
     pm_sender_display_name = Some ''Ada'', pm_observed_unix_millis = 1500\<rparr>"

lemma sample_match:
  "AncsMapCorrelator_matches env (AncsMapCorrelator_new 2000) sample_notification sample_map_message"
  by (simp add: AncsMapCorrelator_matches_def AncsMapCorrelator_new_def sample_notification_def
      sample_map_message_def)

lemma matches_cong:
  "co_max_delta_millis c = co_max_delta_millis c' \<Longrightarrow>
   AncsMapCorrelator_matches env c = AncsMapCorrelator_matches env c'"
  by (simp add: AncsMapCorrelator_matches_def fun_eq_iff)

section \<open>Either order of arrival\<close>

lemma observe_then_correlate:
  assumes "pn_notification_uid n \<notin> set (co_completed_uids c)"
    and "pn_notification_uid n \<notin> pn_notification_uid ` set (co_notifications c)"
    and "\<forall>x \<in> set (co_notifications c). \<not> AncsMapCorrelator_matches env c x m"
    and "\<forall>x \<in> set (co_messages c). \<not> AncsMapCorrelator_matches env c n x"
    and "AncsMapCorrelator_matches env c n m"
  shows "fst (AncsMapCorrelator_observe_ancs env n c) = None \<and>
    fst (AncsMapCorrelator_correlate_map env m (snd (AncsMapCorrelator_observe_ancs env n c))) =
      correlate_pair env n m"
proof -
  let ?c = "c\<lparr>co_notifications := evict 32 (co_notifications c @ [n])\<rparr>"
  have none: "candidate_indices (AncsMapCorrelator_matches env c n) (co_messages c) = []"
    using assms(4) by (simp add: candidate_indices_Nil)
  then have obs: "AncsMapCorrelator_observe_ancs env n c = (None, ?c)"
    using assms(1,2) by (simp add: AncsMapCorrelator_observe_ancs_def list_ex_image)
  obtain ys where ys: "evict 32 (co_notifications c @ [n]) = ys @ [n]" "set ys \<subseteq> set (co_notifications c)"
    using evict_append_ex [of 32 "co_notifications c" n] by auto
  have m: "AncsMapCorrelator_matches env ?c = AncsMapCorrelator_matches env c"
    by (rule matches_cong) simp
  have "candidate_indices (\<lambda>x. AncsMapCorrelator_matches env ?c x m) (co_notifications ?c) = [length ys]"
    unfolding m using ys assms(3,5) by (auto intro!: candidate_indices_append_new)
  then show ?thesis
    using obs ys by (simp add: AncsMapCorrelator_correlate_map_def)
qed

lemma correlate_then_observe:
  assumes "pn_notification_uid n \<notin> set (co_completed_uids c)"
    and "pn_notification_uid n \<notin> pn_notification_uid ` set (co_notifications c)"
    and "pm_map_handle m \<notin> pm_map_handle ` set (co_messages c)"
    and "\<forall>x \<in> set (co_notifications c). \<not> AncsMapCorrelator_matches env c x m"
    and "\<forall>x \<in> set (co_messages c). \<not> AncsMapCorrelator_matches env c n x"
    and "AncsMapCorrelator_matches env c n m"
  shows "fst (AncsMapCorrelator_correlate_map env m c) = CorrelationResult.Pending \<and>
    fst (AncsMapCorrelator_observe_ancs env n (snd (AncsMapCorrelator_correlate_map env m c))) =
      Some (correlate_pair env n m)"
proof -
  let ?c = "c\<lparr>co_messages := evict 32 (co_messages c @ [m])\<rparr>"
  have none: "candidate_indices (\<lambda>x. AncsMapCorrelator_matches env c x m) (co_notifications c) = []"
    using assms(4) by (simp add: candidate_indices_Nil)
  then have cor: "AncsMapCorrelator_correlate_map env m c = (CorrelationResult.Pending, ?c)"
    using assms(3) by (simp add: AncsMapCorrelator_correlate_map_def list_ex_image)
  obtain ys where ys: "evict 32 (co_messages c @ [m]) = ys @ [m]" "set ys \<subseteq> set (co_messages c)"
    using evict_append_ex [of 32 "co_messages c" m] by auto
  have mt: "AncsMapCorrelator_matches env ?c = AncsMapCorrelator_matches env c"
    by (rule matches_cong) simp
  have "candidate_indices (AncsMapCorrelator_matches env ?c n) (co_messages ?c) = [length ys]"
    unfolding mt using ys assms(5,6) by (auto intro!: candidate_indices_append_new)
  then show ?thesis
    using cor ys assms(1,2) by (simp add: AncsMapCorrelator_observe_ancs_def list_ex_image)
qed

text \<open>
  Whether the notification or the MAP message arrives first makes no difference: when the
  two match and neither window holds another match, the first arrival is kept without a result
  and the second yields the same correlation of the pair, even when the windows are full.
\<close>

theorem correlation_order_irrelevant:
  assumes "pn_notification_uid n \<notin> set (co_completed_uids c)"
    and "pn_notification_uid n \<notin> pn_notification_uid ` set (co_notifications c)"
    and "pm_map_handle m \<notin> pm_map_handle ` set (co_messages c)"
    and "\<forall>x \<in> set (co_notifications c). \<not> AncsMapCorrelator_matches env c x m"
    and "\<forall>x \<in> set (co_messages c). \<not> AncsMapCorrelator_matches env c n x"
    and "AncsMapCorrelator_matches env c n m"
  shows "correlator_result env (ObserveAncs n) c = None \<and>
    correlator_result env (CorrelateMap m) (correlator_step env (ObserveAncs n) c) =
      Some (correlate_pair env n m) \<and>
    correlator_result env (CorrelateMap m) c = Some CorrelationResult.Pending \<and>
    correlator_result env (ObserveAncs n) (correlator_step env (CorrelateMap m) c) =
      Some (correlate_pair env n m)"
  using observe_then_correlate [OF assms(1,2,4,5,6)] correlate_then_observe [OF assms] by simp

theorem correlation_order_irrelevant_witness:
  "correlator_result identity_env (ObserveAncs sample_notification)
     (correlator_step identity_env (CorrelateMap sample_map_message) (AncsMapCorrelator_new 2000)) =
   Some (correlate_pair identity_env sample_notification sample_map_message)"
  using correlation_order_irrelevant [of sample_notification "AncsMapCorrelator_new 2000"
      sample_map_message identity_env] sample_match
  by (simp add: AncsMapCorrelator_new_def)

theorem correlator_fails_closed_witness:
  "\<exists>n. correlate_pair identity_env sample_notification sample_map_message =
       correlate_pair identity_env n sample_map_message \<and>
     pn_notification_uid n \<in> set (co_completed_uids (correlator_step identity_env
       (CorrelateMap sample_map_message) (correlator_step identity_env
         (ObserveAncs sample_notification) (AncsMapCorrelator_new 2000))))"
proof -
  have "correlator_result identity_env (CorrelateMap sample_map_message)
      (fold (correlator_step identity_env) [ObserveAncs sample_notification] (AncsMapCorrelator_new 2000)) =
      Some (correlate_pair identity_env sample_notification sample_map_message)"
    using observe_then_correlate [of sample_notification "AncsMapCorrelator_new 2000"
      identity_env sample_map_message] sample_match
    by (simp add: AncsMapCorrelator_new_def)
  then show ?thesis
    using correlator_fails_closed [of identity_env "[ObserveAncs sample_notification]" 2000
        "CorrelateMap sample_map_message"] by auto
qed

section \<open>Ambiguous evidence reaches the store\<close>

lemma mark_step:
  "Store_mark_ancs_ambiguous h t s = (Ok (), s') \<Longrightarrow>
   st_ambiguous s' h \<noteq> None \<and> dom (st_ambiguous s) \<subseteq> dom (st_ambiguous s') \<and>
   st_messages s' = st_messages s \<and> st_assignments s' = st_assignments s \<and> st_groups s' = st_groups s"
  by (auto simp: Store_mark_ancs_ambiguous_def call_def split: if_splits)

lemma mark_all_marks:
  "mark_all hs t s = (Ok (), s') \<Longrightarrow>
   set hs \<union> dom (st_ambiguous s) \<subseteq> dom (st_ambiguous s') \<and>
   st_messages s' = st_messages s \<and> st_assignments s' = st_assignments s \<and> st_groups s' = st_groups s"
proof (induction hs arbitrary: s)
  case Nil
  then show ?case by simp
next
  case (Cons h hs)
  obtain r s1 where 1: "Store_mark_ancs_ambiguous h t s = (r, s1)" by force
  with Cons.prems obtain u where r: "r = Ok u" by (cases r) auto
  with 1 Cons.prems have "mark_all hs t s1 = (Ok (), s')" by simp
  with Cons.IH [of s1] have "set hs \<union> dom (st_ambiguous s1) \<subseteq> dom (st_ambiguous s')"
    "st_messages s' = st_messages s1" "st_assignments s' = st_assignments s1" "st_groups s' = st_groups s1"
    by simp_all
  moreover have "h \<in> dom (st_ambiguous s1)" "dom (st_ambiguous s) \<subseteq> dom (st_ambiguous s1)"
    "st_messages s1 = st_messages s" "st_assignments s1 = st_assignments s" "st_groups s1 = st_groups s"
    using mark_step [of h t s s1] 1 r by auto
  ultimately show ?case by (simp del: dom_def) blast
qed

text \<open>
  Applying a correlation fails closed: an ambiguous result, once applied, has marked every
  message it names and changed no message, assignment or group; a pending result changes nothing
  at all; and a group is reported as assigned only when the message is then assigned to exactly
  that group with its ambiguity marker gone.
\<close>

theorem apply_correlation_fails_closed:
  "(case apply_correlation (CorrelationResult.Ambiguous hs t) s of
      (Inr r, s') \<Rightarrow> r = ApplyCorrelationResult.Ambiguous \<and> set hs \<subseteq> dom (st_ambiguous s') \<and>
        st_messages s' = st_messages s \<and> st_assignments s' = st_assignments s \<and> st_groups s' = st_groups s
    | (Inl _, _) \<Rightarrow> True) \<and>
   snd (apply_correlation CorrelationResult.Pending s) = s \<and>
   (case apply_correlation (Group h uid gid subtitle sender t) s of
      (Inr ApplyCorrelationResult.GroupAssigned, s') \<Rightarrow>
        assigned_to h gid s' \<and> st_ambiguous s' h = None
    | (Inl _, s') \<Rightarrow> s' = s
    | _ \<Rightarrow> True)"
proof -
  have amb: "case mark_all hs t s of
      (Inr r, s') \<Rightarrow> set hs \<subseteq> dom (st_ambiguous s') \<and>
        st_messages s' = st_messages s \<and> st_assignments s' = st_assignments s \<and> st_groups s' = st_groups s
    | (Inl _, _) \<Rightarrow> True"
    using mark_all_marks [of hs t s] by (auto split: prod.splits sum.splits)
  have grp: "case Store_assign_ancs_group h gid subtitle sender (uid_bytes uid) t s of
      (Inr Assigned, s') \<Rightarrow> assigned_to h gid s' \<and> st_ambiguous s' h = None
    | (Inl _, s') \<Rightarrow> s' = s | _ \<Rightarrow> True"
    by (rule assign_cases [of h gid subtitle sender "uid_bytes uid" t s])
      (auto simp: assigned_to_def upsert_assignment_def update_messages_def upsert_sender_def
        upsert_group_def split: option.splits)
  show ?thesis
    using amb grp
    by (auto split: prod.splits sum.splits GroupAssignmentResult.splits ApplyCorrelationResult.splits)
qed

end
