(* ===== verification/BTree_Map.thy ===== *)
theory BTree_Map
  imports Prelude
begin

text \<open>
  \<open>std::collections::BTreeMap\<close>: the list of its entries in ascending key order. The interface
  \<open>ordered_map\<close> states what the clients rely on (lookup after insertion and removal, least and
  greatest key); it is interpreted on the ordered list.
\<close>

type_synonym ('k, 'v) btree = "('k \<times> 'v) list"

fun bt_insert :: "'k::linorder \<Rightarrow> 'v \<Rightarrow> ('k, 'v) btree \<Rightarrow> ('k, 'v) btree" where
  "bt_insert k v [] = [(k, v)]"
| "bt_insert k v ((k', v') # xs) =
     (if k < k' then (k, v) # (k', v') # xs
      else if k = k' then (k, v) # xs
      else (k', v') # bt_insert k v xs)"

definition bt_remove :: "'k \<Rightarrow> ('k, 'v) btree \<Rightarrow> ('k, 'v) btree" where
  "bt_remove k xs = filter (\<lambda>e. fst e \<noteq> k) xs"

definition bt_first :: "('k, 'v) btree \<Rightarrow> 'k option" where
  "bt_first xs = (case xs of [] \<Rightarrow> None | e # _ \<Rightarrow> Some (fst e))"

definition bt_last :: "('k, 'v) btree \<Rightarrow> 'k option" where
  "bt_last xs = (if xs = [] then None else Some (fst (last xs)))"

definition bt_ok :: "('k::linorder, 'v) btree \<Rightarrow> bool" where
  "bt_ok xs \<longleftrightarrow> sorted_wrt (<) (map fst xs)"

locale ordered_map =
  fixes get :: "'m \<Rightarrow> 'k::linorder \<Rightarrow> 'v option"
    and insert_entry :: "'k \<Rightarrow> 'v \<Rightarrow> 'm \<Rightarrow> 'm"
    and remove_entry :: "'k \<Rightarrow> 'm \<Rightarrow> 'm"
    and first_key :: "'m \<Rightarrow> 'k option"
    and last_key :: "'m \<Rightarrow> 'k option"
    and size_of :: "'m \<Rightarrow> nat"
    and ok_map :: "'m \<Rightarrow> bool"
  assumes get_insert: "ok_map m \<Longrightarrow> get (insert_entry k v m) j = (if j = k then Some v else get m j)"
    and get_remove: "ok_map m \<Longrightarrow> get (remove_entry k m) j = (if j = k then None else get m j)"
    and ok_insert: "ok_map m \<Longrightarrow> ok_map (insert_entry k v m)"
    and ok_remove: "ok_map m \<Longrightarrow> ok_map (remove_entry k m)"
    and first_least: "ok_map m \<Longrightarrow> first_key m = Some k \<Longrightarrow> get m k \<noteq> None \<and> (\<forall>j. get m j \<noteq> None \<longrightarrow> k \<le> j)"
    and last_greatest: "ok_map m \<Longrightarrow> last_key m = Some k \<Longrightarrow> get m k \<noteq> None \<and> (\<forall>j. get m j \<noteq> None \<longrightarrow> j \<le> k)"
    and size_insert: "ok_map m \<Longrightarrow> size_of (insert_entry k v m) = (if get m k = None then Suc (size_of m) else size_of m)"
    and size_remove: "ok_map m \<Longrightarrow> size_of (remove_entry k m) = (if get m k = None then size_of m else size_of m - 1)"
begin

text \<open>Replacing the greatest entry by a smaller new one keeps the size and the other entries.\<close>

lemma displace_last:
  assumes "ok_map m" and "last_key m = Some z" and "get m k = None" and "0 < size_of m"
  shows "size_of (insert_entry k v (remove_entry z m)) = size_of m"
    and "get (insert_entry k v (remove_entry z m)) j =
      (if j = k then Some v else if j = z then None else get m j)"
  using assms last_greatest [OF assms(1,2)]
  by (auto simp: size_insert size_remove get_insert get_remove ok_remove)

end

lemma bt_ok_Cons: "bt_ok ((k, v) # xs) \<longleftrightarrow> (\<forall>j \<in> fst ` set xs. k < j) \<and> bt_ok xs"
  by (auto simp: bt_ok_def)

lemma bt_ok_Nil [simp]: "bt_ok []"
  by (simp add: bt_ok_def)

lemma fst_bt_insert: "fst ` set (bt_insert k v xs) = insert k (fst ` set xs)"
  by (induction k v xs rule: bt_insert.induct) auto

lemma bt_ok_insert: "bt_ok xs \<Longrightarrow> bt_ok (bt_insert k v xs)"
  by (induction k v xs rule: bt_insert.induct) (auto simp: bt_ok_Cons fst_bt_insert)

lemma bt_ok_remove: "bt_ok xs \<Longrightarrow> bt_ok (bt_remove k xs)"
  by (induction xs) (auto simp: bt_ok_Cons bt_remove_def)

lemma map_of_None_less: "(\<forall>j \<in> fst ` set xs. k < (j :: 'k::linorder)) \<Longrightarrow> map_of xs k = None"
  by (force simp: map_of_eq_None_iff)

lemma map_of_bt_insert: "bt_ok xs \<Longrightarrow> map_of (bt_insert k v xs) j = (if j = k then Some v else map_of xs j)"
  by (induction k v xs rule: bt_insert.induct) (auto simp: bt_ok_Cons)

lemma map_of_bt_remove: "map_of (bt_remove k xs) j = (if j = k then None else map_of xs j)"
  by (induction xs) (auto simp: bt_remove_def)

lemma length_bt_insert:
  "bt_ok xs \<Longrightarrow> length (bt_insert k v xs) = (if map_of xs k = None then Suc (length xs) else length xs)"
proof (induction k v xs rule: bt_insert.induct)
  case (2 k v k' v' xs)
  then have "k < k' \<Longrightarrow> map_of xs k = None"
    by (intro map_of_None_less) (auto simp: bt_ok_Cons intro: less_trans)
  with 2 show ?case by (auto simp: bt_ok_Cons)
qed simp

lemma bt_remove_absent: "map_of xs k = None \<Longrightarrow> bt_remove k xs = xs"
  by (induction xs) (auto simp: bt_remove_def split: if_splits)

lemma length_bt_remove:
  "bt_ok xs \<Longrightarrow> length (bt_remove k xs) = (if map_of xs k = None then length xs else length xs - 1)"
proof (induction xs)
  case (Cons e xs)
  obtain k' v' where e: "e = (k', v')" by force
  show ?case
  proof (cases "k' = k")
    case True
    then have "map_of xs k = None"
      using Cons.prems e by (intro map_of_None_less) (auto simp: bt_ok_Cons)
    then have "bt_remove k xs = xs" by (rule bt_remove_absent)
    then show ?thesis using True e by (simp add: bt_remove_def)
  next
    case False
    have "map_of xs k \<noteq> None \<Longrightarrow> xs \<noteq> []" by auto
    then show ?thesis using Cons False e by (auto simp: bt_ok_Cons bt_remove_def)
  qed
qed (simp add: bt_remove_def)

lemma map_of_Some_key: "map_of xs k \<noteq> None \<longleftrightarrow> k \<in> fst ` set xs"
  by (simp add: map_of_eq_None_iff)

lemma bt_first_least:
  "bt_ok xs \<Longrightarrow> bt_first xs = Some k \<Longrightarrow> map_of xs k \<noteq> None \<and> (\<forall>j. map_of xs j \<noteq> None \<longrightarrow> k \<le> j)"
  unfolding map_of_Some_key
  by (cases xs) (auto simp: bt_first_def bt_ok_def intro: less_imp_le)

lemma bt_last_greatest:
  assumes "bt_ok xs" and "bt_last xs = Some k"
  shows "map_of xs k \<noteq> None \<and> (\<forall>j. map_of xs j \<noteq> None \<longrightarrow> j \<le> k)"
proof -
  from assms(2) obtain ys e where xs: "xs = ys @ [e]" "fst e = k"
    by (cases xs rule: rev_cases) (auto simp: bt_last_def)
  then show ?thesis
    using assms(1) unfolding map_of_Some_key
    by (auto simp: bt_ok_def sorted_wrt_append intro: less_imp_le)
qed

interpretation btree: ordered_map map_of bt_insert bt_remove bt_first bt_last length bt_ok
  by unfold_locales
    (simp_all add: map_of_bt_insert map_of_bt_remove bt_ok_insert bt_ok_remove
      length_bt_insert length_bt_remove bt_first_least bt_last_greatest)

lemma bt_insert_end:
  "\<forall>j \<in> fst ` set xs. j < k \<Longrightarrow> bt_insert k v xs = xs @ [(k, v)]"
  by (induction xs) auto

lemma set_bt_insert: "bt_ok xs \<Longrightarrow> k \<notin> fst ` set xs \<Longrightarrow> set (bt_insert k v xs) = insert (k, v) (set xs)"
  by (induction k v xs rule: bt_insert.induct) (auto simp: bt_ok_Cons)

text \<open>An ordered list is determined by its entries.\<close>

lemma bt_eq_set:
  assumes "bt_ok xs" and "bt_ok ys" and "set xs = set ys"
  shows "xs = ys"
proof -
  have "distinct (map fst xs)" "distinct (map fst ys)" "sorted (map fst xs)" "sorted (map fst ys)"
    using assms(1,2) by (auto simp: bt_ok_def strict_sorted_iff)
  then show ?thesis
    using assms(3) map_sorted_distinct_set_unique [of fst xs ys]
    by (metis distinct_map inj_on_Un_image_eq_iff inj_onI inj_on_def sup.idem)
qed

end
