(* ===== verification/Jitter_Buffer.thy ===== *)
theory Jitter_Buffer
  imports BTree_Map Core_Audio "HOL-Library.Multiset"
begin

text \<open>
  \<open>JitterBuffer\<close> of \<open>crates/analogconnectd/src/audio.rs\<close>: reorders the frames of one
  direction and plays one per interval. Its counters are the saturating \<open>u64\<close> counters of the
  code. The theorems give the accounting of every received frame, the order of playout, and the
  exact reconstruction of a reordered burst.
\<close>

record JitterBufferSummary =
  js_depth :: nat
  js_received :: u64
  js_emitted :: u64
  js_duplicate :: u64
  js_late :: u64
  js_missing :: u64
  js_overflow :: u64

definition JitterBufferSummary_default :: JitterBufferSummary where
  "JitterBufferSummary_default = \<lparr>js_depth = 0, js_received = 0, js_emitted = 0, js_duplicate = 0,
     js_late = 0, js_missing = 0, js_overflow = 0\<rparr>"

record JitterBuffer =
  jb_capacity :: nat
  jb_target_depth :: nat
  jb_frames :: "(u64, AudioFrame) btree"
  jb_next_sequence :: "u64 option"
  jb_started :: bool
  jb_summary :: JitterBufferSummary

datatype JitterBufferError = InvalidCapacity

definition JitterBuffer_new :: "nat \<Rightarrow> nat \<Rightarrow> (JitterBuffer, JitterBufferError) result" where
  "JitterBuffer_new capacity target_depth =
     (if capacity = 0 \<or> target_depth = 0 \<or> capacity < target_depth then Err InvalidCapacity
      else Ok \<lparr>jb_capacity = capacity, jb_target_depth = target_depth, jb_frames = [],
               jb_next_sequence = None, jb_started = False,
               jb_summary = JitterBufferSummary_default\<rparr>)"

text \<open>Storing the frame and refreshing the depth, at the end of \<open>insert\<close>.\<close>

definition JitterBuffer_store :: "AudioFrame \<Rightarrow> JitterBuffer \<Rightarrow> JitterBuffer" where
  "JitterBuffer_store frame self =
     (let frames = bt_insert (fr_sequence frame) frame (jb_frames self)
      in self\<lparr>jb_frames := frames, jb_summary := (jb_summary self)\<lparr>js_depth := length frames\<rparr>\<rparr>)"

definition JitterBuffer_insert :: "AudioFrame \<Rightarrow> JitterBuffer \<Rightarrow> JitterBuffer" where
  "JitterBuffer_insert frame self =
     (let self = self\<lparr>jb_summary := (jb_summary self)\<lparr>js_received :=
                        saturating_add (js_received (jb_summary self)) 1\<rparr>\<rparr>;
          sequence = fr_sequence frame
      in if (case jb_next_sequence self of None \<Rightarrow> False | Some next_sequence \<Rightarrow> sequence < next_sequence)
         then self\<lparr>jb_summary := (jb_summary self)\<lparr>js_late :=
                    saturating_add (js_late (jb_summary self)) 1\<rparr>\<rparr>
         else if map_of (jb_frames self) sequence \<noteq> None
         then self\<lparr>jb_summary := (jb_summary self)\<lparr>js_duplicate :=
                    saturating_add (js_duplicate (jb_summary self)) 1\<rparr>\<rparr>
         else if length (jb_frames self) = jb_capacity self
         then let self = self\<lparr>jb_summary := (jb_summary self)\<lparr>js_overflow :=
                              saturating_add (js_overflow (jb_summary self)) 1\<rparr>\<rparr>;
                  furthest = the (bt_last (jb_frames self))
           in if furthest \<le> sequence then self
              else JitterBuffer_store frame
                     (self\<lparr>jb_frames := bt_remove furthest (jb_frames self)\<rparr>)
         else JitterBuffer_store frame self)"

definition JitterBuffer_tick :: "JitterBuffer \<Rightarrow> AudioFrame option \<times> JitterBuffer" where
  "JitterBuffer_tick self =
     (if \<not> jb_started self \<and> length (jb_frames self) < jb_target_depth self then (None, self)
      else let self = (if \<not> jb_started self
                       then self\<lparr>jb_next_sequence := bt_first (jb_frames self), jb_started := True\<rparr>
                       else self)
        in case jb_next_sequence self of
             None \<Rightarrow> (None, self)
           | Some sequence \<Rightarrow>
               let self = self\<lparr>jb_next_sequence := checked_add sequence 1\<rparr>
               in case map_of (jb_frames self) sequence of
                    Some frame \<Rightarrow>
                      let frames = bt_remove sequence (jb_frames self)
                      in (Some frame,
                          self\<lparr>jb_frames := frames,
                               jb_summary := (jb_summary self)\<lparr>
                                 js_emitted := saturating_add (js_emitted (jb_summary self)) 1,
                                 js_depth := length frames\<rparr>\<rparr>)
                  | None \<Rightarrow>
                      (None, self\<lparr>jb_summary := (jb_summary self)\<lparr>js_missing :=
                               saturating_add (js_missing (jb_summary self)) 1\<rparr>\<rparr>))"

section \<open>What one step does\<close>

datatype jitter_event = Insert AudioFrame | Tick

fun jitter_step :: "jitter_event \<Rightarrow> JitterBuffer \<Rightarrow> JitterBuffer" where
  "jitter_step (Insert f) b = JitterBuffer_insert f b"
| "jitter_step Tick b = snd (JitterBuffer_tick b)"

fun jitter_run :: "jitter_event list \<Rightarrow> JitterBuffer \<Rightarrow> AudioFrame list" where
  "jitter_run [] b = []"
| "jitter_run (Insert f # es) b = jitter_run es (JitterBuffer_insert f b)"
| "jitter_run (Tick # es) b =
     (case JitterBuffer_tick b of
        (None, b') \<Rightarrow> jitter_run es b'
      | (Some f, b') \<Rightarrow> f # jitter_run es b')"

definition is_late :: "u64 \<Rightarrow> JitterBuffer \<Rightarrow> bool" where
  "is_late q b \<longleftrightarrow> (case jb_next_sequence b of None \<Rightarrow> False | Some n \<Rightarrow> q < n)"

definition jitter_inv :: "JitterBuffer \<Rightarrow> bool" where
  "jitter_inv b \<longleftrightarrow>
     0 < jb_target_depth b \<and> jb_target_depth b \<le> jb_capacity b \<and>
     bt_ok (jb_frames b) \<and> length (jb_frames b) \<le> jb_capacity b \<and>
     js_depth (jb_summary b) = length (jb_frames b) \<and>
     (\<forall>e \<in> set (jb_frames b). fr_sequence (snd e) = fst e \<and> \<not> is_late (fst e) b) \<and>
     (\<not> jb_started b \<longrightarrow> jb_next_sequence b = None)"

lemma full_last:
  assumes "jitter_inv b" and "length (jb_frames b) = jb_capacity b"
  obtains z where "bt_last (jb_frames b) = Some z"
proof -
  have "jb_frames b \<noteq> []" using assms by (auto simp: jitter_inv_def)
  then show ?thesis by (intro that) (simp add: bt_last_def)
qed

text \<open>The five outcomes of an insertion.\<close>

lemma insert_cases:
  assumes "jitter_inv b"
  defines "r \<equiv> saturating_add (js_received (jb_summary b)) 1"
  obtains
    (late) "is_late (fr_sequence f) b"
      "JitterBuffer_insert f b = b\<lparr>jb_summary := (jb_summary b)\<lparr>js_received := r,
         js_late := saturating_add (js_late (jb_summary b)) 1\<rparr>\<rparr>"
  | (duplicate) "\<not> is_late (fr_sequence f) b" "map_of (jb_frames b) (fr_sequence f) \<noteq> None"
      "JitterBuffer_insert f b = b\<lparr>jb_summary := (jb_summary b)\<lparr>js_received := r,
         js_duplicate := saturating_add (js_duplicate (jb_summary b)) 1\<rparr>\<rparr>"
  | (dropped) z where "length (jb_frames b) = jb_capacity b" "bt_last (jb_frames b) = Some z"
      "z \<le> fr_sequence f"
      "JitterBuffer_insert f b = b\<lparr>jb_summary := (jb_summary b)\<lparr>js_received := r,
         js_overflow := saturating_add (js_overflow (jb_summary b)) 1\<rparr>\<rparr>"
  | (displaced) z where "\<not> is_late (fr_sequence f) b" "map_of (jb_frames b) (fr_sequence f) = None"
      "length (jb_frames b) = jb_capacity b" "bt_last (jb_frames b) = Some z" "fr_sequence f < z"
      "JitterBuffer_insert f b = b\<lparr>
         jb_frames := bt_insert (fr_sequence f) f (bt_remove z (jb_frames b)),
         jb_summary := (jb_summary b)\<lparr>js_received := r,
           js_overflow := saturating_add (js_overflow (jb_summary b)) 1,
           js_depth := length (jb_frames b)\<rparr>\<rparr>"
  | (stored) "\<not> is_late (fr_sequence f) b" "map_of (jb_frames b) (fr_sequence f) = None"
      "length (jb_frames b) < jb_capacity b"
      "JitterBuffer_insert f b = b\<lparr>
         jb_frames := bt_insert (fr_sequence f) f (jb_frames b),
         jb_summary := (jb_summary b)\<lparr>js_received := r, js_depth := Suc (length (jb_frames b))\<rparr>\<rparr>"
proof -
  let ?q = "fr_sequence f" and ?fs = "jb_frames b"
  have ok: "bt_ok ?fs" and cap: "length ?fs \<le> jb_capacity b"
    and pos: "0 < jb_capacity b" and sync: "js_depth (jb_summary b) = length ?fs"
    using assms by (auto simp: jitter_inv_def)
  have late_iff: "(case jb_next_sequence b of None \<Rightarrow> False | Some n \<Rightarrow> ?q < n) = is_late ?q b"
    by (simp add: is_late_def)
  consider "is_late ?q b" | "\<not> is_late ?q b" "map_of ?fs ?q \<noteq> None"
    | "\<not> is_late ?q b" "map_of ?fs ?q = None" "length ?fs = jb_capacity b"
    | "\<not> is_late ?q b" "map_of ?fs ?q = None" "length ?fs < jb_capacity b"
    using cap by fastforce
  then show ?thesis
  proof cases
    case 1
    then show ?thesis
      by (intro late) (simp_all add: JitterBuffer_insert_def late_iff r_def Let_def)
  next
    case 2
    then show ?thesis
      by (intro duplicate) (simp_all add: JitterBuffer_insert_def late_iff r_def Let_def)
  next
    case 3
    obtain z where z: "bt_last ?fs = Some z" using full_last [OF assms(1) 3(3)] .
    show ?thesis
    proof (cases "z \<le> ?q")
      case True
      with 3 z show ?thesis
        by (intro dropped [of z]) (simp_all add: JitterBuffer_insert_def late_iff r_def Let_def)
    next
      case False
      have "length (bt_insert ?q f (bt_remove z ?fs)) = length ?fs"
        using btree.displace_last(1) [OF ok z 3(2)] 3 pos by simp
      with 3 z False show ?thesis
        by (intro displaced [of z])
          (simp_all add: JitterBuffer_insert_def JitterBuffer_store_def late_iff r_def Let_def)
    qed
  next
    case 4
    then show ?thesis
      using length_bt_insert [OF ok, of ?q f]
      by (intro stored)
        (simp_all add: JitterBuffer_insert_def JitterBuffer_store_def late_iff r_def Let_def)
  qed
qed

lemma set_bt_remove: "set (bt_remove k xs) \<subseteq> set xs"
  by (auto simp: bt_remove_def)

lemma is_late_frames [simp]:
  "is_late q (b\<lparr>jb_frames := x\<rparr>) = is_late q b" "is_late q (b\<lparr>jb_summary := y\<rparr>) = is_late q b"
  by (simp_all add: is_late_def)

lemma insert_inv:
  assumes "jitter_inv b"
  shows "jitter_inv (JitterBuffer_insert f b)"
  using assms
proof (cases rule: insert_cases [of b f])
  case (displaced z)
  let ?fs = "bt_remove z (jb_frames b)"
  have ok: "bt_ok (jb_frames b)" "bt_ok ?fs" using assms by (simp_all add: jitter_inv_def bt_ok_remove)
  have "map_of ?fs (fr_sequence f) = None" using displaced by (simp add: map_of_bt_remove)
  then have set: "set (bt_insert (fr_sequence f) f ?fs) = insert (fr_sequence f, f) (set ?fs)"
    using ok by (intro set_bt_insert) (simp_all add: map_of_eq_None_iff)
  have "length (bt_insert (fr_sequence f) f ?fs) = length (jb_frames b)"
    using btree.displace_last(1) [OF ok(1) displaced(4,2)] displaced(3) assms
    by (simp add: jitter_inv_def)
  then show ?thesis
    using assms displaced ok set set_bt_remove [of z "jb_frames b"]
    by (auto simp: jitter_inv_def bt_ok_insert)
next
  case stored
  have ok: "bt_ok (jb_frames b)" using assms by (simp add: jitter_inv_def)
  have "set (bt_insert (fr_sequence f) f (jb_frames b)) = insert (fr_sequence f, f) (set (jb_frames b))"
    using stored ok by (intro set_bt_insert) (simp_all add: map_of_eq_None_iff)
  then show ?thesis
    using assms stored ok length_bt_insert [OF ok, of "fr_sequence f" f]
    by (auto simp: jitter_inv_def bt_ok_insert)
qed (use assms in \<open>simp_all add: jitter_inv_def\<close>)

text \<open>The outcomes of a tick; \<open>playout_next\<close> is the sequence due.\<close>

definition playout_next :: "JitterBuffer \<Rightarrow> u64 option" where
  "playout_next b = (if jb_started b then jb_next_sequence b else bt_first (jb_frames b))"

lemma tick_cases:
  obtains
    (waiting) "\<not> jb_started b" "length (jb_frames b) < jb_target_depth b"
      "JitterBuffer_tick b = (None, b)"
  | (exhausted) "playout_next b = None" "JitterBuffer_tick b =
      (None, b\<lparr>jb_next_sequence := None, jb_started := True\<rparr>)"
  | (missing) q where "playout_next b = Some q" "map_of (jb_frames b) q = None"
      "JitterBuffer_tick b = (None, b\<lparr>jb_next_sequence := checked_add q 1, jb_started := True,
         jb_summary := (jb_summary b)\<lparr>js_missing := saturating_add (js_missing (jb_summary b)) 1\<rparr>\<rparr>)"
  | (emitted) q f where "playout_next b = Some q" "map_of (jb_frames b) q = Some f"
      "JitterBuffer_tick b = (Some f, b\<lparr>jb_next_sequence := checked_add q 1, jb_started := True,
         jb_frames := bt_remove q (jb_frames b),
         jb_summary := (jb_summary b)\<lparr>js_emitted := saturating_add (js_emitted (jb_summary b)) 1,
           js_depth := length (bt_remove q (jb_frames b))\<rparr>\<rparr>)"
proof (cases "\<not> jb_started b \<and> length (jb_frames b) < jb_target_depth b")
  case True
  then show ?thesis by (intro waiting) (simp_all add: JitterBuffer_tick_def)
next
  case False
  let ?b = "if \<not> jb_started b then b\<lparr>jb_next_sequence := bt_first (jb_frames b), jb_started := True\<rparr> else b"
  have next': "jb_next_sequence ?b = playout_next b" "jb_frames ?b = jb_frames b"
    "jb_summary ?b = jb_summary b" by (simp_all add: playout_next_def)
  have b: "?b\<lparr>jb_next_sequence := x\<rparr> = b\<lparr>jb_next_sequence := x, jb_started := True\<rparr>" for x
    by (cases b) simp
  have b0: "playout_next b = None \<Longrightarrow> ?b = b\<lparr>jb_next_sequence := None, jb_started := True\<rparr>"
    by (cases b) (auto simp: playout_next_def)
  have tick: "JitterBuffer_tick b = (case playout_next b of
      None \<Rightarrow> (None, ?b)
    | Some q \<Rightarrow> (case map_of (jb_frames b) q of
        Some frame \<Rightarrow> (Some frame, b\<lparr>jb_next_sequence := checked_add q 1, jb_started := True,
           jb_frames := bt_remove q (jb_frames b),
           jb_summary := (jb_summary b)\<lparr>js_emitted := saturating_add (js_emitted (jb_summary b)) 1,
             js_depth := length (bt_remove q (jb_frames b))\<rparr>\<rparr>)
      | None \<Rightarrow> (None, b\<lparr>jb_next_sequence := checked_add q 1, jb_started := True,
         jb_summary := (jb_summary b)\<lparr>js_missing := saturating_add (js_missing (jb_summary b)) 1\<rparr>\<rparr>)))"
    unfolding JitterBuffer_tick_def if_not_P [OF False] Let_def next' b
    by (cases "playout_next b") (auto simp: next' split: option.splits)
  show ?thesis
  proof (cases "playout_next b")
    case None
    then show ?thesis using tick b0 by (intro exhausted) simp_all
  next
    case (Some q)
    then show ?thesis
      using tick missing [of q] emitted [of q] by (cases "map_of (jb_frames b) q") simp_all
  qed
qed

lemma playout_next_least:
  assumes "jitter_inv b" and "playout_next b = Some q" and "e \<in> set (jb_frames b)"
  shows "q \<le> fst e"
proof (cases "jb_started b")
  case True
  then show ?thesis
    using assms by (auto simp: jitter_inv_def playout_next_def is_late_def)
next
  case False
  then have "bt_first (jb_frames b) = Some q" using assms(2) by (simp add: playout_next_def)
  moreover have "map_of (jb_frames b) (fst e) \<noteq> None" unfolding map_of_Some_key using assms(3) by (rule imageI)
  ultimately show ?thesis using assms(1) btree.first_least by (auto simp: jitter_inv_def)
qed

lemma checked_add_one_late:
  "q \<noteq> e \<Longrightarrow> q \<le> e \<Longrightarrow> checked_add q 1 = Some n \<Longrightarrow> \<not> (e :: u64) < n"
proof -
  assume "q \<noteq> e" "q \<le> e" "checked_add q 1 = Some n"
  then have "q < e" and "n = q + 1" by (simp_all add: checked_add_def split: if_splits)
  then show ?thesis using inc_le [of q e] by simp
qed

lemma tick_inv:
  assumes inv: "jitter_inv b"
  shows "jitter_inv (snd (JitterBuffer_tick b))"
proof (cases rule: tick_cases [of b])
  case waiting
  then show ?thesis using inv by simp
next
  case exhausted
  then show ?thesis using inv by (auto simp: jitter_inv_def is_late_def)
next
  case (missing q)
  have "\<not> is_late (fst e) (b\<lparr>jb_next_sequence := checked_add q 1\<rparr>)" if "e \<in> set (jb_frames b)" for e
  proof -
    have "q \<noteq> fst e" using missing(2) that map_of_Some_key by (metis imageI)
    then show ?thesis
      using playout_next_least [OF inv missing(1) that] checked_add_one_late
      by (auto simp: is_late_def split: option.splits)
  qed
  then show ?thesis using inv missing by (simp add: jitter_inv_def is_late_def)
next
  case (emitted q f)
  have "\<not> is_late (fst e) (b\<lparr>jb_next_sequence := checked_add q 1\<rparr>)"
    if "e \<in> set (bt_remove q (jb_frames b))" for e
  proof -
    have e: "q \<noteq> fst e" "e \<in> set (jb_frames b)" using that by (auto simp: bt_remove_def)
    then show ?thesis
      using playout_next_least [OF inv emitted(1) e(2)] checked_add_one_late
      by (auto simp: is_late_def split: option.splits)
  qed
  moreover have "length (bt_remove q (jb_frames b)) \<le> length (jb_frames b)"
    by (simp add: bt_remove_def)
  ultimately show ?thesis
    using inv emitted set_bt_remove [of q "jb_frames b"]
    by (auto simp: jitter_inv_def bt_ok_remove is_late_def)
qed

interpretation jitter: step_machine jitter_step jitter_inv
proof
  fix b e assume "jitter_inv b"
  then show "jitter_inv (jitter_step e b)" by (cases e) (simp_all add: insert_inv tick_inv)
qed

lemma jitter_inv_new: "JitterBuffer_new c t = Ok b \<Longrightarrow> jitter_inv b"
  by (auto simp: JitterBuffer_new_def jitter_inv_def JitterBufferSummary_default_def split: if_splits)

section \<open>Accounting\<close>

definition insertions :: "jitter_event list \<Rightarrow> nat" where
  "insertions es = length (filter (\<lambda>e. e \<noteq> Tick) es)"

definition jitter_accounts :: "nat \<Rightarrow> JitterBuffer \<Rightarrow> bool" where
  "jitter_accounts n b \<longleftrightarrow>
     (let s = jb_summary b in
      unat (js_received s) = n \<and>
      n = unat (js_emitted s) + unat (js_duplicate s) + unat (js_late s) + unat (js_overflow s)
          + js_depth s)"

lemma unat_saturating_Suc: "unat (a :: u64) < 2 ^ 64 - 1 \<Longrightarrow> unat (saturating_add a 1) = Suc (unat a)"
  by (simp add: unat_saturating_add)

lemma insert_accounts:
  assumes "jitter_inv b" and "jitter_accounts n b" and "n < 2 ^ 64 - 1"
  shows "jitter_accounts (Suc n) (JitterBuffer_insert f b)"
proof -
  let ?s = "jb_summary b"
  have n: "unat (js_received ?s) < 2 ^ 64 - 1" "unat (js_late ?s) < 2 ^ 64 - 1"
    "unat (js_duplicate ?s) < 2 ^ 64 - 1" "unat (js_overflow ?s) < 2 ^ 64 - 1"
    using assms(2,3) by (auto simp: jitter_accounts_def Let_def)
  note sat = n [THEN unat_saturating_Suc]
  have len: "js_depth ?s = length (jb_frames b)" using assms(1) by (simp add: jitter_inv_def)
  show ?thesis
    using assms(1)
    by (cases rule: insert_cases [of b f])
      (use assms(2) sat len in \<open>simp_all add: jitter_accounts_def Let_def\<close>)
qed

lemma tick_accounts:
  assumes "jitter_inv b" and "jitter_accounts n b" and "n < 2 ^ 64"
  shows "jitter_accounts n (snd (JitterBuffer_tick b))"
proof (cases rule: tick_cases [of b])
  case (emitted q f)
  let ?s = "jb_summary b"
  have len: "js_depth ?s = length (jb_frames b)" and ok: "bt_ok (jb_frames b)"
    using assms(1) by (simp_all add: jitter_inv_def)
  have "jb_frames b \<noteq> []" using emitted(2) by auto
  then have pos: "0 < length (jb_frames b)" by simp
  then have "unat (js_emitted ?s) < 2 ^ 64 - 1"
    using assms(2,3) len pos unfolding jitter_accounts_def Let_def by linarith
  note sat = unat_saturating_Suc [OF this]
  have "length (bt_remove q (jb_frames b)) = length (jb_frames b) - 1"
    using length_bt_remove [OF ok, of q] emitted(2) by simp
  then show ?thesis
    using assms(2) emitted sat len pos by (simp add: jitter_accounts_def Let_def)
qed (use assms(2) in \<open>simp_all add: jitter_accounts_def Let_def\<close>)

lemma run_accounts:
  "jitter_inv b \<Longrightarrow> jitter_accounts n b \<Longrightarrow> n + insertions es < 2 ^ 64 \<Longrightarrow>
   jitter_accounts (n + insertions es) (fold jitter_step es b)"
proof (induction es arbitrary: b n)
  case Nil
  then show ?case by (simp add: insertions_def)
next
  case (Cons e es)
  show ?case
  proof (cases e)
    case (Insert f)
    then show ?thesis
      using Cons.IH [of "JitterBuffer_insert f b" "Suc n"] Cons.prems insert_inv insert_accounts
      by (simp add: insertions_def)
  next
    case Tick
    then show ?thesis
      using Cons.IH [of "snd (JitterBuffer_tick b)" n] Cons.prems tick_inv tick_accounts
      by (simp add: insertions_def)
  qed
qed

text \<open>
  The jitter buffer loses no frame unaccounted: after any sequence of insertions and ticks
  (fewer than \<open>2^64\<close> insertions), every received frame is counted exactly once, as emitted, as a
  duplicate, as late, as overflow, or as still buffered; the depth it reports is the number of
  buffered frames and never exceeds the capacity.
\<close>

theorem jitter_accounting:
  assumes "JitterBuffer_new c t = Ok b" and "insertions es < 2 ^ 64"
  defines "b' \<equiv> fold jitter_step es b"
  shows "unat (js_received (jb_summary b')) = insertions es \<and>
    insertions es = unat (js_emitted (jb_summary b')) + unat (js_duplicate (jb_summary b'))
      + unat (js_late (jb_summary b')) + unat (js_overflow (jb_summary b')) + length (jb_frames b') \<and>
    js_depth (jb_summary b') = length (jb_frames b') \<and> length (jb_frames b') \<le> jb_capacity b'"
proof -
  have inv: "jitter_inv b" using assms(1) by (rule jitter_inv_new)
  have "jitter_accounts 0 b"
    using assms(1)
    by (auto simp: JitterBuffer_new_def jitter_accounts_def JitterBufferSummary_default_def split: if_splits)
  then have "jitter_accounts (insertions es) b'"
    using run_accounts [OF inv, of 0 es] assms(2) by (simp add: b'_def)
  moreover have "jitter_inv b'" unfolding b'_def using inv by (rule jitter.run_inv)
  ultimately show ?thesis by (simp add: jitter_accounts_def jitter_inv_def Let_def)
qed

theorem jitter_accounting_witness:
  "\<exists>b. JitterBuffer_new 4 2 = Ok b \<and>
     unat (js_received (jb_summary (fold jitter_step [Tick] b))) = 0"
proof -
  obtain b where b: "JitterBuffer_new 4 2 = Ok b" by (simp add: JitterBuffer_new_def)
  have "insertions [Tick] = 0" by (simp add: insertions_def)
  then show ?thesis using jitter_accounting [OF b, of "[Tick]"] b by auto
qed

section \<open>Order of playout\<close>

text \<open>What a buffer may still emit: nothing once exhausted, otherwise nothing before the next.\<close>

definition may_emit :: "u64 \<Rightarrow> JitterBuffer \<Rightarrow> bool" where
  "may_emit q b \<longleftrightarrow> (jb_started b \<longrightarrow> (\<exists>n. jb_next_sequence b = Some n \<and> n \<le> q))"

lemma insert_keeps_next:
  "jb_next_sequence (JitterBuffer_insert f b) = jb_next_sequence b \<and>
   jb_started (JitterBuffer_insert f b) = jb_started b"
  by (simp add: JitterBuffer_insert_def JitterBuffer_store_def Let_def split: option.splits)

lemma checked_add_one: "checked_add q 1 = Some n \<Longrightarrow> q < (n :: u64)"
  using checked_add_Some [of q 1 n] by (simp add: word_less_nat_alt)

lemma tick_may_emit:
  assumes "jitter_inv b" and "may_emit q (snd (JitterBuffer_tick b))"
  shows "may_emit q b"
proof (cases rule: tick_cases [of b])
  case waiting
  then show ?thesis using assms by simp
next
  case exhausted
  then show ?thesis using assms by (simp add: may_emit_def)
next
  case (missing r)
  then show ?thesis
    using assms checked_add_one [of r] by (auto simp: may_emit_def playout_next_def)
next
  case (emitted r f)
  then show ?thesis
    using assms checked_add_one [of r] by (auto simp: may_emit_def playout_next_def)
qed

lemma tick_emits:
  assumes "jitter_inv b" and "JitterBuffer_tick b = (Some f, b')"
  shows "may_emit (fr_sequence f) b \<and> (\<forall>q. may_emit q b' \<longrightarrow> fr_sequence f < q) \<and>
    (fr_sequence f, f) \<in> set (jb_frames b)"
proof (cases rule: tick_cases [of b])
  case (emitted r g)
  then have f: "g = f" and mem: "(r, f) \<in> set (jb_frames b)" and b': "jb_started b'"
    "jb_next_sequence b' = checked_add r 1"
    using assms(2) by (auto dest: map_of_SomeD)
  have "fr_sequence f = r" using assms(1) mem by (auto simp: jitter_inv_def)
  then show ?thesis
    using emitted(1) mem b' checked_add_one [of r] by (auto simp: may_emit_def playout_next_def)
qed (use assms in simp_all)

lemma jitter_run_order:
  "jitter_inv b \<Longrightarrow> sorted_wrt (<) (map fr_sequence (jitter_run es b)) \<and>
     (\<forall>f \<in> set (jitter_run es b). may_emit (fr_sequence f) b)"
proof (induction es b rule: jitter_run.induct)
  case (2 f es b)
  then show ?case
    using insert_inv [of b f] insert_keeps_next [of f b] by (simp add: may_emit_def)
next
  case (3 es b)
  obtain o' b' where t: "JitterBuffer_tick b = (o', b')" by force
  then have inv': "jitter_inv b'" using tick_inv [OF 3(3)] by simp
  have keep: "may_emit q b'  \<Longrightarrow> may_emit q b" for q using tick_may_emit [OF 3(3)] t by simp
  show ?case
  proof (cases o')
    case None
    then show ?thesis using 3(1) [OF t [symmetric]] inv' keep t by auto
  next
    case (Some f)
    have e: "may_emit (fr_sequence f) b" "\<forall>q. may_emit q b' \<longrightarrow> fr_sequence f < q"
      using tick_emits [OF 3(3)] t Some by auto
    have "sorted_wrt (<) (map fr_sequence (jitter_run es b')) \<and>
        (\<forall>f \<in> set (jitter_run es b'). may_emit (fr_sequence f) b')"
      using 3(2) [OF t [symmetric] Some] inv' by simp
    then show ?thesis using t Some e keep by auto
  qed
qed simp

lemma set_bt_insert_sub: "set (bt_insert k v xs) \<subseteq> insert (k, v) (set xs)"
  by (induction k v xs rule: bt_insert.induct) auto

lemma insert_frames_subset:
  assumes "jitter_inv b"
  shows "set (jb_frames (JitterBuffer_insert f b)) \<subseteq> insert (fr_sequence f, f) (set (jb_frames b))"
  using assms
proof (cases rule: insert_cases [of b f])
  case (displaced z)
  then show ?thesis
    using set_bt_insert_sub [of "fr_sequence f" f "bt_remove z (jb_frames b)"]
      set_bt_remove [of z "jb_frames b"] by (simp add: subset_iff) blast
next
  case stored
  then show ?thesis using set_bt_insert_sub by simp
qed (simp_all add: subset_insertI)

lemma tick_frames_subset: "set (jb_frames (snd (JitterBuffer_tick b))) \<subseteq> set (jb_frames b)"
  by (cases rule: tick_cases [of b]) (simp_all add: set_bt_remove)

lemma jitter_run_source:
  "jitter_inv b \<Longrightarrow> f \<in> set (jitter_run es b) \<Longrightarrow> f \<in> snd ` set (jb_frames b) \<or> Insert f \<in> set es"
proof (induction es b rule: jitter_run.induct)
  case (2 g es b)
  then have "f \<in> snd ` set (jb_frames (JitterBuffer_insert g b)) \<or> Insert f \<in> set es"
    using insert_inv [of b g] by simp
  then show ?case using insert_frames_subset [OF 2(2), of g] by auto
next
  case (3 es b)
  obtain o' b' where t: "JitterBuffer_tick b = (o', b')" by force
  then have inv': "jitter_inv b'" and sub: "set (jb_frames b') \<subseteq> set (jb_frames b)"
    using tick_inv [OF 3(3)] tick_frames_subset [of b] by simp_all
  show ?case
  proof (cases o')
    case None
    then have "f \<in> snd ` set (jb_frames b') \<or> Insert f \<in> set es"
      using 3(1) [OF t [symmetric] None inv'] 3(4) t by simp
    then show ?thesis using sub by auto
  next
    case (Some g)
    show ?thesis
    proof (cases "f = g")
      case True
      then show ?thesis using tick_emits [OF 3(3)] t Some by force
    next
      case False
      then have "f \<in> snd ` set (jb_frames b') \<or> Insert f \<in> set es"
        using 3(2) [OF t [symmetric] Some inv'] 3(4) t Some by simp
      then show ?thesis using sub by auto
    qed
  qed
qed simp

text \<open>
  C4: Whatever frames arrive, in whatever order and however ticks fall between them, the frames
  played out have strictly increasing sequence numbers (so none is played twice) and every one of
  them was inserted, unchanged.
\<close>

theorem jitter_playout_order:
  assumes "JitterBuffer_new c t = Ok b"
  shows "sorted_wrt (<) (map fr_sequence (jitter_run es b)) \<and>
    (\<forall>f \<in> set (jitter_run es b). Insert f \<in> set es)"
proof -
  have "jitter_inv b" and "jb_frames b = []"
    using assms jitter_inv_new by (auto simp: JitterBuffer_new_def split: if_splits)
  then show ?thesis
    using jitter_run_order [of b es] jitter_run_source [of b _ es] by auto
qed

definition sample_frame :: "u64 \<Rightarrow> AudioFrame" where
  "sample_frame q = \<lparr>fr_sequence = q, fr_format = HFP_NARROWBAND, fr_samples = replicate 60 0\<rparr>"

theorem jitter_playout_order_witness:
  "\<exists>b. JitterBuffer_new 4 2 = Ok b \<and>
     sorted_wrt (<) (map fr_sequence (jitter_run [Insert (sample_frame 9), Insert (sample_frame 7), Tick, Tick] b))"
proof -
  obtain b where b: "JitterBuffer_new 4 2 = Ok b" by (simp add: JitterBuffer_new_def)
  then show ?thesis using jitter_playout_order [OF b] by blast
qed

section \<open>Reconstruction of a reordered burst\<close>

definition entry :: "AudioFrame \<Rightarrow> u64 \<times> AudioFrame" where
  "entry f = (fr_sequence f, f)"

fun consecutive :: "nat \<Rightarrow> AudioFrame list \<Rightarrow> bool" where
  "consecutive n [] = True"
| "consecutive n (f # fs) = (unat (fr_sequence f) = n \<and> consecutive (Suc n) fs)"

lemma consecutive_ge: "consecutive n fs \<Longrightarrow> f \<in> set fs \<Longrightarrow> n \<le> unat (fr_sequence f)"
  by (induction fs arbitrary: n) (auto dest!: Suc_leD)

lemma consecutive_ok: "consecutive n fs \<Longrightarrow> bt_ok (map entry fs)"
proof (induction fs arbitrary: n)
  case (Cons f fs)
  have "fr_sequence f < fr_sequence g" if "g \<in> set fs" for g
    using Cons.prems consecutive_ge [of "Suc n" fs g] that by (simp add: word_less_nat_alt)
  then show ?case using Cons by (auto simp: bt_ok_def entry_def)
qed simp

lemma burst_insert:
  assumes "jitter_inv b" "\<not> jb_started b" "length (jb_frames b) + length fs \<le> jb_capacity b"
    and "distinct (map fr_sequence fs)" "fr_sequence ` set fs \<inter> fst ` set (jb_frames b) = {}"
  shows "\<exists>b'. (\<forall>es. jitter_run (map Insert fs @ es) b = jitter_run es b') \<and> jitter_inv b' \<and>
    \<not> jb_started b' \<and> jb_target_depth b' = jb_target_depth b \<and>
    set (jb_frames b') = entry ` set fs \<union> set (jb_frames b)"
  using assms
proof (induction fs arbitrary: b)
  case Nil
  then show ?case by (intro exI [of _ b]) simp
next
  case (Cons f fs)
  have next': "jb_next_sequence b = None" using Cons.prems by (simp add: jitter_inv_def)
  have new: "map_of (jb_frames b) (fr_sequence f) = None"
    using Cons.prems by (auto simp: map_of_eq_None_iff)
  have ok: "bt_ok (jb_frames b)" using Cons.prems by (simp add: jitter_inv_def)
  have "fr_sequence f \<notin> fst ` set (jb_frames b)" using Cons.prems by auto
  note set = set_bt_insert [OF ok this, of f]
  let ?b = "JitterBuffer_insert f b"
  from Cons.prems(1) have b: "jb_frames ?b = bt_insert (fr_sequence f) f (jb_frames b)"
      "jb_capacity ?b = jb_capacity b" "jb_target_depth ?b = jb_target_depth b"
    using next' new Cons.prems(3)
    by (cases rule: insert_cases [of b f]; simp add: is_late_def)+
  have inv: "jitter_inv ?b" "\<not> jb_started ?b"
    using insert_inv [OF Cons.prems(1)] insert_keeps_next [of f b] Cons.prems(2) by simp_all
  have "length (jb_frames ?b) + length fs \<le> jb_capacity ?b"
    using Cons.prems(3) b length_bt_insert [OF ok, of "fr_sequence f" f] new by simp
  moreover have "fr_sequence ` set fs \<inter> fst ` set (jb_frames ?b) = {}"
    using Cons.prems(4,5) b(1) set by auto
  ultimately obtain b' where "\<forall>es. jitter_run (map Insert fs @ es) ?b = jitter_run es b'" "jitter_inv b'"
    "\<not> jb_started b'" "jb_target_depth b' = jb_target_depth ?b"
    "set (jb_frames b') = entry ` set fs \<union> set (jb_frames ?b)"
    using Cons.IH [OF inv] Cons.prems(4) by auto
  then show ?case using b set by (intro exI [of _ b']) (auto simp: entry_def)
qed

lemma burst_playout:
  assumes "consecutive n fs" "jb_frames b = map entry fs"
    and "jb_started b \<Longrightarrow> jb_next_sequence b = (if fs = [] then jb_next_sequence b else Some (fr_sequence (hd fs)))"
    and "\<not> jb_started b \<Longrightarrow> jb_target_depth b \<le> length fs"
  shows "jitter_run (replicate (length fs) Tick) b = fs"
  using assms
proof (induction fs arbitrary: n b)
  case (Cons f fs)
  have next': "playout_next b = Some (fr_sequence f)"
    using Cons.prems(2,3) by (cases "jb_started b") (simp_all add: playout_next_def bt_first_def entry_def)
  have found: "map_of (jb_frames b) (fr_sequence f) = Some f"
    using Cons.prems(2) by (simp add: entry_def)
  have rest: "bt_remove (fr_sequence f) (jb_frames b) = map entry fs"
  proof -
    have "map_of (map entry fs) (fr_sequence f) = None"
      using consecutive_ok [OF Cons.prems(1)]
      by (intro map_of_None_less) (auto simp: bt_ok_def entry_def)
    then show ?thesis
      using Cons.prems(2) bt_remove_absent [of "map entry fs" "fr_sequence f"]
      by (simp add: bt_remove_def) (simp add: entry_def)
  qed
  obtain b' where t: "JitterBuffer_tick b = (Some f, b')" and b': "jb_started b'"
    "jb_next_sequence b' = checked_add (fr_sequence f) 1" "jb_frames b' = map entry fs"
    using next' found rest Cons.prems(2,4)
    by (cases rule: tick_cases [of b]) (auto simp: not_le)
  have "checked_add (fr_sequence f) 1 = Some (fr_sequence (hd fs))" if "fs \<noteq> []"
  proof -
    obtain g gs where fs: "fs = g # gs" using \<open>fs \<noteq> []\<close> by (cases fs) auto
    then have g: "unat (fr_sequence g) = Suc (unat (fr_sequence f))" using Cons.prems(1) by simp
    then have lt: "unat (fr_sequence f) + unat (1 :: u64) < 2 ^ LENGTH(64)"
      using unsigned_less [of "fr_sequence g", where 'a = nat] by simp
    then have "unat (fr_sequence f + 1) = unat (fr_sequence g)"
      using g by (simp add: unat_word_ariths)
    then have "fr_sequence f + 1 = fr_sequence g" by (simp add: unsigned_word_eqI)
    with lt fs show ?thesis by (simp add: checked_add_def)
  qed
  then have "jitter_run (replicate (length fs) Tick) b' = fs"
    using Cons.IH [of "Suc n" b'] Cons.prems(1) b' by (cases "fs = []") auto
  with t show ?case by simp
qed simp

text \<open>
  C24: A burst of frames with consecutive sequence numbers that fits the buffer and fills it to
  the target depth is played out completely and in order, whatever order the frames arrived in:
  one tick per frame returns exactly the frames, sorted.
\<close>

theorem jitter_reconstructs_burst:
  assumes "JitterBuffer_new c t = Ok b" and "consecutive n fs" and "mset arrived = mset fs"
    and "t \<le> length fs" and "length fs \<le> c"
  shows "jitter_run (map Insert arrived @ replicate (length fs) Tick) b = fs"
proof -
  have b: "jitter_inv b" "\<not> jb_started b" "jb_frames b = []" "jb_capacity b = c" "jb_target_depth b = t"
    using assms(1) jitter_inv_new by (auto simp: JitterBuffer_new_def split: if_splits)
  have ok: "bt_ok (map entry fs)" using assms(2) by (rule consecutive_ok)
  have "distinct (map fr_sequence fs)"
    using ok by (simp add: bt_ok_def entry_def comp_def strict_sorted_iff)
  then have "distinct (map fr_sequence arrived)"
    using assms(3) by (metis mset_map mset_eq_imp_distinct_iff)
  moreover have "length arrived = length fs" "set arrived = set fs"
    using assms(3) mset_eq_length mset_eq_setD by blast+
  ultimately obtain b' where b': "\<forall>es. jitter_run (map Insert arrived @ es) b = jitter_run es b'"
      "jitter_inv b'" "\<not> jb_started b'" "jb_target_depth b' = t" "set (jb_frames b') = entry ` set fs"
    using burst_insert [of b arrived] b assms(5) by auto
  have "jb_frames b' = map entry fs"
    using b' ok by (intro bt_eq_set) (simp_all add: jitter_inv_def)
  then have "jitter_run (replicate (length fs) Tick) b' = fs"
    using b' assms(2,4) by (intro burst_playout [of n]) simp_all
  with b' show ?thesis by simp
qed

theorem jitter_reconstructs_burst_witness:
  "\<exists>b. JitterBuffer_new 4 2 = Ok b \<and>
     jitter_run [Insert (sample_frame 6), Insert (sample_frame 5), Tick, Tick] b = [sample_frame 5, sample_frame 6]"
proof -
  obtain b where b: "JitterBuffer_new 4 2 = Ok b" by (simp add: JitterBuffer_new_def)
  have "jitter_run (map Insert [sample_frame 6, sample_frame 5] @ replicate (length [sample_frame 5, sample_frame 6]) Tick) b =
      [sample_frame 5, sample_frame 6]"
    by (rule jitter_reconstructs_burst [OF b, of 5]) (simp_all add: sample_frame_def)
  then show ?thesis using b by (auto simp: numeral_2_eq_2)
qed

end
