(* ===== verification/Audio_Queue.thy ===== *)
theory Audio_Queue
  imports Core_Audio
begin

text \<open>
  \<open>BoundedAudioQueue\<close> and \<open>AudioBridge\<close> of \<open>crates/analogconnectd/src/audio.rs\<close>: the two
  queues that carry frames between the call-audio workers and the Android client, which drop the
  oldest frame when full. \<open>frame_queue\<close> is the interface their clients rely on; the clock is an
  argument (nanoseconds).
\<close>

record QueuedFrame =
  qf_frame :: AudioFrame
  qf_enqueued_at :: nat

record AudioQueueSummary =
  qs_depth :: nat
  qs_enqueued :: u64
  qs_dequeued :: u64
  qs_dropped :: u64
  qs_max_observed_latency_micros :: u64

definition AudioQueueSummary_default :: AudioQueueSummary where
  "AudioQueueSummary_default = \<lparr>qs_depth = 0, qs_enqueued = 0, qs_dequeued = 0, qs_dropped = 0,
     qs_max_observed_latency_micros = 0\<rparr>"

record AudioBridgeSummary =
  bs_uplink :: AudioQueueSummary
  bs_downlink :: AudioQueueSummary

record QueueState =
  qst_frames :: "QueuedFrame list"
  qst_summary :: AudioQueueSummary

record BoundedAudioQueue =
  bq_capacity :: nat
  bq_state :: "QueueState mutex"

datatype AudioQueueError = ZeroCapacity | LockPoisoned

definition BoundedAudioQueue_new :: "nat \<Rightarrow> (BoundedAudioQueue, AudioQueueError) result" where
  "BoundedAudioQueue_new capacity =
     (if capacity = 0 then Err ZeroCapacity
      else Ok \<lparr>bq_capacity = capacity,
               bq_state = Mutex False \<lparr>qst_frames = [], qst_summary = AudioQueueSummary_default\<rparr>\<rparr>)"

definition BoundedAudioQueue_push ::
  "AudioFrame \<Rightarrow> nat \<Rightarrow> BoundedAudioQueue \<Rightarrow> (unit, AudioQueueError) result \<times> BoundedAudioQueue" where
  "BoundedAudioQueue_push frame now self =
     (case lock (bq_state self) AudioQueueError.LockPoisoned of
        Inl e \<Rightarrow> (Err e, self)
      | Inr state \<Rightarrow>
          let state = (if length (qst_frames state) = bq_capacity self
                then state\<lparr>qst_frames := tl (qst_frames state),
                           qst_summary := (qst_summary state)\<lparr>qs_dropped :=
                             saturating_add (qs_dropped (qst_summary state)) 1\<rparr>\<rparr>
                else state);
              frames = qst_frames state @ [\<lparr>qf_frame = frame, qf_enqueued_at = now\<rparr>];
              state = state\<lparr>qst_frames := frames,
                            qst_summary := (qst_summary state)\<lparr>
                              qs_enqueued := saturating_add (qs_enqueued (qst_summary state)) 1,
                              qs_depth := length frames\<rparr>\<rparr>
          in (Ok (), self\<lparr>bq_state := unlock_with (bq_state self) state\<rparr>))"

text \<open>\<open>u64::try_from(elapsed.as_micros()).unwrap_or(u64::MAX)\<close>.\<close>

definition latency_micros :: "nat \<Rightarrow> nat \<Rightarrow> u64" where
  "latency_micros enqueued_at now =
     (let micros = (now - enqueued_at) div 1000
      in if micros < 2 ^ 64 then word_of_nat micros else word_max)"

definition BoundedAudioQueue_pop ::
  "nat \<Rightarrow> BoundedAudioQueue \<Rightarrow> (AudioFrame option, AudioQueueError) result \<times> BoundedAudioQueue" where
  "BoundedAudioQueue_pop now self =
     (case lock (bq_state self) AudioQueueError.LockPoisoned of
        Inl e \<Rightarrow> (Err e, self)
      | Inr state \<Rightarrow>
          (case qst_frames state of
             [] \<Rightarrow> (Ok None, self)
           | queued # frames \<Rightarrow>
               let summary = qst_summary state;
                   latency = latency_micros (qf_enqueued_at queued) now;
                   summary = summary\<lparr>qs_dequeued := saturating_add (qs_dequeued summary) 1,
                     qs_max_observed_latency_micros := max (qs_max_observed_latency_micros summary) latency,
                     qs_depth := length frames\<rparr>
               in (Ok (Some (qf_frame queued)),
                   self\<lparr>bq_state := unlock_with (bq_state self)
                          \<lparr>qst_frames = frames, qst_summary = summary\<rparr>\<rparr>)))"

definition BoundedAudioQueue_summary ::
  "BoundedAudioQueue \<Rightarrow> (AudioQueueSummary, AudioQueueError) result" where
  "BoundedAudioQueue_summary self =
     result_bind (lock (bq_state self) AudioQueueError.LockPoisoned) (\<lambda>state. Ok (qst_summary state))"

definition BoundedAudioQueue_reset ::
  "BoundedAudioQueue \<Rightarrow> (unit, AudioQueueError) result \<times> BoundedAudioQueue" where
  "BoundedAudioQueue_reset self =
     (case lock (bq_state self) AudioQueueError.LockPoisoned of
        Inl e \<Rightarrow> (Err e, self)
      | Inr _ \<Rightarrow> (Ok (), self\<lparr>bq_state := unlock_with (bq_state self)
                     \<lparr>qst_frames = [], qst_summary = AudioQueueSummary_default\<rparr>\<rparr>))"

record AudioBridge =
  br_uplink :: BoundedAudioQueue
  br_downlink :: BoundedAudioQueue

definition AudioBridge_new :: "nat \<Rightarrow> (AudioBridge, AudioQueueError) result" where
  "AudioBridge_new frames_per_direction =
     result_bind (BoundedAudioQueue_new frames_per_direction) (\<lambda>up.
     result_bind (BoundedAudioQueue_new frames_per_direction) (\<lambda>down.
       Ok \<lparr>br_uplink = up, br_downlink = down\<rparr>))"

definition AudioBridge_summary :: "AudioBridge \<Rightarrow> (AudioBridgeSummary, AudioQueueError) result" where
  "AudioBridge_summary self =
     result_bind (BoundedAudioQueue_summary (br_uplink self)) (\<lambda>up.
     result_bind (BoundedAudioQueue_summary (br_downlink self)) (\<lambda>down.
       Ok \<lparr>bs_uplink = up, bs_downlink = down\<rparr>))"

definition AudioBridge_reset :: "AudioBridge \<Rightarrow> (unit, AudioQueueError) result \<times> AudioBridge" where
  "AudioBridge_reset self =
     (case BoundedAudioQueue_reset (br_uplink self) of
        (Inl e, up) \<Rightarrow> (Err e, self\<lparr>br_uplink := up\<rparr>)
      | (Inr _, up) \<Rightarrow>
          (case BoundedAudioQueue_reset (br_downlink self) of
             (r, down) \<Rightarrow> (r, self\<lparr>br_uplink := up, br_downlink := down\<rparr>)))"

section \<open>The queue interface\<close>

text \<open>Taking \<open>n\<close> times from a queue.\<close>

fun pop_n :: "('q \<Rightarrow> 'f option \<times> 'q) \<Rightarrow> nat \<Rightarrow> 'q \<Rightarrow> 'f option list \<times> 'q" where
  "pop_n pop 0 q = ([], q)"
| "pop_n pop (Suc n) q = (let (x, q) = pop q; (xs, q) = pop_n pop n q in (x # xs, q))"

locale frame_queue =
  fixes push :: "'f \<Rightarrow> 'q \<Rightarrow> 'q"
    and pop :: "'q \<Rightarrow> 'f option \<times> 'q"
    and contents :: "'q \<Rightarrow> 'f list"
    and room :: "'q \<Rightarrow> nat"
    and ok_queue :: "'q \<Rightarrow> bool"
  assumes push_contents: "ok_queue q \<Longrightarrow> contents (push f q) = evict (room q) (contents q @ [f])"
    and push_room: "room (push f q) = room q"
    and push_ok: "ok_queue q \<Longrightarrow> ok_queue (push f q)"
    and pop_result: "ok_queue q \<Longrightarrow> fst (pop q) = (case contents q of [] \<Rightarrow> None | f # _ \<Rightarrow> Some f)"
    and pop_contents: "ok_queue q \<Longrightarrow> contents (snd (pop q)) = tl (contents q)"
    and pop_ok: "ok_queue q \<Longrightarrow> ok_queue (snd (pop q))"
    and within_room: "ok_queue q \<Longrightarrow> length (contents q) \<le> room q"
begin

lemma push_all:
  "ok_queue q \<Longrightarrow> contents (fold push fs q) = evict (room q) (contents q @ fs) \<and>
     ok_queue (fold push fs q) \<and> room (fold push fs q) = room q"
proof (induction fs arbitrary: q)
  case Nil
  then show ?case using within_room by simp
next
  case (Cons f fs)
  then show ?case
    using Cons.IH [of "push f q"] push_contents push_room push_ok by simp
qed

lemma pop_all:
  "ok_queue q \<Longrightarrow> fst (pop_n pop n q) =
     map Some (take n (contents q)) @ replicate (n - length (contents q)) None \<and>
   contents (snd (pop_n pop n q)) = drop n (contents q) \<and> ok_queue (snd (pop_n pop n q))"
proof (induction n arbitrary: q)
  case 0
  then show ?case by simp
next
  case (Suc n)
  obtain x q' where p: "pop q = (x, q')" by force
  then have q': "ok_queue q'" "contents q' = tl (contents q)"
    and x: "x = (case contents q of [] \<Rightarrow> None | f # _ \<Rightarrow> Some f)"
    using Suc.prems pop_ok pop_contents pop_result by (metis fst_conv snd_conv)+
  show ?case
    using Suc.IH [OF q'(1)] p q'(2) x
    by (cases "contents q") (auto simp: case_prod_unfold)
qed

text \<open>First in, first out, for the frames that fit: a burst pushed comes out in order.\<close>

lemma fifo:
  assumes "ok_queue q" and "contents q = []" and "length fs \<le> room q" and "length fs \<le> n"
  shows "fst (pop_n pop n (fold push fs q)) = map Some fs @ replicate (n - length fs) None"
  using assms push_all [of q fs] pop_all [of "fold push fs q" n] by simp

lemma keeps_newest:
  assumes "ok_queue q"
  shows "fst (pop_n pop (room q) (fold push fs q)) =
    map Some (evict (room q) (contents q @ fs)) @
      replicate (room q - min (length (contents q @ fs)) (room q)) None"
  using assms push_all [of q fs] pop_all [of "fold push fs q" "room q"] by simp

end

section \<open>The bounded queue is a frame queue\<close>

definition queue_contents :: "BoundedAudioQueue \<Rightarrow> AudioFrame list" where
  "queue_contents q = map qf_frame (qst_frames (mutex_data (bq_state q)))"

definition queue_ok :: "BoundedAudioQueue \<Rightarrow> bool" where
  "queue_ok q \<longleftrightarrow> \<not> poisoned (bq_state q) \<and> 0 < bq_capacity q \<and>
     length (qst_frames (mutex_data (bq_state q))) \<le> bq_capacity q \<and>
     qs_depth (qst_summary (mutex_data (bq_state q))) = length (qst_frames (mutex_data (bq_state q)))"

definition queue_push :: "nat \<Rightarrow> AudioFrame \<Rightarrow> BoundedAudioQueue \<Rightarrow> BoundedAudioQueue" where
  "queue_push now f q = snd (BoundedAudioQueue_push f now q)"

definition queue_pop :: "nat \<Rightarrow> BoundedAudioQueue \<Rightarrow> AudioFrame option \<times> BoundedAudioQueue" where
  "queue_pop now q = (case BoundedAudioQueue_pop now q of (r, q') \<Rightarrow> (case r of Inl _ \<Rightarrow> None | Inr x \<Rightarrow> x, q'))"

lemma queue_ok_unlocked: "queue_ok q \<Longrightarrow> bq_state q = Mutex False (mutex_data (bq_state q))"
  by (cases "bq_state q") (simp add: queue_ok_def)

lemma evict_one: "length xs \<le> n \<Longrightarrow> 0 < n \<Longrightarrow>
  evict n (xs @ [x]) = (if length xs = n then tl xs @ [x] else xs @ [x])"
  by (cases xs) (auto simp: evict_drop)

lemma queue_push_state:
  fixes f :: AudioFrame and now :: nat
  assumes "queue_ok q"
  defines "fs \<equiv> qst_frames (mutex_data (bq_state q))"
    and "s \<equiv> qst_summary (mutex_data (bq_state q))"
  defines "fs' \<equiv> evict (bq_capacity q) (fs @ [\<lparr>qf_frame = f, qf_enqueued_at = now\<rparr>])"
  shows "BoundedAudioQueue_push f now q = (Ok (), q\<lparr>bq_state := Mutex False
    \<lparr>qst_frames = fs', qst_summary = s\<lparr>qs_depth := length fs',
       qs_enqueued := saturating_add (qs_enqueued s) 1,
       qs_dropped := (if length fs = bq_capacity q then saturating_add (qs_dropped s) 1 else qs_dropped s)\<rparr>\<rparr>\<rparr>)"
proof -
  obtain st where st: "bq_state q = Mutex False st" using queue_ok_unlocked [OF assms(1)] by metis
  have "length (qst_frames st) \<le> bq_capacity q" "0 < bq_capacity q"
    using assms(1) st by (simp_all add: queue_ok_def)
  then show ?thesis
    using evict_one [of "qst_frames st" "bq_capacity q"]
    by (cases st) (auto simp: BoundedAudioQueue_push_def fs_def s_def fs'_def st Let_def)
qed

lemma queue_pop_state:
  assumes "queue_ok q"
  defines "fs \<equiv> qst_frames (mutex_data (bq_state q))"
    and "s \<equiv> qst_summary (mutex_data (bq_state q))"
  shows "BoundedAudioQueue_pop now q =
    (if fs = [] then (Ok None, q)
     else (Ok (Some (qf_frame (hd fs))), q\<lparr>bq_state := Mutex False
       \<lparr>qst_frames = tl fs, qst_summary = s\<lparr>qs_dequeued := saturating_add (qs_dequeued s) 1,
          qs_max_observed_latency_micros :=
            max (qs_max_observed_latency_micros s) (latency_micros (qf_enqueued_at (hd fs)) now),
          qs_depth := length (tl fs)\<rparr>\<rparr>\<rparr>))"
proof -
  obtain st where st: "bq_state q = Mutex False st" using queue_ok_unlocked [OF assms(1)] by metis
  then show ?thesis
    by (cases "qst_frames st") (simp_all add: BoundedAudioQueue_pop_def fs_def s_def Let_def)
qed

interpretation audio_queue: frame_queue "queue_push now" "queue_pop now" queue_contents bq_capacity queue_ok
  for now
proof
  fix q f assume q: "queue_ok q"
  note push = queue_push_state [OF q, of f now] and pop = queue_pop_state [OF q, of now]
  show "queue_contents (queue_push now f q) = evict (bq_capacity q) (queue_contents q @ [f])"
    by (simp add: push queue_push_def queue_contents_def map_evict)
  show "queue_ok (queue_push now f q)"
    using q by (simp add: push queue_push_def queue_ok_def)
  show "fst (queue_pop now q) = (case queue_contents q of [] \<Rightarrow> None | f # _ \<Rightarrow> Some f)"
    by (cases "qst_frames (mutex_data (bq_state q))") (simp_all add: pop queue_pop_def queue_contents_def)
  show "queue_contents (snd (queue_pop now q)) = tl (queue_contents q)"
    by (cases "qst_frames (mutex_data (bq_state q))") (simp_all add: pop queue_pop_def queue_contents_def)
  show "queue_ok (snd (queue_pop now q))"
    using q by (cases "qst_frames (mutex_data (bq_state q))") (simp_all add: pop queue_pop_def queue_ok_def)
  show "length (queue_contents q) \<le> bq_capacity q"
    using q by (simp add: queue_contents_def queue_ok_def)
next
  fix q f
  show "bq_capacity (queue_push now f q) = bq_capacity q"
    by (cases "bq_state q"; cases "poisoned (bq_state q)")
      (simp_all add: queue_push_def BoundedAudioQueue_push_def Let_def)
qed

lemma queue_ok_new: "BoundedAudioQueue_new c = Ok q \<Longrightarrow> queue_ok q \<and> queue_contents q = [] \<and> bq_capacity q = c"
  by (auto simp: BoundedAudioQueue_new_def queue_ok_def queue_contents_def AudioQueueSummary_default_def
      split: if_splits)

text \<open>
  C25: The bounded queue delivers first in, first out and drops only the oldest: after any burst
  of pushes on a new queue, as many pops as the capacity return exactly the newest frames that
  fit, in the order they were pushed, then nothing; and a burst within the capacity is delivered
  completely.
\<close>

theorem audio_queue_fifo:
  assumes "BoundedAudioQueue_new c = Ok q"
  shows "fst (pop_n (queue_pop now) c (fold (queue_push now) fs q)) =
      map Some (drop (length fs - c) fs) @ replicate (c - length fs) None \<and>
    (length fs \<le> c \<longrightarrow> fst (pop_n (queue_pop now) (length fs) (fold (queue_push now) fs q)) = map Some fs)"
proof -
  have q: "queue_ok q" "queue_contents q = []" "bq_capacity q = c"
    using queue_ok_new [OF assms] by simp_all
  show ?thesis
    using audio_queue.keeps_newest [OF q(1), of now fs] audio_queue.fifo [OF q(1,2), of fs "length fs" now] q
    by (auto simp: evict_drop min_def)
qed

definition queue_frame :: "u64 \<Rightarrow> AudioFrame" where
  "queue_frame n = \<lparr>fr_sequence = n, fr_format = HFP_WIDEBAND, fr_samples = replicate 120 0\<rparr>"

theorem audio_queue_fifo_witness:
  "\<exists>q. BoundedAudioQueue_new 2 = Ok q \<and>
     fst (pop_n (queue_pop 0) 2 (fold (queue_push 0) [queue_frame 1, queue_frame 2, queue_frame 3] q)) =
       [Some (queue_frame 2), Some (queue_frame 3)]"
proof -
  obtain q where q: "BoundedAudioQueue_new 2 = Ok q" by (simp add: BoundedAudioQueue_new_def)
  then show ?thesis using audio_queue_fifo [OF q, of 0 "[queue_frame 1, queue_frame 2, queue_frame 3]"] by simp
qed

section \<open>Accounting\<close>

datatype queue_event = Push AudioFrame nat | Pop nat

fun queue_step :: "queue_event \<Rightarrow> BoundedAudioQueue \<Rightarrow> BoundedAudioQueue" where
  "queue_step (Push f now) q = snd (BoundedAudioQueue_push f now q)"
| "queue_step (Pop now) q = snd (BoundedAudioQueue_pop now q)"

definition queue_accounts :: "nat \<Rightarrow> BoundedAudioQueue \<Rightarrow> bool" where
  "queue_accounts n q \<longleftrightarrow>
     (let s = qst_summary (mutex_data (bq_state q)) in
      unat (qs_enqueued s) = n \<and>
      n = unat (qs_dequeued s) + unat (qs_dropped s) + qs_depth s)"

lemma sat_Suc: "unat (a :: u64) < 2 ^ 64 - 1 \<Longrightarrow> unat (saturating_add a 1) = Suc (unat a)"
  by (simp add: unat_saturating_add)

lemma push_accounts:
  assumes "queue_ok q" and "queue_accounts n q" and "n < 2 ^ 64 - 1"
  shows "queue_accounts (Suc n) (snd (BoundedAudioQueue_push f now q))"
proof -
  let ?s = "qst_summary (mutex_data (bq_state q))"
  have "unat (qs_enqueued ?s) < 2 ^ 64 - 1" "unat (qs_dropped ?s) < 2 ^ 64 - 1"
    using assms(2,3) by (auto simp: queue_accounts_def Let_def)
  note sat = this [THEN sat_Suc]
  show ?thesis
    using assms(1,2) sat
    by (auto simp: queue_push_state [OF assms(1)] queue_accounts_def queue_ok_def Let_def)
qed

lemma pop_accounts:
  assumes "queue_ok q" and "queue_accounts n q" and "n < 2 ^ 64"
  shows "queue_accounts n (snd (BoundedAudioQueue_pop now q))"
proof (cases "qst_frames (mutex_data (bq_state q))")
  case Nil
  then show ?thesis using assms by (simp add: queue_pop_state)
next
  case (Cons x xs)
  let ?s = "qst_summary (mutex_data (bq_state q))"
  have d: "qs_depth ?s = Suc (length xs)" using assms(1) Cons by (simp add: queue_ok_def)
  then have "unat (qs_dequeued ?s) < 2 ^ 64 - 1"
    using assms(2,3) unfolding queue_accounts_def Let_def by linarith
  note sat = sat_Suc [OF this]
  show ?thesis
    using assms(1,2) sat Cons d
    by (simp add: queue_pop_state [OF assms(1)] queue_accounts_def Let_def)
qed

interpretation queue_machine: step_machine queue_step queue_ok
proof
  fix q e assume q: "queue_ok q"
  show "queue_ok (queue_step e q)"
  proof (cases e)
    case (Push f now)
    then show ?thesis using audio_queue.push_ok [OF q, of now f] by (simp add: queue_push_def)
  next
    case (Pop now)
    then show ?thesis
      using audio_queue.pop_ok [OF q, of now] by (simp add: queue_pop_def case_prod_unfold)
  qed
qed

definition pushes :: "queue_event list \<Rightarrow> nat" where
  "pushes es = length (filter (\<lambda>e. case e of Push _ _ \<Rightarrow> True | Pop _ \<Rightarrow> False) es)"

lemma queue_run_accounts:
  "queue_ok q \<Longrightarrow> queue_accounts n q \<Longrightarrow> n + pushes es < 2 ^ 64 \<Longrightarrow>
   queue_accounts (n + pushes es) (fold queue_step es q)"
proof (induction es arbitrary: q n)
  case Nil
  then show ?case by (simp add: pushes_def)
next
  case (Cons e es)
  have ok: "queue_ok (queue_step e q)" using Cons.prems(1) by (rule queue_machine.step_inv)
  show ?case
  proof (cases e)
    case (Push f now)
    then show ?thesis
      using Cons.IH [OF ok, of "Suc n"] Cons.prems push_accounts by (simp add: pushes_def)
  next
    case (Pop now)
    then show ?thesis
      using Cons.IH [OF ok, of n] Cons.prems pop_accounts by (simp add: pushes_def)
  qed
qed

text \<open>
  The queue's counters account for every frame: after any sequence of pushes and pops on a
  new queue (fewer than \<open>2^64\<close> pushes), enqueued frames are exactly those dequeued, dropped and
  still queued, and the reported depth is the number of queued frames, at most the capacity.
\<close>

theorem audio_queue_accounting:
  assumes "BoundedAudioQueue_new c = Ok q" and "pushes es < 2 ^ 64"
  shows "\<exists>s. BoundedAudioQueue_summary (fold queue_step es q) = Ok s \<and>
    unat (qs_enqueued s) = pushes es \<and>
    pushes es = unat (qs_dequeued s) + unat (qs_dropped s) + qs_depth s \<and>
    qs_depth s = length (queue_contents (fold queue_step es q)) \<and> qs_depth s \<le> c"
proof -
  have q: "queue_ok q" "bq_capacity q = c" using queue_ok_new [OF assms(1)] by simp_all
  have cap: "bq_capacity (fold queue_step es q) = c"
    using q
  proof (induction es arbitrary: q)
    case (Cons e es)
    have "bq_capacity (queue_step e q) = c"
      using Cons.prems
      by (cases e) (simp_all add: queue_push_state queue_pop_state)
    then show ?case using Cons.IH queue_machine.step_inv [OF Cons.prems(1)] by simp
  qed simp
  have "queue_accounts 0 q"
    using assms(1) by (auto simp: BoundedAudioQueue_new_def queue_accounts_def
        AudioQueueSummary_default_def split: if_splits)
  then have acc: "queue_accounts (pushes es) (fold queue_step es q)"
    using queue_run_accounts [OF q(1), of 0 es] assms(2) by simp
  have ok: "queue_ok (fold queue_step es q)" using q(1) by (rule queue_machine.run_inv)
  then have "BoundedAudioQueue_summary (fold queue_step es q) =
      Ok (qst_summary (mutex_data (bq_state (fold queue_step es q))))"
    using queue_ok_unlocked [OF ok] by (metis BoundedAudioQueue_summary_def lock_simps(2) result_bind_simps(2))
  then show ?thesis
    using acc ok cap by (auto simp: queue_accounts_def queue_ok_def queue_contents_def Let_def)
qed

theorem audio_queue_accounting_witness:
  "\<exists>q s. BoundedAudioQueue_new 1 = Ok q \<and>
     BoundedAudioQueue_summary (fold queue_step [Pop 3] q) = Ok s \<and> unat (qs_enqueued s) = 0"
proof -
  obtain q where q: "BoundedAudioQueue_new 1 = Ok q" by (simp add: BoundedAudioQueue_new_def)
  then show ?thesis
    using audio_queue_accounting [OF q, of "[Pop 3]"] by (auto simp: pushes_def)
qed

end
