(* ===== verification/Pcm_Stream.thy ===== *)
theory Pcm_Stream
  imports Audio_Queue Jitter_Buffer
begin

text \<open>
  The PCM streams of \<open>crates/analogconnectd/src/audio.rs\<close>: exact frames from an arbitrarily
  chunked byte stream, frames back to bytes, the two worker loops of the live bridge, and the
  diagnostic bridge between frames and ACAP packets. A reader is the sequence of outcomes its
  \<open>read\<close> calls will have, end of file when none is left; a writer keeps what was written.
  A worker's stop flag is the number of iterations it makes before it sees the flag.
\<close>

section \<open>Readers and writers\<close>

datatype io_event = Chunk "u8 list" | Interrupted | IoError

datatype io_result = Count "u8 list" | ErrInterrupted | ErrOther

text \<open>\<open>Read::read\<close> into a buffer of \<open>n\<close> bytes: what does not fit stays for the next call.\<close>

fun io_read :: "nat \<Rightarrow> io_event list \<Rightarrow> io_result \<times> io_event list" where
  "io_read n [] = (Count [], [])"
| "io_read n (Chunk bs # r) =
     (if length bs \<le> n then (Count bs, r) else (Count (take n bs), Chunk (drop n bs) # r))"
| "io_read n (Interrupted # r) = (ErrInterrupted, r)"
| "io_read n (IoError # r) = (ErrOther, r)"

record byte_writer =
  bw_written :: "u8 list"
  bw_broken :: bool

definition write_all :: "u8 list \<Rightarrow> byte_writer \<Rightarrow> (unit, unit) result \<times> byte_writer" where
  "write_all bs w = (if bw_broken w then (Err (), w) else (Ok (), w\<lparr>bw_written := bw_written w @ bs\<rparr>))"

section \<open>Frame reader and writer\<close>

datatype PcmStreamError =
  UnsupportedFormat | TruncatedFrame | ReadFailed | WriteFailed | FormatMismatch | SequenceExhausted
  | InvalidFrame

definition validate_hfp_format :: "AudioFormat \<Rightarrow> (unit, PcmStreamError) result" where
  "validate_hfp_format f =
     (if f = HFP_NARROWBAND \<or> f = HFP_WIDEBAND then Ok () else Err PcmStreamError.UnsupportedFormat)"

record PcmFrameReader =
  pr_reader :: "io_event list"
  pr_format :: AudioFormat
  pr_next_sequence :: u64

definition PcmFrameReader_new ::
  "io_event list \<Rightarrow> AudioFormat \<Rightarrow> (PcmFrameReader, PcmStreamError) result" where
  "PcmFrameReader_new reader format =
     result_bind (validate_hfp_format format) (\<lambda>_.
       Ok \<lparr>pr_reader = reader, pr_format = format, pr_next_sequence = 0\<rparr>)"

definition io_size :: "io_event list \<Rightarrow> nat" where
  "io_size r = sum_list (map (\<lambda>e. case e of Chunk bs \<Rightarrow> Suc (length bs) | _ \<Rightarrow> 1) r)"

lemma io_read_size_Count:
  "(Count bs, r') = io_read n r \<Longrightarrow> bs \<noteq> [] \<Longrightarrow> io_size r' < io_size r"
  by (induction n r rule: io_read.induct) (auto simp: io_size_def split: if_splits)

lemma io_read_size_Interrupted:
  "(ErrInterrupted, r') = io_read n r \<Longrightarrow> io_size r' < io_size r"
  by (induction n r rule: io_read.induct) (auto simp: io_size_def split: if_splits)

text \<open>The loop \<open>while filled < bytes.len()\<close>; the accumulator is the filled part of the buffer.\<close>

function fill_buffer ::
  "nat \<Rightarrow> u8 list \<Rightarrow> io_event list \<Rightarrow> (u8 list option, PcmStreamError) result \<times> io_event list" where
  "fill_buffer need filled reader =
     (if length filled < need
      then case io_read (need - length filled) reader of
             (Count bs, reader') \<Rightarrow>
               if bs = [] then (if filled = [] then Ok None else Err TruncatedFrame, reader')
               else fill_buffer need (filled @ bs) reader'
           | (ErrInterrupted, reader') \<Rightarrow> fill_buffer need filled reader'
           | (ErrOther, reader') \<Rightarrow> (Err ReadFailed, reader')
      else (Ok (Some filled), reader))"
  by pat_completeness auto
termination
  by (relation "measure (\<lambda>(_, _, r). io_size r)") (simp, auto dest: io_read_size_Count io_read_size_Interrupted)

declare fill_buffer.simps [simp del]

definition PcmFrameReader_read_frame ::
  "PcmFrameReader \<Rightarrow> (AudioFrame option, PcmStreamError) result \<times> PcmFrameReader" where
  "PcmFrameReader_read_frame self =
     (let sample_count = unat (samples_per_channel (pr_format self)) in
      case fill_buffer (sample_count * 2) [] (pr_reader self) of
        (Inl e, reader) \<Rightarrow> (Err e, self\<lparr>pr_reader := reader\<rparr>)
      | (Inr None, reader) \<Rightarrow> (Ok None, self\<lparr>pr_reader := reader\<rparr>)
      | (Inr (Some bytes), reader) \<Rightarrow>
          let self = self\<lparr>pr_reader := reader\<rparr>;
              samples = map (\<lambda>(a, b). from_le_bytes [a, b]) (chunks_exact2 bytes);
              sequence = pr_next_sequence self
          in case checked_add sequence 1 of
               None \<Rightarrow> (Err SequenceExhausted, self)
             | Some next_sequence \<Rightarrow>
                 (map_err (\<lambda>_. InvalidFrame)
                    (result_bind (AudioFrame_new sequence (pr_format self) samples) (\<lambda>f. Ok (Some f))),
                  self\<lparr>pr_next_sequence := next_sequence\<rparr>))"

record PcmFrameWriter =
  pw_writer :: byte_writer
  pw_format :: AudioFormat

definition PcmFrameWriter_new ::
  "byte_writer \<Rightarrow> AudioFormat \<Rightarrow> (PcmFrameWriter, PcmStreamError) result" where
  "PcmFrameWriter_new writer format =
     result_bind (validate_hfp_format format) (\<lambda>_. Ok \<lparr>pw_writer = writer, pw_format = format\<rparr>)"

definition PcmFrameWriter_write_frame ::
  "AudioFrame \<Rightarrow> PcmFrameWriter \<Rightarrow> (unit, PcmStreamError) result \<times> PcmFrameWriter" where
  "PcmFrameWriter_write_frame frame self =
     (if fr_format frame \<noteq> pw_format self then (Err FormatMismatch, self)
      else let bytes = concat (map (to_le_bytes 2) (fr_samples frame));
               (r, writer) = write_all bytes (pw_writer self)
        in (map_err (\<lambda>_. WriteFailed) r, self\<lparr>pw_writer := writer\<rparr>))"

section \<open>The live bridge's workers\<close>

definition LIVE_BRIDGE_OK :: u8 where "LIVE_BRIDGE_OK = 0"
definition LIVE_BRIDGE_CAPTURE_FAILED :: u8 where "LIVE_BRIDGE_CAPTURE_FAILED = 1"
definition LIVE_BRIDGE_PLAYBACK_FAILED :: u8 where "LIVE_BRIDGE_PLAYBACK_FAILED = 2"

definition LiveAudioBridge_failure_code :: "u8 \<Rightarrow> string option" where
  "LiveAudioBridge_failure_code failure =
     (if failure = LIVE_BRIDGE_CAPTURE_FAILED then Some ''sco_capture_failed''
      else if failure = LIVE_BRIDGE_PLAYBACK_FAILED then Some ''sco_playback_failed''
      else None)"

datatype live_step_error = Pcm PcmStreamError | QueueUnavailable

definition capture_into_bridge ::
  "nat \<Rightarrow> PcmFrameReader \<times> AudioBridge \<Rightarrow>
   (bool, live_step_error) result \<times> PcmFrameReader \<times> AudioBridge" where
  "capture_into_bridge now st =
     (let (capture, bridge) = st in
      case PcmFrameReader_read_frame capture of
        (Inl e, capture) \<Rightarrow> (Err (Pcm e), capture, bridge)
      | (Inr None, capture) \<Rightarrow> (Ok False, capture, bridge)
      | (Inr (Some frame), capture) \<Rightarrow>
          (case BoundedAudioQueue_push frame now (br_downlink bridge) of
             (r, queue) \<Rightarrow>
               (result_bind (map_err (\<lambda>_. QueueUnavailable) r) (\<lambda>_. Ok True),
                capture, bridge\<lparr>br_downlink := queue\<rparr>)))"

text \<open>The capture worker; the list has the clock at each iteration it makes before it sees the stop flag.\<close>

fun capture_worker ::
  "nat list \<Rightarrow> PcmFrameReader \<times> AudioBridge \<Rightarrow> u8 \<times> PcmFrameReader \<times> AudioBridge" where
  "capture_worker [] st = (LIVE_BRIDGE_OK, st)"
| "capture_worker (now # clock) st =
     (case capture_into_bridge now st of
        (Inr True, st) \<Rightarrow> capture_worker clock st
      | (Inr False, st) \<Rightarrow> (LIVE_BRIDGE_OK, st)
      | (Inl _, st) \<Rightarrow> (LIVE_BRIDGE_CAPTURE_FAILED, st))"

definition playback_from_bridge ::
  "nat \<Rightarrow> AudioFrame \<Rightarrow> PcmFrameWriter \<times> AudioBridge \<Rightarrow>
   (unit, live_step_error) result \<times> PcmFrameWriter \<times> AudioBridge" where
  "playback_from_bridge now silence st =
     (let (playback, bridge) = st in
      case BoundedAudioQueue_pop now (br_uplink bridge) of
        (Inl _, queue) \<Rightarrow> (Err QueueUnavailable, playback, bridge\<lparr>br_uplink := queue\<rparr>)
      | (Inr popped, queue) \<Rightarrow>
          let frame = (case popped of None \<Rightarrow> silence | Some f \<Rightarrow> f);
              (r, playback) = PcmFrameWriter_write_frame frame playback
          in (map_err Pcm r, playback, bridge\<lparr>br_uplink := queue\<rparr>))"

text \<open>
  The playback worker. Each iteration reads the clock when it takes a frame, when it computes how
  long to sleep, and when it restarts a missed schedule; the sleeps it makes are part of the result.
\<close>

record playback_tick =
  pt_pop :: nat
  pt_checked :: nat
  pt_restart :: nat

fun playback_worker ::
  "nat \<Rightarrow> AudioFrame \<Rightarrow> playback_tick list \<Rightarrow> nat \<Rightarrow> PcmFrameWriter \<times> AudioBridge \<Rightarrow>
   u8 \<times> nat list \<times> PcmFrameWriter \<times> AudioBridge" where
  "playback_worker frame_period silence [] deadline st = (LIVE_BRIDGE_OK, [], st)"
| "playback_worker frame_period silence (t # ts) deadline st =
     (let deadline = deadline + frame_period in
      case playback_from_bridge (pt_pop t) silence st of
        (Inl _, st) \<Rightarrow> (LIVE_BRIDGE_PLAYBACK_FAILED, [], st)
      | (Inr _, st) \<Rightarrow>
          if pt_checked t \<le> deadline
          then let (code, sleeps, st) = playback_worker frame_period silence ts deadline st
               in (code, (deadline - pt_checked t) # sleeps, st)
          else playback_worker frame_period silence ts (pt_restart t) st)"

definition silence_frame :: "AudioFormat \<Rightarrow> (AudioFrame, AudioFrameError) result" where
  "silence_frame format = AudioFrame_new 0 format (replicate (unat (samples_per_channel format)) 0)"

section \<open>The diagnostic bridge\<close>

datatype FramedPcmMediaError = UnsupportedFormat | InvalidJitterConfiguration | FormatMismatch | InvalidPacket

record FramedPcmMediaBridge =
  fb_format :: AudioFormat
  fb_uplink :: JitterBuffer

definition FramedPcmMediaBridge_new ::
  "AudioFormat \<Rightarrow> nat \<Rightarrow> nat \<Rightarrow> (FramedPcmMediaBridge, FramedPcmMediaError) result" where
  "FramedPcmMediaBridge_new format capacity target_depth =
     result_bind (map_err (\<lambda>_. FramedPcmMediaError.UnsupportedFormat) (validate_hfp_format format)) (\<lambda>_.
     result_bind (map_err (\<lambda>_. InvalidJitterConfiguration) (JitterBuffer_new capacity target_depth)) (\<lambda>uplink.
       Ok \<lparr>fb_format = format, fb_uplink = uplink\<rparr>))"

definition FramedPcmMediaBridge_encode_downlink ::
  "FramedPcmMediaBridge \<Rightarrow> AudioFrame \<Rightarrow> u64 \<Rightarrow> (u8 list, FramedPcmMediaError) result" where
  "FramedPcmMediaBridge_encode_downlink self frame capture_time_micros =
     (if fr_format frame \<noteq> fb_format self then Err FramedPcmMediaError.FormatMismatch
      else map_err (\<lambda>_. InvalidPacket) (AudioPacket_encode (AudioPacket_new capture_time_micros frame)))"

definition FramedPcmMediaBridge_receive_uplink ::
  "u8 list \<Rightarrow> FramedPcmMediaBridge \<Rightarrow> (unit, FramedPcmMediaError) result \<times> FramedPcmMediaBridge" where
  "FramedPcmMediaBridge_receive_uplink packet self =
     (case AudioPacket_decode packet of
        Inl _ \<Rightarrow> (Err InvalidPacket, self)
      | Inr packet \<Rightarrow>
          if fr_format (pk_frame packet) \<noteq> fb_format self then (Err FramedPcmMediaError.FormatMismatch, self)
          else (Ok (), self\<lparr>fb_uplink := JitterBuffer_insert (pk_frame packet) (fb_uplink self)\<rparr>))"

definition FramedPcmMediaBridge_tick_uplink ::
  "FramedPcmMediaBridge \<Rightarrow> AudioFrame option \<times> FramedPcmMediaBridge" where
  "FramedPcmMediaBridge_tick_uplink self =
     (case JitterBuffer_tick (fb_uplink self) of (f, uplink) \<Rightarrow> (f, self\<lparr>fb_uplink := uplink\<rparr>))"

section \<open>Filling a buffer\<close>

text \<open>The bytes a reader still holds, and readers that neither fail nor end early.\<close>

definition io_bytes :: "io_event list \<Rightarrow> u8 list" where
  "io_bytes r = concat (map (\<lambda>e. case e of Chunk bs \<Rightarrow> bs | _ \<Rightarrow> []) r)"

definition io_good :: "io_event list \<Rightarrow> bool" where
  "io_good r \<longleftrightarrow> list_all (\<lambda>e. e \<noteq> IoError \<and> e \<noteq> Chunk []) r"

lemma io_bytes_Cons [simp]:
  "io_bytes [] = []" "io_bytes (Chunk bs # r) = bs @ io_bytes r" "io_bytes (Interrupted # r) = io_bytes r"
  by (simp_all add: io_bytes_def)

lemma io_good_Cons [simp]:
  "io_good []" "io_good (Chunk bs # r) \<longleftrightarrow> bs \<noteq> [] \<and> io_good r" "io_good (Interrupted # r) \<longleftrightarrow> io_good r"
  "\<not> io_good (IoError # r)"
  by (simp_all add: io_good_def)

lemma fill_buffer_full: "length filled = need \<Longrightarrow> fill_buffer need filled r = (Ok (Some filled), r)"
  by (simp add: fill_buffer.simps)

lemma fill_buffer_enough:
  "io_good r \<Longrightarrow> length filled \<le> need \<Longrightarrow> need - length filled \<le> length (io_bytes r) \<Longrightarrow>
   \<exists>r'. fill_buffer need filled r = (Ok (Some (filled @ take (need - length filled) (io_bytes r))), r') \<and>
     io_good r' \<and> io_bytes r' = drop (need - length filled) (io_bytes r)"
proof (induction need filled r rule: fill_buffer.induct)
  case (1 need filled r)
  show ?case
  proof (cases "length filled < need")
    case False
    then show ?thesis using 1(3,4) by (simp add: fill_buffer_full)
  next
    case need: True
    let ?n = "need - length filled"
    show ?thesis
    proof (cases r)
      case Nil
      then show ?thesis using 1(5) need by simp
    next
      case (Cons e es)
      show ?thesis
      proof (cases e)
        case (Chunk bs)
        then have bs: "bs \<noteq> []" "io_good es" using 1(3) Cons by simp_all
        show ?thesis
        proof (cases "length bs \<le> ?n")
          case True
          then have rd: "io_read ?n r = (Count bs, es)" using Cons Chunk by simp
          have "\<exists>r'. fill_buffer need (filled @ bs) es =
              (Ok (Some ((filled @ bs) @ take (need - length (filled @ bs)) (io_bytes es))), r') \<and>
              io_good r' \<and> io_bytes r' = drop (need - length (filled @ bs)) (io_bytes es)"
            using 1(1) [OF need rd [symmetric] refl bs(1) bs(2)] 1(5) True Cons Chunk need by auto
          then show ?thesis
            using need rd bs True Cons Chunk by (subst fill_buffer.simps) auto
        next
          case False
          then have rd: "io_read ?n r = (Count (take ?n bs), Chunk (drop ?n bs) # es)"
            using Cons Chunk by simp
          have "take ?n bs \<noteq> []" using need bs by simp
          then have "fill_buffer need filled r = fill_buffer need (filled @ take ?n bs) (Chunk (drop ?n bs) # es)"
            using need rd by (subst fill_buffer.simps) simp
          moreover have "length (filled @ take ?n bs) = need" using need False by simp
          ultimately show ?thesis
            using fill_buffer_full [of "filled @ take ?n bs" need] False bs Cons Chunk by simp
        qed
      next
        case Interrupted
        then have rd: "io_read ?n r = (ErrInterrupted, es)" using Cons by simp
        then show ?thesis
          using 1(2) [OF need rd [symmetric] refl] 1(3-5) Cons Interrupted need
          by (subst fill_buffer.simps) auto
      next
        case IoError
        then show ?thesis using 1(3) Cons by simp
      qed
    qed
  qed
qed

lemma fill_buffer_eof:
  "io_good r \<Longrightarrow> io_bytes r = [] \<Longrightarrow> 0 < need \<Longrightarrow> \<exists>r'. fill_buffer need [] r = (Ok None, r') \<and> io_good r'"
proof (induction r)
  case Nil
  then show ?case by (simp add: fill_buffer.simps)
next
  case (Cons e r)
  show ?case
  proof (cases e)
    case Interrupted
    then show ?thesis using Cons by (simp add: fill_buffer.simps [of need "[]" "Interrupted # r"])
  qed (use Cons in simp_all)
qed

section \<open>Round trip of the PCM stream\<close>

definition frame_bytes :: "AudioFrame \<Rightarrow> u8 list" where
  "frame_bytes f = concat (map (to_le_bytes 2) (fr_samples f))"

text \<open>The frames as a reader numbers them.\<close>

fun renumber :: "u64 \<Rightarrow> AudioFrame list \<Rightarrow> AudioFrame list" where
  "renumber n [] = []"
| "renumber n (f # fs) = f\<lparr>fr_sequence := n\<rparr> # renumber (n + 1) fs"

definition stream_frame :: "AudioFormat \<Rightarrow> AudioFrame \<Rightarrow> bool" where
  "stream_frame fmt f \<longleftrightarrow> fr_format f = fmt \<and> frame_ok f"

lemma length_renumber [simp]: "length (renumber n fs) = length fs"
  by (induction fs arbitrary: n) simp_all

lemma stream_frame_length:
  "hfp_format fmt \<Longrightarrow> stream_frame fmt f \<Longrightarrow> length (fr_samples f) = unat (samples_per_channel fmt)"
  using hfp_frame_samples by (auto simp: stream_frame_def)

lemma length_frame_bytes:
  "hfp_format fmt \<Longrightarrow> stream_frame fmt f \<Longrightarrow> length (frame_bytes f) = unat (samples_per_channel fmt) * 2"
  unfolding frame_bytes_def by (subst length_samples_bytes) (simp add: stream_frame_length)

lemma samples_pos: "hfp_format fmt \<Longrightarrow> 0 < unat (samples_per_channel fmt)"
  by (auto simp: hfp_format_def hfp_format_defs)

lemma read_frame_step:
  assumes "hfp_format (pr_format p)" and "stream_frame (pr_format p) f" and "io_good (pr_reader p)"
    and "io_bytes (pr_reader p) = frame_bytes f @ rest" and "unat (pr_next_sequence p) + 1 < 2 ^ 64"
  shows "\<exists>r'. PcmFrameReader_read_frame p =
      (Ok (Some (f\<lparr>fr_sequence := pr_next_sequence p\<rparr>)),
       p\<lparr>pr_reader := r', pr_next_sequence := pr_next_sequence p + 1\<rparr>) \<and> io_good r' \<and> io_bytes r' = rest"
proof -
  let ?n = "unat (samples_per_channel (pr_format p)) * 2"
  have len: "length (frame_bytes f) = ?n" using assms(1,2) by (rule length_frame_bytes)
  obtain r' where r': "fill_buffer ?n [] (pr_reader p) = (Ok (Some (frame_bytes f)), r')"
      "io_good r'" "io_bytes r' = rest"
    using fill_buffer_enough [OF assms(3), of "[]" ?n] assms(4) len by auto
  have seq: "checked_add (pr_next_sequence p) 1 = Some (pr_next_sequence p + 1)"
    using assms(5) by (simp add: checked_add_def)
  have samples: "map (\<lambda>(a, b). from_le_bytes [a, b]) (chunks_exact2 (frame_bytes f)) = fr_samples f"
    unfolding frame_bytes_def by (rule samples_roundtrip)
  have "AudioFrame_new (pr_next_sequence p) (pr_format p) (fr_samples f) =
      Ok (f\<lparr>fr_sequence := pr_next_sequence p\<rparr>)"
    using assms(2) by (cases f) (auto simp: AudioFrame_new_Ok_iff stream_frame_def frame_ok_def)
  then show ?thesis
    using r' seq samples
    by (intro exI [of _ r']) (simp add: PcmFrameReader_read_frame_def Let_def del: from_le_bytes.simps)
qed

lemma read_frame_eof:
  assumes "hfp_format (pr_format p)" and "io_good (pr_reader p)" and "io_bytes (pr_reader p) = []"
  shows "\<exists>r'. PcmFrameReader_read_frame p = (Ok None, p\<lparr>pr_reader := r'\<rparr>) \<and> io_good r'"
proof -
  let ?n = "unat (samples_per_channel (pr_format p)) * 2"
  obtain r' where "fill_buffer ?n [] (pr_reader p) = (Ok None, r')" "io_good r'"
    using fill_buffer_eof [OF assms(2,3), of ?n] samples_pos [OF assms(1)] by auto
  then show ?thesis
    by (intro exI [of _ r']) (simp add: PcmFrameReader_read_frame_def Let_def)
qed

lemma write_frame_step:
  assumes "fr_format f = pw_format w" and "\<not> bw_broken (pw_writer w)"
  shows "PcmFrameWriter_write_frame f w =
    (Ok (), w\<lparr>pw_writer := (pw_writer w)\<lparr>bw_written := bw_written (pw_writer w) @ frame_bytes f\<rparr>\<rparr>)"
  using assms by (simp add: PcmFrameWriter_write_frame_def write_all_def frame_bytes_def)

text \<open>Writing a list of frames, and reading a number of times.\<close>

definition write_frames :: "AudioFrame list \<Rightarrow> PcmFrameWriter \<Rightarrow> PcmFrameWriter" where
  "write_frames fs w = fold (\<lambda>f w. snd (PcmFrameWriter_write_frame f w)) fs w"

fun read_frames :: "nat \<Rightarrow> PcmFrameReader \<Rightarrow> (AudioFrame option, PcmStreamError) result list" where
  "read_frames 0 p = []"
| "read_frames (Suc n) p = (let (r, p) = PcmFrameReader_read_frame p in r # read_frames n p)"

lemma write_frames_bytes:
  "list_all (\<lambda>f. fr_format f = pw_format w) fs \<Longrightarrow> \<not> bw_broken (pw_writer w) \<Longrightarrow>
   bw_written (pw_writer (write_frames fs w)) = bw_written (pw_writer w) @ concat (map frame_bytes fs)"
  unfolding write_frames_def
  by (induction fs arbitrary: w) (simp_all add: write_frame_step)

lemma read_frames_bytes:
  "hfp_format (pr_format p) \<Longrightarrow> list_all (stream_frame (pr_format p)) fs \<Longrightarrow> io_good (pr_reader p) \<Longrightarrow>
   io_bytes (pr_reader p) = concat (map frame_bytes fs) \<Longrightarrow>
   unat (pr_next_sequence p) + length fs < 2 ^ 64 \<Longrightarrow>
   read_frames (Suc (length fs)) p =
     map (\<lambda>f. Ok (Some f)) (renumber (pr_next_sequence p) fs) @ [Ok None]"
proof (induction fs arbitrary: p)
  case Nil
  then show ?case using read_frame_eof [of p] by auto
next
  case (Cons f fs)
  obtain r' where r': "PcmFrameReader_read_frame p =
      (Ok (Some (f\<lparr>fr_sequence := pr_next_sequence p\<rparr>)),
       p\<lparr>pr_reader := r', pr_next_sequence := pr_next_sequence p + 1\<rparr>)" "io_good r'"
      "io_bytes r' = concat (map frame_bytes fs)"
    using read_frame_step [of p f "concat (map frame_bytes fs)"] Cons.prems by auto
  have "unat (pr_next_sequence p + 1) = unat (pr_next_sequence p) + 1"
    using Cons.prems(5) by (simp add: unat_word_ariths)
  then show ?case
    using Cons.IH [of "p\<lparr>pr_reader := r', pr_next_sequence := pr_next_sequence p + 1\<rparr>"] Cons.prems r'
    by simp
qed

text \<open>
  C17: PCM framing is lossless whatever the pipe does: frames of one HFP format written to a
  stream and read back through any chunking of the bytes, with any number of interrupted reads
  between the chunks, come out as the same frames in the same order, numbered from zero, followed
  by a clean end of file.
\<close>

theorem pcm_stream_roundtrip:
  assumes "PcmFrameWriter_new \<lparr>bw_written = [], bw_broken = False\<rparr> fmt = Ok w"
    and "list_all (stream_frame fmt) fs" and "length fs < 2 ^ 64"
    and "io_good r" and "io_bytes r = bw_written (pw_writer (write_frames fs w))"
  shows "\<exists>p. PcmFrameReader_new r fmt = Ok p \<and>
    read_frames (Suc (length fs)) p = map (\<lambda>f. Ok (Some f)) (renumber 0 fs) @ [Ok None]"
proof -
  have fmt: "hfp_format fmt" and w: "w = \<lparr>pw_writer = \<lparr>bw_written = [], bw_broken = False\<rparr>, pw_format = fmt\<rparr>"
    using assms(1)
    by (auto simp: PcmFrameWriter_new_def validate_hfp_format_def hfp_format_def split: if_splits)
  have "list_all (\<lambda>f. fr_format f = fmt) fs"
    using assms(2) by (auto simp: list_all_iff stream_frame_def)
  then have "io_bytes r = concat (map frame_bytes fs)"
    using write_frames_bytes [of w fs] assms(5) w by simp
  moreover have "PcmFrameReader_new r fmt = Ok \<lparr>pr_reader = r, pr_format = fmt, pr_next_sequence = 0\<rparr>"
    using fmt by (auto simp: PcmFrameReader_new_def validate_hfp_format_def hfp_format_def)
  ultimately show ?thesis
    using read_frames_bytes [of "\<lparr>pr_reader = r, pr_format = fmt, pr_next_sequence = 0\<rparr>" fs]
      fmt assms(2-4) by simp
qed

lemma narrow_frame_ok: "stream_frame HFP_NARROWBAND (sample_frame q)"
  by (simp add: stream_frame_def sample_frame_def frame_ok_def hfp_format_defs)

theorem pcm_stream_roundtrip_witness:
  "\<exists>r p. read_frames 2 p = [Ok (Some (sample_frame 0)), Ok None] \<and> length r = 3 \<and> PcmFrameReader_new r HFP_NARROWBAND = Ok p"
proof -
  let ?w = "\<lparr>pw_writer = \<lparr>bw_written = [], bw_broken = False\<rparr>, pw_format = HFP_NARROWBAND\<rparr>"
  let ?bs = "frame_bytes (sample_frame 9)"
  let ?r = "[Chunk (take 7 ?bs), Interrupted, Chunk (drop 7 ?bs)]"
  have w: "PcmFrameWriter_new \<lparr>bw_written = [], bw_broken = False\<rparr> HFP_NARROWBAND = Ok ?w"
    by (simp add: PcmFrameWriter_new_def validate_hfp_format_def)
  have "length ?bs = 120"
    using length_frame_bytes [OF _ narrow_frame_ok, of 9] by (simp add: hfp_format_def HFP_NARROWBAND_def)
  then have good: "io_good ?r" by auto
  have "fr_format (sample_frame 9) = HFP_NARROWBAND" by (simp add: sample_frame_def)
  then have bytes: "io_bytes ?r = bw_written (pw_writer (write_frames [sample_frame 9] ?w))"
    using write_frames_bytes [of ?w "[sample_frame 9]"] by simp
  have "renumber 0 [sample_frame 9] = [sample_frame 0]" by (simp add: sample_frame_def)
  then obtain p where "PcmFrameReader_new ?r HFP_NARROWBAND = Ok p"
      "read_frames (Suc (length [sample_frame 9])) p = [Ok (Some (sample_frame 0)), Ok None]"
    using pcm_stream_roundtrip [OF w _ _ good bytes] narrow_frame_ok by fastforce
  moreover have "length ?r = 3" by simp
  ultimately show ?thesis by (metis One_nat_def list.size(3,4) Suc_1 add.right_neutral add_Suc_right)
qed

section \<open>The workers\<close>

lemma capture_step:
  assumes "hfp_format (pr_format p)" and "stream_frame (pr_format p) f" and "io_good (pr_reader p)"
    and "io_bytes (pr_reader p) = frame_bytes f @ rest" and "unat (pr_next_sequence p) + 1 < 2 ^ 64"
    and "queue_ok (br_downlink br)"
  shows "\<exists>r'. capture_into_bridge now (p, br) =
      (Ok True, p\<lparr>pr_reader := r', pr_next_sequence := pr_next_sequence p + 1\<rparr>,
       br\<lparr>br_downlink := queue_push now (f\<lparr>fr_sequence := pr_next_sequence p\<rparr>) (br_downlink br)\<rparr>) \<and>
    io_good r' \<and> io_bytes r' = rest"
proof -
  let ?f = "f\<lparr>fr_sequence := pr_next_sequence p\<rparr>"
  obtain r' where r': "PcmFrameReader_read_frame p = (Ok (Some ?f),
       p\<lparr>pr_reader := r', pr_next_sequence := pr_next_sequence p + 1\<rparr>)" "io_good r'" "io_bytes r' = rest"
    using read_frame_step [OF assms(1-5)] by blast
  have "fst (BoundedAudioQueue_push ?f now (br_downlink br)) = Ok ()"
    using queue_push_state [OF assms(6), of ?f now] by simp
  with r' show ?thesis
    by (auto simp: capture_into_bridge_def queue_push_def split: prod.splits)
qed

text \<open>
  C27: The capture worker delivers the call's audio: on a stream that carries whole frames and
  then ends, it stops by itself without a failure code, and the downlink queue then holds the
  frames, numbered in order, after what it held before, the oldest dropped where the queue is
  full.
\<close>

theorem capture_worker_delivers:
  assumes "hfp_format (pr_format p)" and "list_all (stream_frame (pr_format p)) fs"
    and "io_good (pr_reader p)" and "io_bytes (pr_reader p) = concat (map frame_bytes fs)"
    and "unat (pr_next_sequence p) + length fs < 2 ^ 64" and "queue_ok (br_downlink br)"
    and "length fs < length clock"
  shows "\<exists>p' br'. capture_worker clock (p, br) = (LIVE_BRIDGE_OK, p', br') \<and>
    queue_contents (br_downlink br') =
      evict (bq_capacity (br_downlink br)) (queue_contents (br_downlink br) @ renumber (pr_next_sequence p) fs) \<and>
    br_uplink br' = br_uplink br"
  using assms
proof (induction fs arbitrary: p br clock)
  case Nil
  then obtain now k where n: "clock = now # k" by (cases clock) auto
  obtain r' where "PcmFrameReader_read_frame p = (Ok None, p\<lparr>pr_reader := r'\<rparr>)"
    using read_frame_eof [of p] Nil by auto
  then show ?case
    using n Nil(6) audio_queue.within_room [of "br_downlink br"]
    by (simp add: capture_into_bridge_def)
next
  case (Cons f fs)
  then obtain now k where n: "clock = now # k" by (cases clock) auto
  let ?f = "f\<lparr>fr_sequence := pr_next_sequence p\<rparr>"
  let ?q = "queue_push now ?f (br_downlink br)"
  obtain r' where r': "capture_into_bridge now (p, br) =
      (Ok True, p\<lparr>pr_reader := r', pr_next_sequence := pr_next_sequence p + 1\<rparr>, br\<lparr>br_downlink := ?q\<rparr>)"
      "io_good r'" "io_bytes r' = concat (map frame_bytes fs)"
    using capture_step [of p f "concat (map frame_bytes fs)" br now] Cons.prems by auto
  have q: "queue_ok ?q" "queue_contents ?q = evict (bq_capacity (br_downlink br)) (queue_contents (br_downlink br) @ [?f])"
      "bq_capacity ?q = bq_capacity (br_downlink br)"
    using audio_queue.push_ok audio_queue.push_contents audio_queue.push_room Cons.prems(6) by blast+
  have "unat (pr_next_sequence p + 1) = unat (pr_next_sequence p) + 1"
    using Cons.prems(5) by (simp add: unat_word_ariths)
  then show ?case
    using Cons.IH [of "p\<lparr>pr_reader := r', pr_next_sequence := pr_next_sequence p + 1\<rparr>"
        "br\<lparr>br_downlink := ?q\<rparr>" k] Cons.prems r' q n
    by simp
qed

theorem capture_worker_delivers_witness:
  "\<exists>p br p' br'. capture_worker [0, 7, 9] (p, br) = (LIVE_BRIDGE_OK, p', br') \<and>
     queue_contents (br_downlink br') = [sample_frame 0]"
proof -
  let ?p = "\<lparr>pr_reader = [Chunk (frame_bytes (sample_frame 9))], pr_format = HFP_NARROWBAND, pr_next_sequence = 0\<rparr>"
  obtain q where q: "BoundedAudioQueue_new 2 = Ok q" by (simp add: BoundedAudioQueue_new_def)
  have "frame_bytes (sample_frame 9) \<noteq> []"
    using length_frame_bytes [OF _ narrow_frame_ok, of 9] by (auto simp: hfp_format_def HFP_NARROWBAND_def)
  moreover have "renumber 0 [sample_frame 9] = [sample_frame 0]" by (simp add: sample_frame_def)
  ultimately show ?thesis
    using capture_worker_delivers [of ?p "[sample_frame 9]" "\<lparr>br_uplink = q, br_downlink = q\<rparr>" "[0, 7, 9]"]
      queue_ok_new [OF q] narrow_frame_ok
    by (auto simp: hfp_format_def)
qed

lemma playback_step:
  assumes "queue_ok (br_uplink br)" and "\<not> bw_broken (pw_writer w)" and "fr_format s = pw_format w"
    and "list_all (\<lambda>f. fr_format f = pw_format w) (queue_contents (br_uplink br))"
  defines "f \<equiv> (case queue_contents (br_uplink br) of [] \<Rightarrow> s | f # _ \<Rightarrow> f)"
  shows "playback_from_bridge now s (w, br) =
    (Ok (), w\<lparr>pw_writer := (pw_writer w)\<lparr>bw_written := bw_written (pw_writer w) @ frame_bytes f\<rparr>\<rparr>,
     br\<lparr>br_uplink := snd (queue_pop now (br_uplink br))\<rparr>)"
proof -
  let ?q = "br_uplink br"
  obtain r q' where pop: "BoundedAudioQueue_pop now ?q = (r, q')" by force
  then obtain x where r: "r = Ok x"
    using queue_pop_state [OF assms(1), of now] by (auto split: if_splits)
  have x: "x = (case queue_contents ?q of [] \<Rightarrow> None | f # _ \<Rightarrow> Some f)"
    using audio_queue.pop_result [OF assms(1), of now] pop r by (simp add: queue_pop_def)
  have "fr_format f = pw_format w"
    using assms(3,4) by (auto simp: f_def split: list.splits)
  moreover have "(case x of None \<Rightarrow> s | Some f \<Rightarrow> f) = f" by (simp add: x f_def split: list.splits)
  ultimately show ?thesis
    using pop r write_frame_step [of f w] assms(2)
    by (simp add: playback_from_bridge_def queue_pop_def)
qed

lemma take_pad: "take (n - k) (s # replicate n s) = replicate (n - k) s"
  using take_replicate [of "n - k" "Suc n" s] by (simp add: min_def)

text \<open>
  The playback worker never starves the call: each of its iterations writes exactly one
  frame, the frames of the uplink queue in order and silence once it is empty, and it reports no
  failure while the pipe accepts bytes.
\<close>

theorem playback_worker_output:
  assumes "queue_ok (br_uplink br)" and "\<not> bw_broken (pw_writer w)" and "fr_format s = pw_format w"
    and "list_all (\<lambda>f. fr_format f = pw_format w) (queue_contents (br_uplink br))"
  shows "\<exists>sleeps w' br'. playback_worker period s ts deadline (w, br) = (LIVE_BRIDGE_OK, sleeps, w', br') \<and>
    bw_written (pw_writer w') = bw_written (pw_writer w) @
      concat (map frame_bytes (take (length ts) (queue_contents (br_uplink br) @ replicate (length ts) s))) \<and>
    queue_contents (br_uplink br') = drop (length ts) (queue_contents (br_uplink br))"
  using assms
proof (induction ts arbitrary: w br deadline)
  case Nil
  then show ?case by simp
next
  case (Cons t ts)
  let ?now = "pt_pop t" and ?q = "br_uplink br"
  let ?q' = "snd (queue_pop ?now ?q)"
  have q': "queue_ok ?q'" "queue_contents ?q' = tl (queue_contents ?q)"
    using audio_queue.pop_ok audio_queue.pop_contents Cons.prems(1) by blast+
  have fmt: "list_all (\<lambda>f. fr_format f = pw_format w) (queue_contents ?q')"
    using Cons.prems(4) q'(2) by (cases "queue_contents ?q") simp_all
  define f where "f = (case queue_contents ?q of [] \<Rightarrow> s | f # _ \<Rightarrow> f)"
  let ?w = "w\<lparr>pw_writer := (pw_writer w)\<lparr>bw_written := bw_written (pw_writer w) @ frame_bytes f\<rparr>\<rparr>"
  have step: "playback_from_bridge ?now s (w, br) = (Ok (), ?w, br\<lparr>br_uplink := ?q'\<rparr>)"
    using playback_step [OF Cons.prems, of ?now] by (simp add: f_def)
  define d where "d = (if pt_checked t \<le> deadline + period then deadline + period else pt_restart t)"
  obtain sleeps w' br' where rest:
    "playback_worker period s ts d (?w, br\<lparr>br_uplink := ?q'\<rparr>) = (LIVE_BRIDGE_OK, sleeps, w', br')"
    "bw_written (pw_writer w') = bw_written (pw_writer ?w) @
      concat (map frame_bytes (take (length ts) (queue_contents ?q' @ replicate (length ts) s)))"
    "queue_contents (br_uplink br') = drop (length ts) (queue_contents ?q')"
    using Cons.IH [of "br\<lparr>br_uplink := ?q'\<rparr>" ?w d] q' fmt Cons.prems by auto
  have "\<exists>sl. playback_worker period s (t # ts) deadline (w, br) = (LIVE_BRIDGE_OK, sl, w', br')"
    using step rest(1) by (auto simp: d_def split: if_splits)
  then show ?case
    using rest(2,3) q'(2) f_def by (cases "queue_contents ?q") (auto simp: drop_Suc take_pad)
qed

theorem playback_worker_output_witness:
  "\<exists>sleeps w' br' q. playback_worker 7500000 (sample_frame 0)
      [\<lparr>pt_pop = 0, pt_checked = 1, pt_restart = 2\<rparr>, \<lparr>pt_pop = 8000000, pt_checked = 99000000, pt_restart = 99000001\<rparr>] 0
      (\<lparr>pw_writer = \<lparr>bw_written = [], bw_broken = False\<rparr>, pw_format = HFP_NARROWBAND\<rparr>,
       \<lparr>br_uplink = queue_push 0 (sample_frame 4) q, br_downlink = q\<rparr>) = (LIVE_BRIDGE_OK, sleeps, w', br')"
proof -
  obtain q where q: "BoundedAudioQueue_new 2 = Ok q" by (simp add: BoundedAudioQueue_new_def)
  let ?q = "queue_push 0 (sample_frame 4) q"
  have "queue_ok ?q" "queue_contents ?q = [sample_frame 4]"
    using queue_ok_new [OF q] audio_queue.push_ok [of q 0] audio_queue.push_contents [of q 0 "sample_frame 4"]
    by simp_all
  then show ?thesis
    using playback_worker_output [of "\<lparr>br_uplink = ?q, br_downlink = q\<rparr>"
      "\<lparr>pw_writer = \<lparr>bw_written = [], bw_broken = False\<rparr>, pw_format = HFP_NARROWBAND\<rparr>" "sample_frame 0"
      7500000 "[\<lparr>pt_pop = 0, pt_checked = 1, pt_restart = 2\<rparr>,
         \<lparr>pt_pop = 8000000, pt_checked = 99000000, pt_restart = 99000001\<rparr>]" 0]
    by (auto simp: sample_frame_def)
qed

section \<open>The diagnostic bridge end to end\<close>

text \<open>
  What one end of the diagnostic bridge encodes, the other end receives: a valid frame of the
  common format whose sequence fits is encoded, and receiving the packet inserts exactly this
  frame into the peer's jitter buffer; a packet of another format, or bytes that are no packet,
  leave the buffer untouched and are reported.
\<close>

theorem framed_bridge_end_to_end:
  assumes "frame_ok f" and "fr_format f = fb_format a" and "fb_format b = fb_format a"
    and "hfp_format (fb_format a)" and "fr_sequence f \<le> i64_max"
  shows "\<exists>bs. FramedPcmMediaBridge_encode_downlink a f t = Ok bs \<and>
    FramedPcmMediaBridge_receive_uplink bs b =
      (Ok (), b\<lparr>fb_uplink := JitterBuffer_insert f (fb_uplink b)\<rparr>) \<and>
    (\<forall>c. fb_format c \<noteq> fb_format a \<longrightarrow>
       FramedPcmMediaBridge_receive_uplink bs c = (Err FramedPcmMediaError.FormatMismatch, c))"
proof -
  let ?p = "AudioPacket_new t f"
  obtain c where c: "format_code (fr_format f) = Ok c" using assms(2,4) hfp_format_code by metis
  then obtain bs where bs: "AudioPacket_encode ?p = Ok bs"
    using assms(5) by (auto simp: encode_packet_bytes AudioPacket_new_def)
  moreover have "AudioPacket_decode bs = Ok ?p"
    using decode_encode_packet [of ?p bs] bs assms(1) by (simp add: packet_ok_def AudioPacket_new_def)
  ultimately show ?thesis
    using assms(2,3)
    by (auto simp: FramedPcmMediaBridge_encode_downlink_def FramedPcmMediaBridge_receive_uplink_def
        AudioPacket_new_def)
qed

theorem framed_bridge_end_to_end_witness:
  "\<exists>a bs. FramedPcmMediaBridge_new HFP_NARROWBAND 4 2 = Ok a \<and>
     FramedPcmMediaBridge_encode_downlink a (sample_frame 3) 0 = Ok bs"
proof -
  obtain a where a: "FramedPcmMediaBridge_new HFP_NARROWBAND 4 2 = Ok a" "fb_format a = HFP_NARROWBAND"
    by (simp add: FramedPcmMediaBridge_new_def validate_hfp_format_def JitterBuffer_new_def)
  have "frame_ok (sample_frame 3)" "fr_format (sample_frame 3) = fb_format a" "fr_sequence (sample_frame 3) \<le> i64_max"
    using narrow_frame_ok [of 3] a by (simp_all add: stream_frame_def sample_frame_def i64_max_def word_le_nat_alt)
  then show ?thesis
    using framed_bridge_end_to_end [of "sample_frame 3" a a 0] a by (auto simp: hfp_format_def)
qed

end
