(* ===== verification/Hfp_Backends.thy ===== *)
theory Hfp_Backends
  imports Core_State Core_Hfp "HOL-Library.List_Lexorder" "HOL-Library.Char_ord"
begin

text \<open>
  \<open>crates/analogconnectd/src/hfp.rs\<close>: the call controller, the AT command backend and the
  WirePlumber backend. The phone and the D-Bus service are environments: functions from what was
  sent so far to the answer of the next request, and the log of the requests is the state. The
  JSON parser (serde_json) is a parameter that returns the reply's signature and the keys of each
  map of its data.
\<close>

section \<open>Call controller\<close>

record HfpStatusSnapshot =
  hs_control :: HfpControlState
  hs_call :: CallState
  hs_transport :: AudioTransportState

datatype CallControlError = InvalidState | Backend | LockPoisoned

text \<open>\<open>HfpCommandBackend\<close>: a command against the backend's state.\<close>

type_synonym ('b, 'e) hfp_backend = "CallCommand \<Rightarrow> 'b \<Rightarrow> (unit, 'e) result \<times> 'b"

record 'b CallController =
  cc_backend :: 'b
  cc_state :: "CallState mutex"

definition CallController_new :: "'b \<Rightarrow> CallState \<Rightarrow> 'b CallController" where
  "CallController_new backend initial_state = \<lparr>cc_backend = backend, cc_state = Mutex False initial_state\<rparr>"

definition CallController_state :: "'b CallController \<Rightarrow> (CallState, CallControlError) result" where
  "CallController_state self = lock (cc_state self) CallControlError.LockPoisoned"

text \<open>\<open>None\<close>: the command is refused; \<open>Some None\<close>: it does not change the call's state.\<close>

fun next_state :: "CallState \<Rightarrow> CallCommand \<Rightarrow> CallState option option" where
  "next_state CallState.Incoming Answer = Some (Some CallState.Active)"
| "next_state CallState.Incoming Reject = Some (Some CallState.Ended)"
| "next_state state HangUp =
     (if state \<in> {CallState.Incoming, CallState.Outgoing, CallState.Active, CallState.Held}
      then Some (Some CallState.Ended) else None)"
| "next_state CallState.Idle (Dial _) = Some (Some CallState.Outgoing)"
| "next_state CallState.Active (SendDtmf _) = Some None"
| "next_state state (SetMicrophoneMuted _) =
     (if state \<in> {CallState.Active, CallState.Held} then Some None else None)"
| "next_state state (SetSpeakerGain _) =
     (if state \<in> {CallState.Active, CallState.Held} then Some None else None)"
| "next_state state (SetMicrophoneGain _) =
     (if state \<in> {CallState.Active, CallState.Held} then Some None else None)"
| "next_state _ _ = None"

definition CallController_execute ::
  "('b, 'e) hfp_backend \<Rightarrow> CallCommand \<Rightarrow> 'b CallController \<Rightarrow>
   (CallState, CallControlError) result \<times> 'b CallController" where
  "CallController_execute execute command self =
     (case lock (cc_state self) CallControlError.LockPoisoned of
        Inl e \<Rightarrow> (Err e, self)
      | Inr state \<Rightarrow>
          (case next_state state command of
             None \<Rightarrow> (Err InvalidState, self)
           | Some nxt \<Rightarrow>
               (case execute command (cc_backend self) of
                  (Inl _, b) \<Rightarrow> (Err Backend, self\<lparr>cc_backend := b\<rparr>)
                | (Inr _, b) \<Rightarrow>
                    let self = self\<lparr>cc_backend := b\<rparr> in
                    (case nxt of
                       None \<Rightarrow> (Ok state, self)
                     | Some nxt \<Rightarrow>
                         (case CallState_transition_to state nxt of
                            (_, Inl _) \<Rightarrow> (Err InvalidState, self)
                          | (state', Inr _) \<Rightarrow>
                              (Ok state', self\<lparr>cc_state := unlock_with (cc_state self) state'\<rparr>))))))"

section \<open>AT command backend\<close>

datatype AtBackendError = Transport | LockPoisoned

record MicrophoneState =
  mic_gain :: Gain
  mic_muted :: bool

text \<open>The transport answers a command from what was sent before; every command it is given is logged.\<close>

type_synonym at_env = "string list \<Rightarrow> string \<Rightarrow> (unit, unit) result"

record AtCommandBackend =
  at_sent :: "string list"
  at_microphone :: "MicrophoneState mutex"

definition AtCommandBackend_new :: "(AtCommandBackend, HfpArgumentError) result" where
  "AtCommandBackend_new =
     result_bind (Gain_new 15) (\<lambda>gain.
       Ok \<lparr>at_sent = [], at_microphone = Mutex False \<lparr>mic_gain = gain, mic_muted = False\<rparr>\<rparr>)"

definition AtCommandBackend_send ::
  "at_env \<Rightarrow> string \<Rightarrow> AtCommandBackend \<Rightarrow> (unit, AtBackendError) result \<times> AtCommandBackend" where
  "AtCommandBackend_send env command self =
     (map_err (\<lambda>_. Transport) (env (at_sent self) command), self\<lparr>at_sent := at_sent self @ [command]\<rparr>)"

definition gain_text :: "u8 \<Rightarrow> string" where
  "gain_text v = decimal (unat v)"

definition set_microphone_gain ::
  "at_env \<Rightarrow> Gain \<Rightarrow> AtCommandBackend \<Rightarrow> (unit, AtBackendError) result \<times> AtCommandBackend" where
  "set_microphone_gain env gain self =
     (case lock (at_microphone self) AtBackendError.LockPoisoned of
        Inl e \<Rightarrow> (Err e, self)
      | Inr microphone \<Rightarrow>
          (case (if mic_muted microphone then (Ok (), self)
                 else AtCommandBackend_send env (''AT+VGM='' @ gain_text (gain_value gain)) self) of
             (Inl e, self) \<Rightarrow> (Err e, self)
           | (Inr _, self) \<Rightarrow>
               (Ok (), self\<lparr>at_microphone := unlock_with (at_microphone self) (microphone\<lparr>mic_gain := gain\<rparr>)\<rparr>)))"

definition set_microphone_muted ::
  "at_env \<Rightarrow> bool \<Rightarrow> AtCommandBackend \<Rightarrow> (unit, AtBackendError) result \<times> AtCommandBackend" where
  "set_microphone_muted env muted self =
     (case lock (at_microphone self) AtBackendError.LockPoisoned of
        Inl e \<Rightarrow> (Err e, self)
      | Inr microphone \<Rightarrow>
          let gain = (if muted then 0 else gain_value (mic_gain microphone)) in
          (case AtCommandBackend_send env (''AT+VGM='' @ gain_text gain) self of
             (Inl e, self) \<Rightarrow> (Err e, self)
           | (Inr _, self) \<Rightarrow>
               (Ok (), self\<lparr>at_microphone := unlock_with (at_microphone self) (microphone\<lparr>mic_muted := muted\<rparr>)\<rparr>)))"

fun AtCommandBackend_execute :: "at_env \<Rightarrow> (AtCommandBackend, AtBackendError) hfp_backend" where
  "AtCommandBackend_execute env Answer self = AtCommandBackend_send env ''ATA'' self"
| "AtCommandBackend_execute env Reject self = AtCommandBackend_send env ''AT+CHUP'' self"
| "AtCommandBackend_execute env HangUp self = AtCommandBackend_send env ''AT+CHUP'' self"
| "AtCommandBackend_execute env (Dial target) self =
     AtCommandBackend_send env (''ATD'' @ dial_str target @ '';'') self"
| "AtCommandBackend_execute env (SendDtmf tone) self =
     AtCommandBackend_send env (''AT+VTS='' @ tone_value tone) self"
| "AtCommandBackend_execute env (SetSpeakerGain gain) self =
     AtCommandBackend_send env (''AT+VGS='' @ gain_text (gain_value gain)) self"
| "AtCommandBackend_execute env (SetMicrophoneGain gain) self = set_microphone_gain env gain self"
| "AtCommandBackend_execute env (SetMicrophoneMuted muted) self = set_microphone_muted env muted self"

section \<open>WirePlumber backend\<close>

definition TELEPHONY_SERVICE :: string where "TELEPHONY_SERVICE = ''org.pipewire.Telephony''"
definition TELEPHONY_ROOT :: string where "TELEPHONY_ROOT = ''/org/pipewire/Telephony''"
definition OBJECT_MANAGER_INTERFACE :: string where
  "OBJECT_MANAGER_INTERFACE = ''org.freedesktop.DBus.ObjectManager''"
definition AUDIO_GATEWAY_INTERFACE :: string where
  "AUDIO_GATEWAY_INTERFACE = ''org.pipewire.Telephony.AudioGateway1''"
definition AUDIO_GATEWAY_TRANSPORT_INTERFACE :: string where
  "AUDIO_GATEWAY_TRANSPORT_INTERFACE = ''org.pipewire.Telephony.AudioGatewayTransport1''"
definition CALL_INTERFACE :: string where "CALL_INTERFACE = ''org.pipewire.Telephony.Call1''"
definition OFONO_VOICE_CALL_MANAGER_INTERFACE :: string where
  "OFONO_VOICE_CALL_MANAGER_INTERFACE = ''org.ofono.VoiceCallManager''"
definition OFONO_VOICE_CALL_INTERFACE :: string where
  "OFONO_VOICE_CALL_INTERFACE = ''org.ofono.VoiceCall''"

datatype WirePlumberBackendError = Unavailable | Ambiguous | Unsupported | Rejected

datatype LiveCallState = Incoming | Dialing | Alerting | Active | Held | Disconnected

definition LiveCallState_parse :: "string \<Rightarrow> LiveCallState option" where
  "LiveCallState_parse output = map_of
     [(''s \"incoming\"'', LiveCallState.Incoming), (''s \"dialing\"'', Dialing), (''s \"alerting\"'', Alerting),
      (''s \"active\"'', LiveCallState.Active), (''s \"held\"'', LiveCallState.Held),
      (''s \"disconnected\"'', Disconnected)] (trim output)"

definition aggregate_call_state :: "LiveCallState list \<Rightarrow> CallState" where
  "aggregate_call_state states =
     (if List.member states LiveCallState.Active then CallState.Active
      else if List.member states LiveCallState.Incoming then CallState.Incoming
      else if list_ex (\<lambda>s. s = Dialing \<or> s = Alerting) states then CallState.Outgoing
      else if List.member states LiveCallState.Held then CallState.Held
      else if List.member states Disconnected then CallState.Ended
      else CallState.Idle)"

text \<open>The parsed reply: its signature, and the keys of the maps of its data.\<close>

record BusctlReply =
  reply_signature :: string
  reply_data :: "string list list"

type_synonym json_reply = "string \<Rightarrow> BusctlReply option"

record TelephonyPaths =
  tp_gateway :: string
  tp_calls :: "string list"

definition all_digits :: "string \<Rightarrow> bool" where
  "all_digits s \<longleftrightarrow> s \<noteq> [] \<and> list_all is_ascii_digit s"

definition gateway_object :: "string \<Rightarrow> string option" where
  "gateway_object object_path =
     Option.bind (strip_prefix TELEPHONY_ROOT object_path) (\<lambda>path.
     Option.bind (strip_prefix ''/ag'' path) (\<lambda>ident.
       if all_digits ident then Some (TELEPHONY_ROOT @ path) else None))"

definition call_object :: "string \<Rightarrow> string option" where
  "call_object object_path =
     Option.bind (strip_prefix TELEPHONY_ROOT object_path) (\<lambda>path.
     Option.bind (Option.bind (strip_prefix ''/ag'' path) (split_once ''/call'')) (\<lambda>(gateway_id, call_id).
       if all_digits gateway_id \<and> all_digits call_id then Some (TELEPHONY_ROOT @ path) else None))"

definition sort_dedup :: "string list \<Rightarrow> string list" where
  "sort_dedup xs = remdups_adj (sort xs)"

definition TelephonyPaths_parse_managed_objects ::
  "json_reply \<Rightarrow> string \<Rightarrow> (TelephonyPaths, WirePlumberBackendError) result" where
  "TelephonyPaths_parse_managed_objects json output =
     (case json output of
        None \<Rightarrow> Err Ambiguous
      | Some reply \<Rightarrow>
          if reply_signature reply \<noteq> ''a{oa{sa{sv}}}'' \<or> length (reply_data reply) \<noteq> 1 then Err Ambiguous
          else let keys = hd (reply_data reply);
                   gateways = sort_dedup (List.map_filter gateway_object keys);
                   calls = sort_dedup (List.map_filter
                     (\<lambda>k. if gateway_object k = None then call_object k else None) keys)
            in if gateways = [] then Err Unavailable
               else if length gateways \<noteq> 1 then Err Ambiguous
               else let gateway = hd gateways
                 in Ok \<lparr>tp_gateway = gateway,
                        tp_calls = filter (\<lambda>call. prefix (gateway @ ''/call'') call) calls\<rparr>)"

definition TelephonyPaths_replace_calls ::
  "json_reply \<Rightarrow> string \<Rightarrow> TelephonyPaths \<Rightarrow> (TelephonyPaths, WirePlumberBackendError) result" where
  "TelephonyPaths_replace_calls json output self =
     (case json output of
        None \<Rightarrow> Err Ambiguous
      | Some reply \<Rightarrow>
          if reply_signature reply \<noteq> ''a{oa{sv}}'' \<or> length (reply_data reply) \<noteq> 1 then Err Ambiguous
          else let call_prefix = tp_gateway self @ ''/call'';
                   is_call = (\<lambda>k. case strip_prefix call_prefix k of None \<Rightarrow> False | Some ident \<Rightarrow> all_digits ident)
            in Ok (self\<lparr>tp_calls := sort_dedup (filter is_call (hd (reply_data reply)))\<rparr>))"

definition TelephonyPaths_only_call :: "TelephonyPaths \<Rightarrow> (string, WirePlumberBackendError) result" where
  "TelephonyPaths_only_call self =
     (if length (tp_calls self) = 1 then Ok (tp_calls self ! 0) else Err Ambiguous)"

text \<open>
  \<open>DbusCommandRunner\<close>: the answer to a request may depend on every request before it; the
  state is the log of the requests.
\<close>

type_synonym bus_env = "string list list \<Rightarrow> string list \<Rightarrow> (string, unit) result"
type_synonym 'a bus = "string list list \<Rightarrow> ('a, WirePlumberBackendError) result \<times> string list list"

definition bus_run :: "bus_env \<Rightarrow> WirePlumberBackendError \<Rightarrow> string list \<Rightarrow> string bus" where
  "bus_run env e arguments log = (map_err (\<lambda>_. e) (env log arguments), log @ [arguments])"

definition bus_bind :: "'a bus \<Rightarrow> ('a \<Rightarrow> 'b bus) \<Rightarrow> 'b bus" where
  "bus_bind m f log = (case m log of (Inl e, log) \<Rightarrow> (Err e, log) | (Inr a, log) \<Rightarrow> f a log)"

definition bus_result :: "('a, WirePlumberBackendError) result \<Rightarrow> 'a bus" where
  "bus_result r log = (r, log)"

definition objects_request :: "string list" where
  "objects_request = [''--json=short'', ''--user'', ''call'', TELEPHONY_SERVICE, TELEPHONY_ROOT,
     OBJECT_MANAGER_INTERFACE, ''GetManagedObjects'']"

definition calls_request :: "string \<Rightarrow> string list" where
  "calls_request gateway = [''--json=short'', ''--user'', ''call'', TELEPHONY_SERVICE, gateway,
     OFONO_VOICE_CALL_MANAGER_INTERFACE, ''GetCalls'']"

definition state_request :: "string \<Rightarrow> string \<Rightarrow> string list" where
  "state_request path interface =
     [''--user'', ''get-property'', TELEPHONY_SERVICE, path, interface, ''State'']"

definition call_request :: "string \<Rightarrow> string \<Rightarrow> string \<Rightarrow> string list \<Rightarrow> string list" where
  "call_request path interface name args =
     [''--user'', ''call'', TELEPHONY_SERVICE, path, interface, name] @ args"

definition WirePlumberBackend_paths :: "json_reply \<Rightarrow> bus_env \<Rightarrow> TelephonyPaths bus" where
  "WirePlumberBackend_paths json env =
     bus_bind (bus_run env Unavailable objects_request) (\<lambda>output.
     bus_bind (bus_result (TelephonyPaths_parse_managed_objects json output)) (\<lambda>paths.
     bus_bind (bus_run env Unavailable (calls_request (tp_gateway paths))) (\<lambda>calls.
       bus_result (TelephonyPaths_replace_calls json calls paths))))"

definition WirePlumberBackend_call ::
  "bus_env \<Rightarrow> string \<Rightarrow> string \<Rightarrow> string \<Rightarrow> string list \<Rightarrow> unit bus" where
  "WirePlumberBackend_call env path interface name args =
     bus_bind (bus_run env Rejected (call_request path interface name args)) (\<lambda>_. bus_result (Ok ()))"

definition WirePlumberBackend_call_state :: "bus_env \<Rightarrow> string \<Rightarrow> LiveCallState bus" where
  "WirePlumberBackend_call_state env path =
     bus_bind (bus_run env Unavailable (state_request path OFONO_VOICE_CALL_INTERFACE)) (\<lambda>output.
       bus_result (ok_or (LiveCallState_parse output) Ambiguous))"

definition WirePlumberBackend_transport_state :: "bus_env \<Rightarrow> string \<Rightarrow> AudioTransportState bus" where
  "WirePlumberBackend_transport_state env path =
     bus_bind (bus_run env Unavailable (state_request path AUDIO_GATEWAY_TRANSPORT_INTERFACE)) (\<lambda>output.
       bus_result (if trim output = ''s \"active\"'' then Ok AudioTransportState.ScoActive
                   else if trim output = ''s \"idle\"'' then Ok AudioTransportState.Inactive
                   else Err Ambiguous))"

fun execute_with :: "bus_env \<Rightarrow> TelephonyPaths \<Rightarrow> CallCommand \<Rightarrow> unit bus" where
  "execute_with env paths Answer =
     bus_bind (bus_result (TelephonyPaths_only_call paths)) (\<lambda>call.
     bus_bind (WirePlumberBackend_call_state env call) (\<lambda>state.
       if state \<noteq> LiveCallState.Incoming then bus_result (Err Rejected)
       else WirePlumberBackend_call env call CALL_INTERFACE ''Answer'' []))"
| "execute_with env paths Reject =
     (if tp_calls paths = [] then bus_result (Err Rejected)
      else WirePlumberBackend_call env (tp_gateway paths) AUDIO_GATEWAY_INTERFACE ''HangupAll'' [])"
| "execute_with env paths HangUp =
     (if tp_calls paths = [] then bus_result (Err Rejected)
      else WirePlumberBackend_call env (tp_gateway paths) AUDIO_GATEWAY_INTERFACE ''HangupAll'' [])"
| "execute_with env paths (Dial target) =
     (if tp_calls paths \<noteq> [] then bus_result (Err Rejected)
      else WirePlumberBackend_call env (tp_gateway paths) AUDIO_GATEWAY_INTERFACE ''Dial''
             [''s'', dial_str target])"
| "execute_with env paths (SendDtmf tone) =
     bus_bind (bus_result (TelephonyPaths_only_call paths)) (\<lambda>call.
     bus_bind (WirePlumberBackend_call_state env call) (\<lambda>state.
       if state \<noteq> LiveCallState.Active then bus_result (Err Rejected)
       else WirePlumberBackend_call env (tp_gateway paths) AUDIO_GATEWAY_INTERFACE ''SendTones''
              [''s'', tone_value tone]))"
| "execute_with env paths _ = bus_result (Err Unsupported)"

definition WirePlumberBackend_execute :: "json_reply \<Rightarrow> bus_env \<Rightarrow> CallCommand \<Rightarrow> unit bus" where
  "WirePlumberBackend_execute json env command =
     bus_bind (WirePlumberBackend_paths json env) (\<lambda>paths. execute_with env paths command)"

fun call_states :: "bus_env \<Rightarrow> string list \<Rightarrow> LiveCallState list bus" where
  "call_states env [] = bus_result (Ok [])"
| "call_states env (call # calls) =
     bus_bind (WirePlumberBackend_call_state env call) (\<lambda>state.
     bus_bind (call_states env calls) (\<lambda>states. bus_result (Ok (state # states))))"

definition WirePlumberBackend_snapshot :: "json_reply \<Rightarrow> bus_env \<Rightarrow> HfpStatusSnapshot bus" where
  "WirePlumberBackend_snapshot json env =
     bus_bind (WirePlumberBackend_paths json env) (\<lambda>paths.
     bus_bind (call_states env (tp_calls paths)) (\<lambda>states.
     bus_bind (WirePlumberBackend_transport_state env (tp_gateway paths)) (\<lambda>transport.
       bus_result (Ok \<lparr>hs_control = HfpControlState.SlcReady, hs_call = aggregate_call_state states,
                        hs_transport = transport\<rparr>))))"

section \<open>What the controller promises over any backend\<close>

lemma next_state_edge:
  "next_state s c = Some (Some n) \<Longrightarrow> n \<in> set (CallState_edges s)"
  by (induction s c rule: next_state.induct) (auto split: if_splits)

lemma next_state_ended [simp]: "next_state CallState.Ended c = None"
  by (cases c) simp_all

text \<open>
  A call command has effect in one order only. Refused in the current state, it never
  reaches the backend and nothing changes; when the backend fails, the call's state is as before;
  when the backend succeeds, the recorded state is the old one or a successor of it that the
  state machine allows, and that is what is returned. The table of commands and the state machine
  agree: a command the backend has carried out is never reported as invalid.
\<close>

theorem call_controller_step:
  assumes "cc_state c = Mutex False s" and "CallController_execute execute cmd c = (r, c')"
  shows "case r of
      Inr s' \<Rightarrow> next_state s cmd \<noteq> None \<and> execute cmd (cc_backend c) = (Ok (), cc_backend c') \<and>
        cc_state c' = Mutex False s' \<and> (s' = s \<or> s' \<in> set (CallState_edges s))
    | Inl InvalidState \<Rightarrow> next_state s cmd = None \<and> c' = c
    | Inl Backend \<Rightarrow> next_state s cmd \<noteq> None \<and> cc_state c' = cc_state c \<and>
        (\<exists>e. execute cmd (cc_backend c) = (Err e, cc_backend c'))
    | Inl CallControlError.LockPoisoned \<Rightarrow> False"
proof (cases "next_state s cmd")
  case None
  then show ?thesis using assms by (auto simp: CallController_execute_def)
next
  case (Some nxt)
  obtain x b where x: "execute cmd (cc_backend c) = (x, b)" by force
  show ?thesis
  proof (cases x)
    case (Inl e)
    then show ?thesis using assms Some x by (auto simp: CallController_execute_def)
  next
    case (Inr u)
    show ?thesis
    proof (cases nxt)
      case None
      then show ?thesis using assms Some x Inr by (auto simp: CallController_execute_def)
    next
      case n: (Some n)
      then have "n \<in> set (CallState_edges s)" using Some next_state_edge by simp
      then show ?thesis
        using assms Some x Inr n by (auto simp: CallController_execute_def CallState_transition_to_def)
    qed
  qed
qed

text \<open>A backend that carries out at most one operation on the phone for each command.\<close>

definition run_commands :: "('b, 'e) hfp_backend \<Rightarrow> CallCommand list \<Rightarrow> 'b CallController \<Rightarrow> 'b CallController" where
  "run_commands execute cmds c = fold (\<lambda>cmd c. snd (CallController_execute execute cmd c)) cmds c"

locale call_backend =
  fixes execute :: "('b, 'e) hfp_backend"
    and mutations :: "'b \<Rightarrow> 'm list"
  assumes at_most_one: "\<exists>ms. mutations (snd (execute cmd b)) = mutations b @ ms \<and> length ms \<le> 1"
begin

lemma controller_at_most_one:
  "\<exists>ms. mutations (cc_backend (snd (CallController_execute execute cmd c))) =
     mutations (cc_backend c) @ ms \<and> length ms \<le> 1"
proof -
  have "cc_backend (snd (CallController_execute execute cmd c)) \<in>
      {cc_backend c, snd (execute cmd (cc_backend c))}"
    by (auto simp: CallController_execute_def Let_def split: sum.splits option.splits prod.splits)
  then show ?thesis using at_most_one [of cmd "cc_backend c"] by auto
qed

lemma run_mutations:
  "\<exists>ms. mutations (cc_backend (run_commands execute cmds c)) = mutations (cc_backend c) @ ms \<and>
     length ms \<le> length cmds"
proof (induction cmds arbitrary: c)
  case Nil
  then show ?case by (simp add: run_commands_def)
next
  case (Cons cmd cmds)
  let ?c = "snd (CallController_execute execute cmd c)"
  obtain ms where 1: "mutations (cc_backend ?c) = mutations (cc_backend c) @ ms" "length ms \<le> 1"
    using controller_at_most_one by blast
  obtain ns where 2: "mutations (cc_backend (run_commands execute cmds ?c)) = mutations (cc_backend ?c) @ ns"
    "length ns \<le> length cmds"
    using Cons.IH by blast
  show ?case
    by (rule exI [of _ "ms @ ns"]) (use 1 2 in \<open>simp add: run_commands_def\<close>)
qed

lemma ended_is_quiet:
  "cc_state c = Mutex False CallState.Ended \<Longrightarrow> run_commands execute cmds c = c"
  unfolding run_commands_def by (induction cmds) (simp_all add: CallController_execute_def)

end

section \<open>The AT backend and the phone's microphone\<close>

lemma at_send_sent [simp]:
  "at_sent (snd (AtCommandBackend_send env cmd b)) = at_sent b @ [cmd]"
  "at_microphone (snd (AtCommandBackend_send env cmd b)) = at_microphone b"
  "fst (AtCommandBackend_send env cmd b) = map_err (\<lambda>_. Transport) (env (at_sent b) cmd)"
  by (simp_all add: AtCommandBackend_send_def)

lemma at_at_most_one:
  "\<exists>ms. at_sent (snd (AtCommandBackend_execute env cmd b)) = at_sent b @ ms \<and> length ms \<le> 1"
proof (cases cmd)
  case (SetMicrophoneMuted m)
  then show ?thesis
    by (auto simp: set_microphone_muted_def Let_def AtCommandBackend_send_def split: sum.splits prod.splits)
next
  case (SetMicrophoneGain g)
  then show ?thesis
    by (auto simp: set_microphone_gain_def AtCommandBackend_send_def split: sum.splits prod.splits)
qed simp_all

interpretation at_backend: call_backend "AtCommandBackend_execute env" at_sent for env
  by unfold_locales (rule at_at_most_one)

text \<open>The commands the phone accepted, and the microphone gain it was last given.\<close>

definition accepted :: "at_env \<Rightarrow> string list \<Rightarrow> string list" where
  "accepted env sent = map (\<lambda>i. sent ! i) (filter (\<lambda>i. is_ok (env (take i sent) (sent ! i))) [0..<length sent])"

definition phone_microphone :: "string list \<Rightarrow> string" where
  "phone_microphone cmds =
     fold (\<lambda>c g. case strip_prefix ''AT+VGM='' c of Some t \<Rightarrow> t | None \<Rightarrow> g) cmds (gain_text 15)"

definition effective_gain :: "MicrophoneState \<Rightarrow> u8" where
  "effective_gain m = (if mic_muted m then 0 else gain_value (mic_gain m))"

lemma accepted_append:
  "accepted env (sent @ [c]) = accepted env sent @ (if is_ok (env sent c) then [c] else [])"
proof -
  have "filter (\<lambda>i. is_ok (env (take i (sent @ [c])) ((sent @ [c]) ! i))) [0..<length sent] =
      filter (\<lambda>i. is_ok (env (take i sent) (sent ! i))) [0..<length sent]"
    by (rule filter_cong) (simp_all add: nth_append)
  then show ?thesis by (simp add: accepted_def nth_append)
qed

lemma phone_microphone_append:
  "phone_microphone (cs @ [c]) = (case strip_prefix ''AT+VGM='' c of Some t \<Rightarrow> t | None \<Rightarrow> phone_microphone cs)"
  by (simp add: phone_microphone_def split: option.split)

definition microphone_inv :: "at_env \<Rightarrow> AtCommandBackend \<Rightarrow> bool" where
  "microphone_inv env b \<longleftrightarrow> \<not> poisoned (at_microphone b) \<and>
     phone_microphone (accepted env (at_sent b)) = gain_text (effective_gain (mutex_data (at_microphone b)))"

lemma microphone_send_other:
  "microphone_inv env b \<Longrightarrow> strip_prefix ''AT+VGM='' cmd = None \<Longrightarrow>
   microphone_inv env (snd (AtCommandBackend_send env cmd b))"
  by (simp add: microphone_inv_def accepted_append phone_microphone_append)

lemma microphone_send_gain:
  assumes "\<not> poisoned (at_microphone b)" and "env (at_sent b) (''AT+VGM='' @ gain_text g) = Ok ()"
  shows "phone_microphone (accepted env (at_sent b @ [''AT+VGM='' @ gain_text g])) = gain_text g"
  using assms by (simp add: accepted_append phone_microphone_append strip_prefix_def)

lemma microphone_send_failed:
  "microphone_inv env b \<Longrightarrow> env (at_sent b) cmd = Err e \<Longrightarrow>
   microphone_inv env (b\<lparr>at_sent := at_sent b @ [cmd]\<rparr>)"
  by (simp add: microphone_inv_def accepted_append)

lemma microphone_step:
  assumes "microphone_inv env b"
  shows "microphone_inv env (snd (AtCommandBackend_execute env cmd b))"
proof -
  obtain m where m: "at_microphone b = Mutex False m"
    using assms by (cases "at_microphone b") (auto simp: microphone_inv_def)
  show ?thesis
  proof (cases cmd)
    case (SetMicrophoneMuted x)
    let ?g = "if x then 0 else gain_value (mic_gain m)"
    show ?thesis
    proof (cases "env (at_sent b) (''AT+VGM='' @ gain_text ?g)")
      case (Inl e)
      then show ?thesis
        using SetMicrophoneMuted m microphone_send_failed [OF assms Inl]
        by (simp add: set_microphone_muted_def AtCommandBackend_send_def Let_def)
    next
      case (Inr u)
      then show ?thesis
        using SetMicrophoneMuted m microphone_send_gain [of b env ?g]
        by (simp add: set_microphone_muted_def AtCommandBackend_send_def microphone_inv_def effective_gain_def Let_def)
    qed
  next
    case (SetMicrophoneGain g)
    show ?thesis
    proof (cases "mic_muted m")
      case True
      then show ?thesis
        using SetMicrophoneGain m assms by (simp add: set_microphone_gain_def microphone_inv_def effective_gain_def)
    next
      case False
      show ?thesis
      proof (cases "env (at_sent b) (''AT+VGM='' @ gain_text (gain_value g))")
        case (Inl e)
        then show ?thesis
          using SetMicrophoneGain m False microphone_send_failed [OF assms Inl]
          by (simp add: set_microphone_gain_def AtCommandBackend_send_def)
      next
        case (Inr u)
        then show ?thesis
          using SetMicrophoneGain m False microphone_send_gain [of b env "gain_value g"]
          by (simp add: set_microphone_gain_def AtCommandBackend_send_def microphone_inv_def effective_gain_def)
      qed
    qed
  qed (use assms in \<open>auto intro!: microphone_send_other simp: strip_prefix_def\<close>)
qed

interpretation microphone: step_machine "\<lambda>cmd b. snd (AtCommandBackend_execute env cmd b)" "microphone_inv env" for env
  by unfold_locales (rule microphone_step)

text \<open>
  C37: The phone's microphone never disagrees with the backend's record: after any sequence of
  commands, whichever of them the phone refuses, the gain of the last \<open>AT+VGM\<close> the phone
  accepted is zero exactly as recorded muted, and the recorded gain otherwise; so a gain changed
  while muted is not heard until unmuting, which restores it.
\<close>

theorem microphone_matches_phone:
  assumes "AtCommandBackend_new = Ok b"
  shows "microphone_inv env (fold (\<lambda>cmd b. snd (AtCommandBackend_execute env cmd b)) cmds b)"
proof (rule microphone.run_inv)
  show "microphone_inv env b"
    using assms by (auto simp: AtCommandBackend_new_def Gain_new_def microphone_inv_def accepted_def
        phone_microphone_def effective_gain_def split: if_splits)
qed

theorem microphone_matches_phone_witness:
  "phone_microphone (accepted (\<lambda>_ _. Ok ()) (at_sent (fold (\<lambda>cmd b. snd (AtCommandBackend_execute (\<lambda>_ _. Ok ()) cmd b))
     [SetMicrophoneMuted True, SetMicrophoneGain (Gain 7), SetMicrophoneMuted False]
     \<lparr>at_sent = [], at_microphone = Mutex False \<lparr>mic_gain = Gain 15, mic_muted = False\<rparr>\<rparr>))) = ''7''"
proof -
  let ?b = "\<lparr>at_sent = [], at_microphone = Mutex False \<lparr>mic_gain = Gain 15, mic_muted = False\<rparr>\<rparr>"
  let ?cmds = "[SetMicrophoneMuted True, SetMicrophoneGain (Gain 7), SetMicrophoneMuted False]"
  have "AtCommandBackend_new = Ok ?b" by (simp add: AtCommandBackend_new_def Gain_new_def)
  then have "microphone_inv (\<lambda>_ _. Ok ()) (fold (\<lambda>cmd b. snd (AtCommandBackend_execute (\<lambda>_ _. Ok ()) cmd b)) ?cmds ?b)"
    by (rule microphone_matches_phone)
  moreover have "mutex_data (at_microphone (fold (\<lambda>cmd b. snd (AtCommandBackend_execute (\<lambda>_ _. Ok ()) cmd b)) ?cmds ?b)) =
      \<lparr>mic_gain = Gain 7, mic_muted = False\<rparr>"
    by (simp add: set_microphone_muted_def set_microphone_gain_def AtCommandBackend_send_def Let_def)
  moreover have "decimal 7 = ''7''" by code_simp
  ultimately show ?thesis by (simp add: microphone_inv_def effective_gain_def gain_text_def)
qed

theorem call_controller_step_witness:
  "\<exists>c r c'. CallController_execute (AtCommandBackend_execute (\<lambda>_ _. Ok ())) Answer c = (r, c') \<and>
     r = Ok CallState.Active \<and> cc_state c' = Mutex False CallState.Active"
proof -
  let ?b = "\<lparr>at_sent = [], at_microphone = Mutex False \<lparr>mic_gain = Gain 15, mic_muted = False\<rparr>\<rparr>"
  let ?c = "CallController_new ?b CallState.Incoming"
  let ?exec = "AtCommandBackend_execute (\<lambda>_ _. Ok ())"
  obtain r c' where rc: "CallController_execute ?exec Answer ?c = (r, c')" by force
  moreover have "fst (CallController_execute ?exec Answer ?c) = Ok CallState.Active"
    by (simp add: CallController_execute_def CallController_new_def AtCommandBackend_send_def
        CallState_transition_to_def)
  ultimately show ?thesis
    using call_controller_step [of ?c CallState.Incoming ?exec Answer r c']
    by (auto simp: CallController_new_def)
qed

section \<open>The WirePlumber backend acts on what it observed\<close>

definition is_mutation :: "string list \<Rightarrow> bool" where
  "is_mutation args \<longleftrightarrow> prefix [''--user'', ''call''] args"

definition bus_mutations :: "string list list \<Rightarrow> string list list" where
  "bus_mutations log = filter is_mutation log"

definition gateway_path :: "string \<Rightarrow> bool" where
  "gateway_path g \<longleftrightarrow> (\<exists>n. all_digits n \<and> g = TELEPHONY_ROOT @ ''/ag'' @ n)"

definition call_path :: "string \<Rightarrow> string \<Rightarrow> bool" where
  "call_path g c \<longleftrightarrow> (\<exists>n. all_digits n \<and> c = g @ ''/call'' @ n)"

definition paths_ok :: "TelephonyPaths \<Rightarrow> bool" where
  "paths_ok p \<longleftrightarrow> gateway_path (tp_gateway p) \<and> list_all (call_path (tp_gateway p)) (tp_calls p) \<and>
     sorted_wrt (<) (tp_calls p)"

lemma request_kinds [simp]:
  "\<not> is_mutation objects_request" "\<not> is_mutation (calls_request g)" "\<not> is_mutation (state_request c i)"
  "is_mutation (call_request c i n args)"
  by (simp_all add: is_mutation_def objects_request_def calls_request_def state_request_def call_request_def)

lemma bus_mutations_simps [simp]:
  "bus_mutations (log @ log') = bus_mutations log @ bus_mutations log'"
  "bus_mutations (m # log) = (if is_mutation m then m # bus_mutations log else bus_mutations log)"
  "bus_mutations [] = []"
  by (simp_all add: bus_mutations_def)

lemma bus_bind_result [simp]: "bus_bind (bus_result r) f log = (case r of Inl e \<Rightarrow> (Err e, log) | Inr a \<Rightarrow> f a log)"
  by (simp add: bus_bind_def bus_result_def split: sum.splits)

lemma bus_bind_run [simp]:
  "bus_bind (bus_run env e args) f log =
     (case env log args of Inl _ \<Rightarrow> (Err e, log @ [args]) | Inr out \<Rightarrow> f out (log @ [args]))"
  by (simp add: bus_bind_def bus_run_def split: sum.splits)

lemma bus_bind_Ok: "bus_bind m f log = (Ok b, log') \<Longrightarrow> \<exists>a log1. m log = (Ok a, log1) \<and> f a log1 = (Ok b, log')"
  by (auto simp: bus_bind_def split: sum.splits prod.splits)

lemma sorted_sort_dedup: "sorted_wrt (<) (sort_dedup xs)"
  by (simp add: sort_dedup_def strict_sorted_remdups_adj)

lemma set_sort_dedup [simp]: "set (sort_dedup xs) = set xs"
  by (simp add: sort_dedup_def)

lemma gateway_object_iff: "gateway_object k = Some g \<longleftrightarrow> g = k \<and> gateway_path k"
  by (auto simp: gateway_object_def gateway_path_def strip_prefix_Some_iff bind_eq_Some_conv split: if_splits)

text \<open>
  What the service reported: its objects contain exactly one audio gateway, and the calls are
  those of the answer to \<open>GetCalls\<close> of this gateway.
\<close>

definition gateway_reported :: "json_reply \<Rightarrow> string \<Rightarrow> string \<Rightarrow> bool" where
  "gateway_reported json out gateway \<longleftrightarrow> (\<exists>reply objects. json out = Some reply \<and>
     reply_signature reply = ''a{oa{sa{sv}}}'' \<and> reply_data reply = [objects] \<and>
     {k \<in> set objects. gateway_path k} = {gateway})"

definition calls_reported :: "json_reply \<Rightarrow> string \<Rightarrow> TelephonyPaths \<Rightarrow> bool" where
  "calls_reported json out p \<longleftrightarrow> (\<exists>reply calls. json out = Some reply \<and>
     reply_signature reply = ''a{oa{sv}}'' \<and> reply_data reply = [calls] \<and>
     set (tp_calls p) = {k \<in> set calls. call_path (tp_gateway p) k})"

definition service_reported :: "json_reply \<Rightarrow> bus_env \<Rightarrow> string list list \<Rightarrow> TelephonyPaths \<Rightarrow> bool" where
  "service_reported json env log p \<longleftrightarrow> (\<exists>out out'. env log objects_request = Ok out \<and>
     gateway_reported json out (tp_gateway p) \<and>
     env (log @ [objects_request]) (calls_request (tp_gateway p)) = Ok out' \<and> calls_reported json out' p)"

lemma parsed_gateway:
  assumes "TelephonyPaths_parse_managed_objects json out = Ok p"
  shows "gateway_path (tp_gateway p) \<and> gateway_reported json out (tp_gateway p)"
proof -
  obtain reply keys where reply: "json out = Some reply" "reply_signature reply = ''a{oa{sa{sv}}}''"
      "reply_data reply = [keys]"
    and one: "length (sort_dedup (List.map_filter gateway_object keys)) = 1"
      "tp_gateway p = hd (sort_dedup (List.map_filter gateway_object keys))"
    using assms by (auto simp: TelephonyPaths_parse_managed_objects_def Let_def length_Suc_conv
        split: option.splits if_splits)
  have "set (List.map_filter gateway_object keys) = {k \<in> set keys. gateway_path k}"
  proof -
    have "set (List.map_filter gateway_object keys) = {g. \<exists>k \<in> set keys. gateway_object k = Some g}"
      by (force simp: map_filter_def)
    then show ?thesis by (simp add: gateway_object_iff)
  qed
  moreover have "set (sort_dedup (List.map_filter gateway_object keys)) = {tp_gateway p}"
    using one by (auto simp: length_Suc_conv simp del: set_sort_dedup)
  ultimately have "{k \<in> set keys. gateway_path k} = {tp_gateway p}" by simp
  then show ?thesis using reply unfolding gateway_reported_def by blast
qed

lemma replaced_calls:
  assumes "TelephonyPaths_replace_calls json out p = Ok p'"
  shows "tp_gateway p' = tp_gateway p \<and> list_all (call_path (tp_gateway p)) (tp_calls p') \<and>
    sorted_wrt (<) (tp_calls p') \<and> calls_reported json out p'"
proof -
  let ?is_call = "\<lambda>k. case strip_prefix (tp_gateway p @ ''/call'') k of None \<Rightarrow> False | Some i \<Rightarrow> all_digits i"
  obtain reply ks where reply: "json out = Some reply" "reply_signature reply = ''a{oa{sv}}''" "reply_data reply = [ks]"
    and p': "p' = p\<lparr>tp_calls := sort_dedup (filter ?is_call ks)\<rparr>"
    using assms by (auto simp: TelephonyPaths_replace_calls_def Let_def length_Suc_conv split: option.splits if_splits)
  have call: "?is_call k \<longleftrightarrow> call_path (tp_gateway p) k" for k
  proof (cases "strip_prefix (tp_gateway p @ ''/call'') k")
    case None
    then have "k \<noteq> (tp_gateway p @ ''/call'') @ n" for n
      using strip_prefix_Some_iff [of "tp_gateway p @ ''/call''" k n] by force
    then show ?thesis using None by (auto simp: call_path_def)
  next
    case (Some a)
    then have "k = (tp_gateway p @ ''/call'') @ a" using strip_prefix_Some_iff by blast
    then show ?thesis unfolding Some by (auto simp: call_path_def)
  qed
  have "calls_reported json out p'"
    using reply p' by (auto simp: calls_reported_def call)
  then show ?thesis using p' sorted_sort_dedup by (auto simp: list_all_iff call)
qed

lemma paths_observed:
  assumes "WirePlumberBackend_paths json env log = (r, log')"
  shows "prefix log log' \<and> bus_mutations log' = bus_mutations log \<and> (\<forall>p. r = Ok p \<longrightarrow> paths_ok p \<and> service_reported json env log p)"
proof -
  let ?log1 = "log @ [objects_request]"
  show ?thesis
  proof (cases "env log objects_request")
    case (Inl e)
    then show ?thesis using assms by (auto simp: WirePlumberBackend_paths_def)
  next
    case out: (Inr out)
    show ?thesis
    proof (cases "TelephonyPaths_parse_managed_objects json out")
      case (Inl e)
      then show ?thesis using assms out by (auto simp: WirePlumberBackend_paths_def)
    next
      case p: (Inr p)
      show ?thesis
      proof (cases "env ?log1 (calls_request (tp_gateway p))")
        case (Inl e)
        then show ?thesis using assms out p by (auto simp: WirePlumberBackend_paths_def)
      next
        case (Inr calls)
        then have r: "r = TelephonyPaths_replace_calls json calls p"
            and l: "log' = ?log1 @ [calls_request (tp_gateway p)]"
          using assms out p by (auto simp: WirePlumberBackend_paths_def bus_result_def)
        have "paths_ok p' \<and> service_reported json env log p'" if "r = Ok p'" for p'
          using parsed_gateway [OF p] replaced_calls [of json calls p p'] r that out Inr
          by (simp add: paths_ok_def service_reported_def)
        then show ?thesis by (simp add: l)
      qed
    qed
  qed
qed

text \<open>The operation a command may carry out on the paths that were read, and the call state it needs.\<close>

fun permitted :: "CallCommand \<Rightarrow> TelephonyPaths \<Rightarrow> string list \<Rightarrow> bool" where
  "permitted Answer p m \<longleftrightarrow> (case tp_calls p of [c] \<Rightarrow> m = call_request c CALL_INTERFACE ''Answer'' [] | _ \<Rightarrow> False)"
| "permitted Reject p m \<longleftrightarrow> tp_calls p \<noteq> [] \<and> m = call_request (tp_gateway p) AUDIO_GATEWAY_INTERFACE ''HangupAll'' []"
| "permitted HangUp p m \<longleftrightarrow> tp_calls p \<noteq> [] \<and> m = call_request (tp_gateway p) AUDIO_GATEWAY_INTERFACE ''HangupAll'' []"
| "permitted (Dial t) p m \<longleftrightarrow> tp_calls p = [] \<and>
     m = call_request (tp_gateway p) AUDIO_GATEWAY_INTERFACE ''Dial'' [''s'', dial_str t]"
| "permitted (SendDtmf t) p m \<longleftrightarrow> length (tp_calls p) = 1 \<and>
     m = call_request (tp_gateway p) AUDIO_GATEWAY_INTERFACE ''SendTones'' [''s'', tone_value t]"
| "permitted _ p m \<longleftrightarrow> False"

fun required_state :: "CallCommand \<Rightarrow> LiveCallState option" where
  "required_state Answer = Some LiveCallState.Incoming"
| "required_state (SendDtmf _) = Some LiveCallState.Active"
| "required_state _ = None"

definition state_observed :: "bus_env \<Rightarrow> TelephonyPaths \<Rightarrow> string list list \<Rightarrow> LiveCallState \<Rightarrow> bool" where
  "state_observed env p before st \<longleftrightarrow>
     (\<exists>c earlier out. tp_calls p = [c] \<and> before = earlier @ [state_request c OFONO_VOICE_CALL_INTERFACE] \<and>
        env earlier (state_request c OFONO_VOICE_CALL_INTERFACE) = Ok out \<and> LiveCallState_parse out = Some st)"

definition acted :: "bus_env \<Rightarrow> CallCommand \<Rightarrow> TelephonyPaths \<Rightarrow> string list list \<Rightarrow>
  (unit, WirePlumberBackendError) result \<Rightarrow> string list list \<Rightarrow> bool" where
  "acted env cmd p log r log' \<longleftrightarrow>
     (\<exists>before m. log' = before @ [m] \<and> bus_mutations before = bus_mutations log \<and> permitted cmd p m \<and>
        (case required_state cmd of None \<Rightarrow> True | Some st \<Rightarrow> state_observed env p before st) \<and>
        r = (case env before m of Inl _ \<Rightarrow> Err Rejected | Inr _ \<Rightarrow> Ok ()))"

lemma call_acts:
  "permitted cmd p (call_request path i n args) \<Longrightarrow>
   (case required_state cmd of None \<Rightarrow> True | Some st \<Rightarrow> state_observed env p before st) \<Longrightarrow>
   bus_mutations before = bus_mutations log \<Longrightarrow>
   WirePlumberBackend_call env path i n args before = (r, log') \<Longrightarrow> acted env cmd p log r log'"
  unfolding acted_def
  by (rule exI [of _ before], rule exI [of _ "call_request path i n args"])
    (auto simp: WirePlumberBackend_call_def bus_result_def split: sum.splits)

lemma call_observe_cases:
  assumes "bus_bind (bus_result (TelephonyPaths_only_call p)) (\<lambda>call.
     bus_bind (WirePlumberBackend_call_state env call) (\<lambda>state. f call state)) log = (r, log')"
  obtains e where "r = Err e" "bus_mutations log' = bus_mutations log"
  | c before st where "tp_calls p = [c]" "state_observed env p before st"
      "bus_mutations before = bus_mutations log" "f c st before = (r, log')"
proof (cases "length (tp_calls p) = 1")
  case False
  then show ?thesis using assms that(1) by (auto simp: TelephonyPaths_only_call_def)
next
  case True
  then obtain c where c: "tp_calls p = [c]" by (auto simp: length_Suc_conv)
  let ?m = "state_request c OFONO_VOICE_CALL_INTERFACE"
  have run: "bus_bind (WirePlumberBackend_call_state env c) (f c) log = (r, log')"
    using assms c by (simp add: TelephonyPaths_only_call_def)
  show ?thesis
  proof (cases "env log ?m")
    case (Inl e)
    then show ?thesis
      using run that(1) by (auto simp: WirePlumberBackend_call_state_def bus_bind_def [of "bus_bind _ _"])
  next
    case (Inr out)
    show ?thesis
    proof (cases "LiveCallState_parse out")
      case None
      then show ?thesis
        using run Inr that(1)
        by (auto simp: WirePlumberBackend_call_state_def bus_bind_def [of "bus_bind _ _"] bus_result_def)
    next
      case (Some st)
      then have "f c st (log @ [?m]) = (r, log')"
        using run Inr by (simp add: WirePlumberBackend_call_state_def bus_bind_def [of "bus_bind _ _"] bus_result_def)
      moreover have "state_observed env p (log @ [?m]) st"
        using c Inr Some by (auto simp: state_observed_def)
      ultimately show ?thesis using that(2) c by simp
    qed
  qed
qed

lemma execute_with_acts:
  assumes "execute_with env p cmd log = (r, log')"
  shows "(bus_mutations log' = bus_mutations log \<and> r \<noteq> Ok ()) \<or> acted env cmd p log r log'"
proof (cases cmd)
  case Answer
  show ?thesis
    by (rule call_observe_cases [OF assms [unfolded Answer execute_with.simps]])
      (auto simp: Answer bus_result_def split: if_splits intro!: call_acts)
next
  case (SendDtmf t)
  show ?thesis
    by (rule call_observe_cases [OF assms [unfolded SendDtmf execute_with.simps]])
      (auto simp: SendDtmf bus_result_def split: if_splits intro!: call_acts)
qed (use assms in \<open>auto simp: bus_result_def split: if_splits intro!: call_acts\<close>)

text \<open>
  C18: The WirePlumber backend never acts on a call it has not just observed. Executing a
  command issues at most one mutating request, as the very last one, and only when the objects the
  service just reported contain exactly one audio gateway (a path of digits under the telephony
  root). The request is addressed to this gateway or to its only call, on exactly the calls the
  service just reported for this gateway: answering only a single call reported incoming, tones only for a single active call,
  dialling only when there is no call, hanging up only when there is one. Success is reported
  exactly when the service accepted that request; otherwise nothing was changed.
\<close>

theorem wireplumber_guarded:
  assumes "WirePlumberBackend_execute json env cmd log = (r, log')"
  shows "(bus_mutations log' = bus_mutations log \<and> r \<noteq> Ok ()) \<or>
    (\<exists>p log1. WirePlumberBackend_paths json env log = (Ok p, log1) \<and> paths_ok p \<and>
       service_reported json env log p \<and>
       bus_mutations log1 = bus_mutations log \<and> acted env cmd p log1 r log')"
proof -
  obtain x log1 where x: "WirePlumberBackend_paths json env log = (x, log1)" by force
  note observed = paths_observed [OF x]
  show ?thesis
  proof (cases x)
    case (Inl e)
    then show ?thesis using assms x observed by (auto simp: WirePlumberBackend_execute_def bus_bind_def)
  next
    case (Inr p)
    then have "execute_with env p cmd log1 = (r, log')"
      using assms x by (simp add: WirePlumberBackend_execute_def bus_bind_def)
    then show ?thesis using execute_with_acts x Inr observed by fastforce
  qed
qed

lemma permitted_mutation: "permitted cmd p m \<Longrightarrow> is_mutation m"
  by (cases cmd) (auto split: list.splits)

lemma wp_at_most_one:
  "\<exists>ms. bus_mutations (snd (WirePlumberBackend_execute json env cmd log)) = bus_mutations log @ ms \<and> length ms \<le> 1"
proof -
  obtain x log1 where x: "WirePlumberBackend_paths json env log = (x, log1)" by force
  note observed = paths_observed [OF x]
  show ?thesis
  proof (cases x)
    case (Inl e)
    then show ?thesis using x observed by (simp add: WirePlumberBackend_execute_def bus_bind_def)
  next
    case (Inr p)
    obtain r log' where e: "execute_with env p cmd log1 = (r, log')" by force
    then show ?thesis
      using execute_with_acts [OF e] x Inr observed permitted_mutation
      by (auto simp: WirePlumberBackend_execute_def bus_bind_def acted_def)
  qed
qed

interpretation wp_backend: call_backend "WirePlumberBackend_execute json env" bus_mutations for json env
  by unfold_locales (rule wp_at_most_one)

text \<open>
  A controller never issues more operations than it was given commands, over the AT backend
  and over WirePlumber, and none at all, whatever is asked, once its call has ended.
\<close>

theorem controller_never_repeats:
  "length (bus_mutations (cc_backend (run_commands (WirePlumberBackend_execute json env) cmds c))) \<le>
     length (bus_mutations (cc_backend c)) + length cmds \<and>
   length (at_sent (cc_backend (run_commands (AtCommandBackend_execute at) cmds d))) \<le>
     length (at_sent (cc_backend d)) + length cmds \<and>
   run_commands (WirePlumberBackend_execute json env) cmds (CallController_new log CallState.Ended) =
     CallController_new log CallState.Ended \<and>
   run_commands (AtCommandBackend_execute at) cmds (CallController_new b CallState.Ended) =
     CallController_new b CallState.Ended"
  using wp_backend.run_mutations [of json env cmds c] at_backend.run_mutations [of at cmds d]
    wp_backend.ended_is_quiet [of "CallController_new log CallState.Ended" json env cmds]
    at_backend.ended_is_quiet [of "CallController_new b CallState.Ended" at cmds]
  by (auto simp: CallController_new_def)

text \<open>A telephony service with one gateway and one incoming call.\<close>

definition sample_json :: json_reply where
  "sample_json out = (if out = ''objects'' then
       Some \<lparr>reply_signature = ''a{oa{sa{sv}}}'', reply_data = [[TELEPHONY_ROOT @ ''/ag0'']]\<rparr>
     else Some \<lparr>reply_signature = ''a{oa{sv}}'', reply_data = [[TELEPHONY_ROOT @ ''/ag0/call1'']]\<rparr>)"

definition sample_bus :: bus_env where
  "sample_bus log args = (if args = objects_request then Ok ''objects''
     else if hd args = ''--json=short'' then Ok ''calls''
     else Ok ''s \"incoming\"'')"

lemma sample_paths:
  "WirePlumberBackend_paths sample_json sample_bus [] =
     (Ok \<lparr>tp_gateway = TELEPHONY_ROOT @ ''/ag0'', tp_calls = [TELEPHONY_ROOT @ ''/ag0/call1'']\<rparr>,
      [objects_request, calls_request (TELEPHONY_ROOT @ ''/ag0'')])"
  by code_simp

lemma sample_answer:
  "fst (WirePlumberBackend_execute sample_json sample_bus Answer []) = Ok ()"
  by code_simp

theorem wireplumber_guarded_witness:
  "\<exists>p log1 log'. WirePlumberBackend_paths sample_json sample_bus [] = (Ok p, log1) \<and> paths_ok p \<and>
     service_reported sample_json sample_bus [] p \<and> acted sample_bus Answer p log1 (Ok ()) log'"
proof -
  obtain r log' where e: "WirePlumberBackend_execute sample_json sample_bus Answer [] = (r, log')" by force
  then have "r = Ok ()" using sample_answer by simp
  then show ?thesis using wireplumber_guarded [OF e] by blast
qed

end
