(* ===== verification/Call_Audio.thy ===== *)
theory Call_Audio
  imports Core_State Rust_Text Pcm_Stream
begin

text \<open>
  The call-audio path of \<open>crates/analogconnectd/src/audio.rs\<close> around the PCM streams: the
  watchdog for audio that outlives its call, the search for the two SCO nodes in a PipeWire
  snapshot, the \<open>pw-cat\<close> processes, and the live bridge that owns them and its two workers.
  JSON values (serde_json) are a parameter of the search; the operating system is a table of
  running processes and threads in which each start may fail.
\<close>

section \<open>Teardown watchdog\<close>

record ScoTeardownWatchdog =
  wd_grace_period :: nat
  wd_inconsistent_since :: "nat option"

record ScoTeardownObservation =
  ob_state :: AudioTransportState
  ob_stalled :: bool

definition ScoTeardownWatchdog_new :: "nat \<Rightarrow> ScoTeardownWatchdog" where
  "ScoTeardownWatchdog_new grace_period = \<lparr>wd_grace_period = grace_period, wd_inconsistent_since = None\<rparr>"

definition sco_inconsistent :: "CallState \<Rightarrow> AudioTransportState \<Rightarrow> bool" where
  "sco_inconsistent call audio \<longleftrightarrow>
     (call = CallState.Idle \<or> call = CallState.Ended) \<and> audio = AudioTransportState.ScoActive"

definition ScoTeardownWatchdog_observe ::
  "CallState \<Rightarrow> AudioTransportState \<Rightarrow> nat \<Rightarrow> ScoTeardownWatchdog \<Rightarrow>
   ScoTeardownObservation \<times> ScoTeardownWatchdog" where
  "ScoTeardownWatchdog_observe call audio now self =
     (if sco_inconsistent call audio
      then let since = (case wd_inconsistent_since self of None \<Rightarrow> now | Some t \<Rightarrow> t);
               stalled = wd_grace_period self \<le> now - since
        in (\<lparr>ob_state = if stalled then AudioTransportState.Error else AudioTransportState.ScoTearingDown,
             ob_stalled = stalled\<rparr>,
            self\<lparr>wd_inconsistent_since := Some since\<rparr>)
      else (\<lparr>ob_state = audio, ob_stalled = False\<rparr>, self\<lparr>wd_inconsistent_since := None\<rparr>))"

section \<open>SCO nodes in a PipeWire snapshot\<close>

text \<open>What the source uses of \<open>serde_json::Value\<close>.\<close>

record 'v json_api =
  js_from_str :: "string \<Rightarrow> 'v option"
  js_as_array :: "'v \<Rightarrow> 'v list option"
  js_get :: "'v \<Rightarrow> string \<Rightarrow> 'v option"
  js_pointer :: "'v \<Rightarrow> string \<Rightarrow> 'v option"
  js_as_str :: "'v \<Rightarrow> string option"
  js_as_u64 :: "'v \<Rightarrow> u64 option"

record ScoNodePair =
  np_source_serial :: u32
  np_sink_serial :: u32

datatype ScoNodeError = Unavailable | InvalidSnapshot | Absent | Ambiguous

definition parse_pipewire_serial :: "'v json_api \<Rightarrow> 'v \<Rightarrow> u32 option" where
  "parse_pipewire_serial js v =
     (case Option.bind (js_as_str js v) (parse_unsigned (2 ^ 32)) of
        Some n \<Rightarrow> Some (word_of_nat n)
      | None \<Rightarrow> Option.bind (js_as_u64 js v) (\<lambda>n. if unat n < 2 ^ 32 then Some (ucast n) else None))"

definition node_serial :: "'v json_api \<Rightarrow> string \<Rightarrow> 'v \<Rightarrow> u32 option" where
  "node_serial js factory object =
     (if Option.bind (js_get js object ''type'') (js_as_str js) \<noteq> Some ''PipeWire:Interface:Node'' then None
      else case Option.bind (js_pointer js object ''/info/props/object.serial'') (parse_pipewire_serial js) of
             None \<Rightarrow> None
           | Some serial \<Rightarrow>
               if Option.bind (js_pointer js object ''/info/props/factory.name'') (js_as_str js) = Some factory
               then Some serial else None)"

definition serials :: "'v json_api \<Rightarrow> string \<Rightarrow> 'v list \<Rightarrow> u32 list" where
  "serials js factory objects = remdups_adj (sort (List.map_filter (node_serial js factory) objects))"

definition ScoNodeLocator_locate ::
  "'v json_api \<Rightarrow> (string, unit) result \<Rightarrow> (ScoNodePair, ScoNodeError) result" where
  "ScoNodeLocator_locate js snapshot =
     result_bind (map_err (\<lambda>_. Unavailable) snapshot) (\<lambda>text.
     result_bind (ok_or (js_from_str js text) InvalidSnapshot) (\<lambda>objects.
     result_bind (ok_or (js_as_array js objects) InvalidSnapshot) (\<lambda>objects.
       let sources = serials js ''api.bluez5.sco.source'' objects;
           sinks = serials js ''api.bluez5.sco.sink'' objects
       in if sources = [] \<and> sinks = [] then Err Absent
          else if length sources \<noteq> 1 \<or> length sinks \<noteq> 1 \<or> sources ! 0 = sinks ! 0 then Err Ambiguous
          else Ok \<lparr>np_source_serial = sources ! 0, np_sink_serial = sinks ! 0\<rparr>)))"

definition PipeWireAudioStateBackend_snapshot ::
  "'v json_api \<Rightarrow> (string, unit) result \<Rightarrow> (AudioTransportState, ScoNodeError) result" where
  "PipeWireAudioStateBackend_snapshot js snapshot =
     (case ScoNodeLocator_locate js snapshot of
        Inr _ \<Rightarrow> Ok AudioTransportState.ScoActive
      | Inl Absent \<Rightarrow> Ok AudioTransportState.Inactive
      | Inl e \<Rightarrow> Err e)"

section \<open>The pw-cat processes\<close>

datatype PwCatDirection = Capture | Playback

record PwCatCommand =
  pc_direction :: PwCatDirection
  pc_target_serial :: u32
  pc_sample_rate_hz :: u32

datatype PwCatStreamError = UnsupportedFormat | CaptureStartFailed | PlaybackStartFailed | PipeUnavailable

definition PwCatCommand_new ::
  "PwCatDirection \<Rightarrow> u32 \<Rightarrow> AudioFormat \<Rightarrow> (PwCatCommand, PwCatStreamError) result" where
  "PwCatCommand_new direction target_serial format =
     (if \<not> (format = HFP_NARROWBAND \<or> format = HFP_WIDEBAND) then Err PwCatStreamError.UnsupportedFormat
      else Ok \<lparr>pc_direction = direction, pc_target_serial = target_serial,
               pc_sample_rate_hz = sample_rate_hz format\<rparr>)"

definition PwCatCommand_arguments :: "PwCatCommand \<Rightarrow> string list" where
  "PwCatCommand_arguments self =
     [case pc_direction self of Capture \<Rightarrow> ''--record'' | Playback \<Rightarrow> ''--playback'',
      ''--raw'', ''--target'', decimal (unat (pc_target_serial self)),
      ''--rate'', decimal (unat (pc_sample_rate_hz self)),
      ''--channels'', ''1'', ''--format'', ''s16'', ''--latency'', ''7.5ms'', ''-'']"

text \<open>
  The operating system: running children and threads, the commands started so far, and whether
  the next starts succeed (a list of answers; a start beyond it fails). A child has the pipe its
  direction asked for.
\<close>

record os_state =
  os_children :: "nat list"
  os_threads :: "nat list"
  os_started :: "(string \<times> string list) list"
  os_fresh :: nat
  os_answers :: "bool list"

record Child =
  ch_pid :: nat
  ch_stdin :: bool
  ch_stdout :: bool

definition os_start :: "os_state \<Rightarrow> nat option \<times> os_state" where
  "os_start os =
     (case os_answers os of
        True # answers \<Rightarrow> (Some (os_fresh os), os\<lparr>os_answers := answers, os_fresh := os_fresh os + 1\<rparr>)
      | answers \<Rightarrow> (None, os\<lparr>os_answers := tl answers\<rparr>))"

definition spawn_pw_cat :: "string \<Rightarrow> PwCatCommand \<Rightarrow> os_state \<Rightarrow> Child option \<times> os_state" where
  "spawn_pw_cat executable spec os =
     (case os_start os of
        (None, os) \<Rightarrow> (None, os)
      | (Some pid, os) \<Rightarrow>
          (Some \<lparr>ch_pid = pid, ch_stdin = (pc_direction spec = Playback),
                 ch_stdout = (pc_direction spec = Capture)\<rparr>,
           os\<lparr>os_children := pid # os_children os,
              os_started := os_started os @ [(executable, PwCatCommand_arguments spec)]\<rparr>))"

text \<open>Kill and reap.\<close>

definition stop_child :: "Child \<Rightarrow> os_state \<Rightarrow> os_state" where
  "stop_child child os = os\<lparr>os_children := removeAll (ch_pid child) (os_children os)\<rparr>"

record PwCatSession =
  se_capture :: Child
  se_playback :: Child
  se_format :: AudioFormat

definition PwCatSession_start ::
  "string \<Rightarrow> ScoNodePair \<Rightarrow> AudioFormat \<Rightarrow> os_state \<Rightarrow> (PwCatSession, PwCatStreamError) result \<times> os_state" where
  "PwCatSession_start executable nodes format os =
     (case PwCatCommand_new Capture (np_source_serial nodes) format of
        Inl e \<Rightarrow> (Err e, os)
      | Inr capture_spec \<Rightarrow>
          (case PwCatCommand_new Playback (np_sink_serial nodes) format of
             Inl e \<Rightarrow> (Err e, os)
           | Inr playback_spec \<Rightarrow>
               (case spawn_pw_cat executable capture_spec os of
                  (None, os) \<Rightarrow> (Err CaptureStartFailed, os)
                | (Some capture, os) \<Rightarrow>
                    (case spawn_pw_cat executable playback_spec os of
                       (None, os) \<Rightarrow> (Err PlaybackStartFailed, stop_child capture os)
                     | (Some playback, os) \<Rightarrow>
                         if \<not> ch_stdout capture \<or> \<not> ch_stdin playback
                         then (Err PipeUnavailable, stop_child playback (stop_child capture os))
                         else (Ok \<lparr>se_capture = capture, se_playback = playback, se_format = format\<rparr>, os)))))"

text \<open>
  Taking the pipes out of the children; what the capture pipe will deliver is the given sequence
  of read outcomes, and the playback pipe starts empty.
\<close>

definition PwCatSession_take_frame_streams ::
  "io_event list \<Rightarrow> PwCatSession \<Rightarrow>
   (PcmFrameReader \<times> PcmFrameWriter, PwCatStreamError) result \<times> PwCatSession" where
  "PwCatSession_take_frame_streams delivered self =
     (if \<not> ch_stdout (se_capture self) \<or> \<not> ch_stdin (se_playback self) then (Err PipeUnavailable, self)
      else let self = self\<lparr>se_capture := (se_capture self)\<lparr>ch_stdout := False\<rparr>,
                           se_playback := (se_playback self)\<lparr>ch_stdin := False\<rparr>\<rparr>
        in (result_bind (map_err (\<lambda>_. PipeUnavailable) (PcmFrameReader_new delivered (se_format self))) (\<lambda>downlink.
            result_bind (map_err (\<lambda>_. PipeUnavailable)
              (PcmFrameWriter_new \<lparr>bw_written = [], bw_broken = False\<rparr> (se_format self))) (\<lambda>uplink.
              Ok (downlink, uplink))), self))"

definition PwCatSession_drop :: "PwCatSession \<Rightarrow> os_state \<Rightarrow> os_state" where
  "PwCatSession_drop self os = stop_child (se_playback self) (stop_child (se_capture self) os)"

section \<open>The live bridge\<close>

datatype LiveAudioBridgeError = Stream PwCatStreamError | WorkerStartFailed

record LiveAudioBridge =
  lb_session :: "PwCatSession option"
  lb_stop :: bool
  lb_failure :: u8
  lb_workers :: "nat list"
  lb_capture :: PcmFrameReader
  lb_playback :: PcmFrameWriter

definition os_spawn_thread :: "os_state \<Rightarrow> nat option \<times> os_state" where
  "os_spawn_thread os =
     (case os_start os of
        (None, os) \<Rightarrow> (None, os)
      | (Some t, os) \<Rightarrow> (Some t, os\<lparr>os_threads := t # os_threads os\<rparr>))"

text \<open>A worker ends once its pipe is closed or its stop flag is set; joining it reaps it.\<close>

definition os_join :: "nat \<Rightarrow> os_state \<Rightarrow> os_state" where
  "os_join t os = os\<lparr>os_threads := removeAll t (os_threads os)\<rparr>"

definition LiveAudioBridge_start ::
  "string \<Rightarrow> ScoNodePair \<Rightarrow> AudioFormat \<Rightarrow> io_event list \<Rightarrow> os_state \<Rightarrow>
   (LiveAudioBridge, LiveAudioBridgeError) result \<times> os_state" where
  "LiveAudioBridge_start executable nodes format delivered os =
     (case PwCatSession_start executable nodes format os of
        (Inl e, os) \<Rightarrow> (Err (Stream e), os)
      | (Inr session, os) \<Rightarrow>
          (case PwCatSession_take_frame_streams delivered session of
             (Inl e, session) \<Rightarrow> (Err (Stream e), PwCatSession_drop session os)
           | (Inr (capture, playback), session) \<Rightarrow>
               (case os_spawn_thread os of
                  (None, os) \<Rightarrow> (Err WorkerStartFailed, PwCatSession_drop session os)
                | (Some capture_thread, os) \<Rightarrow>
                    (case os_spawn_thread os of
                       (None, os) \<Rightarrow>
                         (Err WorkerStartFailed, os_join capture_thread (PwCatSession_drop session os))
                     | (Some playback_thread, os) \<Rightarrow>
                         (Ok \<lparr>lb_session = Some session, lb_stop = False, lb_failure = LIVE_BRIDGE_OK,
                              lb_workers = [capture_thread, playback_thread],
                              lb_capture = capture, lb_playback = playback\<rparr>, os)))))"

definition LiveAudioBridge_drop :: "LiveAudioBridge \<Rightarrow> os_state \<Rightarrow> LiveAudioBridge \<times> os_state" where
  "LiveAudioBridge_drop self os =
     (let os = (case lb_session self of None \<Rightarrow> os | Some session \<Rightarrow> PwCatSession_drop session os);
          os = fold os_join (lb_workers self) os
      in (self\<lparr>lb_stop := True, lb_session := None, lb_workers := []\<rparr>, os))"

section \<open>What the watchdog reports\<close>

type_synonym sco_sample = "CallState \<times> AudioTransportState \<times> nat"

definition watchdog_run :: "nat \<Rightarrow> sco_sample list \<Rightarrow> ScoTeardownWatchdog" where
  "watchdog_run grace samples =
     fold (\<lambda>(c, a, t) w. snd (ScoTeardownWatchdog_observe c a t w)) samples (ScoTeardownWatchdog_new grace)"

text \<open>The samples of the current uninterrupted period of audio without a call.\<close>

definition streak :: "sco_sample list \<Rightarrow> sco_sample list" where
  "streak samples = rev (takeWhile (\<lambda>(c, a, _). sco_inconsistent c a) (rev samples))"

lemma streak_append:
  "streak (samples @ [(c, a, t)]) = (if sco_inconsistent c a then streak samples @ [(c, a, t)] else [])"
  by (simp add: streak_def)

lemma watchdog_run_state:
  "watchdog_run grace samples = \<lparr>wd_grace_period = grace, wd_inconsistent_since =
     (case streak samples of [] \<Rightarrow> None | (_, _, t) # _ \<Rightarrow> Some t)\<rparr>"
proof (induction samples rule: rev_induct)
  case Nil
  then show ?case by (simp add: watchdog_run_def ScoTeardownWatchdog_new_def streak_def)
next
  case (snoc x samples)
  obtain c a t where x: "x = (c, a, t)" by (cases x)
  have "watchdog_run grace (samples @ [x]) = snd (ScoTeardownWatchdog_observe c a t (watchdog_run grace samples))"
    by (simp add: watchdog_run_def x)
  then show ?case
    by (auto simp: snoc x streak_append ScoTeardownWatchdog_observe_def Let_def split: list.splits)
qed

text \<open>
  C35: The teardown watchdog measures the whole uninterrupted period: after any sequence of
  samples, the next one is reported stalled, as an error, exactly when the call is idle or ended
  with its audio still active and has been so, in every sample since one at least the grace period
  ago; it is reported as tearing down within the grace period, and any other sample is passed on
  unchanged and starts the period afresh.
\<close>

theorem watchdog_exact:
  "fst (ScoTeardownWatchdog_observe c a now (watchdog_run grace samples)) =
     (if sco_inconsistent c a
      then if grace \<le> now - snd (snd (hd (streak (samples @ [(c, a, now)]))))
           then \<lparr>ob_state = AudioTransportState.Error, ob_stalled = True\<rparr>
           else \<lparr>ob_state = AudioTransportState.ScoTearingDown, ob_stalled = False\<rparr>
      else \<lparr>ob_state = a, ob_stalled = False\<rparr>)"
  by (auto simp: watchdog_run_state streak_append ScoTeardownWatchdog_observe_def Let_def split: list.splits)

section \<open>What the locator finds\<close>

definition node_serials :: "'v json_api \<Rightarrow> string \<Rightarrow> 'v list \<Rightarrow> u32 set" where
  "node_serials js factory objects = {s. \<exists>o' \<in> set objects. node_serial js factory o' = Some s}"

definition snapshot_objects :: "'v json_api \<Rightarrow> string \<Rightarrow> 'v list option" where
  "snapshot_objects js text = Option.bind (js_from_str js text) (js_as_array js)"

lemma set_serials [simp]: "set (serials js f objects) = node_serials js f objects"
  by (force simp: serials_def node_serials_def map_filter_def)

lemma serials_singleton: "length (serials js f objects) = 1 \<longleftrightarrow> (\<exists>s. node_serials js f objects = {s})"
  using set_serials [of js f objects] by (simp add: serials_def remdups_adj_sort_one del: One_nat_def)

lemma serials_nth: "node_serials js f objects = {s} \<Longrightarrow> length (serials js f objects) = 1 \<and> serials js f objects ! 0 = s"
proof -
  assume s: "node_serials js f objects = {s}"
  then have len: "length (serials js f objects) = 1" using serials_singleton by blast
  then have "serials js f objects ! 0 \<in> node_serials js f objects"
    using nth_mem [of 0 "serials js f objects"] by simp
  with s len show ?thesis by simp
qed

lemma serials_empty: "serials js f objects = [] \<longleftrightarrow> node_serials js f objects = {}"
  using set_serials [of js f objects] by (metis set_empty)


text \<open>A snapshot of two nodes, with JSON values as their paths' entries.\<close>

datatype sample_value = SObjects "(string \<times> sample_value) list list" | SStr string | SObject "(string \<times> sample_value) list"

definition sample_snapshot :: sample_value where
  "sample_snapshot = SObjects
     [[(''type'', SStr ''PipeWire:Interface:Node''), (''/info/props/object.serial'', SStr ''41''),
       (''/info/props/factory.name'', SStr ''api.bluez5.sco.source'')],
      [(''type'', SStr ''PipeWire:Interface:Node''), (''/info/props/object.serial'', SStr ''42''),
       (''/info/props/factory.name'', SStr ''api.bluez5.sco.sink'')]]"

definition sample_json_api :: "sample_value json_api" where
  "sample_json_api =
     \<lparr>js_from_str = (\<lambda>_. Some sample_snapshot),
      js_as_array = (\<lambda>v. case v of SObjects os \<Rightarrow> Some (map SObject os) | _ \<Rightarrow> None),
      js_get = (\<lambda>v k. case v of SObject o' \<Rightarrow> map_of o' k | _ \<Rightarrow> None),
      js_pointer = (\<lambda>v k. case v of SObject o' \<Rightarrow> map_of o' k | _ \<Rightarrow> None),
      js_as_str = (\<lambda>v. case v of SStr s \<Rightarrow> Some s | _ \<Rightarrow> None),
      js_as_u64 = (\<lambda>_. None)\<rparr>"

lemma sample_locate:
  "ScoNodeLocator_locate sample_json_api (Ok []) = Ok \<lparr>np_source_serial = 41, np_sink_serial = 42\<rparr>"
proof -
  have "parse_digits ''41'' = Some 41" "parse_digits ''42'' = Some 42" by code_simp+
  then have "parse_unsigned (2 ^ 32) ''41'' = Some 41" "parse_unsigned (2 ^ 32) ''42'' = Some 42"
    by (simp_all add: parse_unsigned_def)
  then show ?thesis
    by (simp add: ScoNodeLocator_locate_def sample_json_api_def sample_snapshot_def serials_def
        List.map_filter_def node_serial_def parse_pipewire_serial_def)
qed


section \<open>No process or thread outlives the bridge\<close>

definition os_ok :: "os_state \<Rightarrow> bool" where
  "os_ok os \<longleftrightarrow> (\<forall>x \<in> set (os_children os) \<union> set (os_threads os). x < os_fresh os)"

lemma os_start_cases:
  obtains os' where "os_start os = (None, os')" "os_children os' = os_children os"
      "os_threads os' = os_threads os" "os_started os' = os_started os" "os_fresh os' = os_fresh os"
  | os' where "os_start os = (Some (os_fresh os), os')" "os_children os' = os_children os"
      "os_threads os' = os_threads os" "os_started os' = os_started os" "os_fresh os' = os_fresh os + 1"
proof (cases "os_answers os")
  case Nil
  then show ?thesis using that(1) [of "os\<lparr>os_answers := []\<rparr>"] by (simp add: os_start_def)
next
  case (Cons a as)
  then show ?thesis
    using that(1) [of "os\<lparr>os_answers := as\<rparr>"] that(2) [of "os\<lparr>os_answers := as, os_fresh := os_fresh os + 1\<rparr>"]
    by (cases a) (simp_all add: os_start_def)
qed

lemma spawn_cases:
  obtains os' where "spawn_pw_cat exe spec os = (None, os')" "os_children os' = os_children os"
      "os_threads os' = os_threads os" "os_started os' = os_started os" "os_fresh os' = os_fresh os"
  | os' c where "spawn_pw_cat exe spec os = (Some c, os')" "os_children os' = ch_pid c # os_children os"
      "os_threads os' = os_threads os" "os_fresh os' = os_fresh os + 1" "ch_pid c = os_fresh os"
      "os_started os' = os_started os @ [(exe, PwCatCommand_arguments spec)]"
      "ch_stdin c = (pc_direction spec = Playback)" "ch_stdout c = (pc_direction spec = Capture)"
  by (rule os_start_cases [of os]) (auto simp: spawn_pw_cat_def intro: that)

lemma spawn_thread_cases:
  obtains os' where "os_spawn_thread os = (None, os')" "os_children os' = os_children os"
      "os_threads os' = os_threads os" "os_started os' = os_started os"
  | os' where "os_spawn_thread os = (Some (os_fresh os), os')" "os_children os' = os_children os"
      "os_threads os' = os_fresh os # os_threads os" "os_started os' = os_started os"
      "os_fresh os' = os_fresh os + 1"
  by (rule os_start_cases [of os]) (auto simp: os_spawn_thread_def intro: that)

lemma stop_child_simps [simp]:
  "os_children (stop_child c os) = removeAll (ch_pid c) (os_children os)"
  "os_threads (stop_child c os) = os_threads os" "os_started (stop_child c os) = os_started os"
  "os_fresh (stop_child c os) = os_fresh os"
  by (simp_all add: stop_child_def)

text \<open>The two commands of a session, and a session's children in the table.\<close>

definition session_commands :: "string \<Rightarrow> ScoNodePair \<Rightarrow> AudioFormat \<Rightarrow> (string \<times> string list) list" where
  "session_commands exe nodes format =
     map (\<lambda>(d, target). (exe, PwCatCommand_arguments
        \<lparr>pc_direction = d, pc_target_serial = target, pc_sample_rate_hz = sample_rate_hz format\<rparr>))
       [(Capture, np_source_serial nodes), (Playback, np_sink_serial nodes)]"

definition owns :: "PwCatSession \<Rightarrow> os_state \<Rightarrow> os_state \<Rightarrow> bool" where
  "owns s os os' \<longleftrightarrow> ch_pid (se_capture s) = os_fresh os \<and> ch_pid (se_playback s) = os_fresh os + 1 \<and>
     os_fresh os' = os_fresh os + 2 \<and>
     os_children os' = (os_fresh os + 1) # os_fresh os # os_children os"

lemma session_start_outcome:
  assumes ok: "os_ok os" and run: "PwCatSession_start exe nodes format os = (r, os')"
  shows "os_threads os' = os_threads os \<and>
    (case r of
       Inl e \<Rightarrow> e \<noteq> PipeUnavailable \<and> os_children os' = os_children os
     | Inr s \<Rightarrow> hfp_format format \<and> se_format s = format \<and> ch_stdout (se_capture s) \<and> ch_stdin (se_playback s) \<and>
         owns s os os' \<and> os_started os' = os_started os @ session_commands exe nodes format)"
proof (cases "hfp_format format")
  case False
  then show ?thesis
    using run by (auto simp: PwCatSession_start_def PwCatCommand_new_def hfp_format_def)
next
  case True
  let ?cap = "\<lparr>pc_direction = Capture, pc_target_serial = np_source_serial nodes,
      pc_sample_rate_hz = sample_rate_hz format\<rparr>"
  let ?play = "\<lparr>pc_direction = Playback, pc_target_serial = np_sink_serial nodes,
      pc_sample_rate_hz = sample_rate_hz format\<rparr>"
  have spec: "PwCatCommand_new d t format = Ok \<lparr>pc_direction = d, pc_target_serial = t,
      pc_sample_rate_hz = sample_rate_hz format\<rparr>" for d t
    using True by (auto simp: PwCatCommand_new_def hfp_format_def)
  show ?thesis
  proof (rule spawn_cases [of exe ?cap os])
    fix os1 assume "spawn_pw_cat exe ?cap os = (None, os1)"
      "os_children os1 = os_children os" "os_threads os1 = os_threads os"
    then show ?thesis using run spec by (auto simp: PwCatSession_start_def)
  next
    fix os1 c assume c: "spawn_pw_cat exe ?cap os = (Some c, os1)" "os_children os1 = ch_pid c # os_children os"
      "os_threads os1 = os_threads os" "os_fresh os1 = os_fresh os + 1" "ch_pid c = os_fresh os"
      "os_started os1 = os_started os @ [(exe, PwCatCommand_arguments ?cap)]"
      "ch_stdin c = (pc_direction ?cap = Playback)" "ch_stdout c = (pc_direction ?cap = Capture)"
    have new: "os_fresh os \<notin> set (os_children os)" using ok by (auto simp: os_ok_def)
    show ?thesis
    proof (rule spawn_cases [of exe ?play os1])
      fix os2 assume "spawn_pw_cat exe ?play os1 = (None, os2)"
        "os_children os2 = os_children os1" "os_threads os2 = os_threads os1"
      then show ?thesis using run spec c new by (auto simp: PwCatSession_start_def)
    next
      fix os2 p assume "spawn_pw_cat exe ?play os1 = (Some p, os2)" "os_children os2 = ch_pid p # os_children os1"
        "os_threads os2 = os_threads os1" "os_fresh os2 = os_fresh os1 + 1" "ch_pid p = os_fresh os1"
        "os_started os2 = os_started os1 @ [(exe, PwCatCommand_arguments ?play)]"
        "ch_stdin p = (pc_direction ?play = Playback)" "ch_stdout p = (pc_direction ?play = Capture)"
      then show ?thesis
        using run spec c True
        by (auto simp: PwCatSession_start_def owns_def session_commands_def)
    qed
  qed
qed

lemma take_streams_outcome:
  assumes "hfp_format (se_format s)" and "ch_stdout (se_capture s)" and "ch_stdin (se_playback s)"
  shows "\<exists>c p s'. PwCatSession_take_frame_streams d s = (Ok (c, p), s') \<and> pr_reader c = d \<and>
     pr_format c = se_format s \<and> pw_format p = se_format s \<and>
     ch_pid (se_capture s') = ch_pid (se_capture s) \<and> ch_pid (se_playback s') = ch_pid (se_playback s) \<and>
     (\<forall>d'. fst (PwCatSession_take_frame_streams d' s') = Err PipeUnavailable)"
  using assms
  by (auto simp: PwCatSession_take_frame_streams_def PcmFrameReader_new_def PcmFrameWriter_new_def
      validate_hfp_format_def hfp_format_def Let_def)

lemma drop_owned:
  assumes "os_ok os" and "ch_pid (se_capture s) = os_fresh os" and "ch_pid (se_playback s) = os_fresh os + 1"
    and "os_children os' = (os_fresh os + 1) # os_fresh os # os_children os"
  shows "os_children (PwCatSession_drop s os') = os_children os"
proof -
  have "os_fresh os \<notin> set (os_children os)" "os_fresh os + 1 \<notin> set (os_children os)"
    using assms(1) unfolding os_ok_def by (metis UnI1 less_irrefl, metis UnI1 less_add_one not_less_iff_gr_or_eq)
  then show ?thesis using assms(2-4) by (simp add: PwCatSession_drop_def)
qed

lemma drop_threads [simp]: "os_threads (PwCatSession_drop s os) = os_threads os"
  by (simp add: PwCatSession_drop_def)

lemma join_simps [simp]:
  "os_threads (os_join t os) = removeAll t (os_threads os)" "os_children (os_join t os) = os_children os"
  by (simp_all add: os_join_def)

text \<open>
  C28: The live bridge leaks nothing. When it cannot start, for whatever reason, the running
  processes and threads are those from before; the pipes it asked for are never reported missing.
  When it starts, exactly one capture and one playback process run, recording from the source node
  and playing to the sink node at the format's rate, with one worker each, and dropping it
  leaves the processes and threads from before.
\<close>

theorem live_bridge_no_leak:
  assumes ok: "os_ok os" and run: "LiveAudioBridge_start exe nodes format delivered os = (r, os')"
  shows "case r of
      Inl e \<Rightarrow> os_children os' = os_children os \<and> os_threads os' = os_threads os \<and> e \<noteq> Stream PipeUnavailable
    | Inr b \<Rightarrow> length (os_children os') = length (os_children os) + 2 \<and>
        length (os_threads os') = length (os_threads os) + 2 \<and>
        os_started os' = os_started os @ session_commands exe nodes format \<and>
        pr_reader (lb_capture b) = delivered \<and> pr_format (lb_capture b) = format \<and> pw_format (lb_playback b) = format \<and>
        os_children (snd (LiveAudioBridge_drop b os')) = os_children os \<and>
        os_threads (snd (LiveAudioBridge_drop b os')) = os_threads os"
proof -
  obtain x os1 where x: "PwCatSession_start exe nodes format os = (x, os1)" by force
  note out = session_start_outcome [OF ok x]
  show ?thesis
  proof (cases x)
    case (Inl e)
    then show ?thesis using run x out by (auto simp: LiveAudioBridge_start_def)
  next
    case (Inr s)
    with out have s: "hfp_format format" "se_format s = format" "ch_stdout (se_capture s)" "ch_stdin (se_playback s)"
        "owns s os os1" "os_started os1 = os_started os @ session_commands exe nodes format"
        "os_threads os1 = os_threads os" by simp_all
    obtain c p s' where t: "PwCatSession_take_frame_streams delivered s = (Ok (c, p), s')" "pr_reader c = delivered"
        "pr_format c = format" "pw_format p = format"
        "ch_pid (se_capture s') = os_fresh os" "ch_pid (se_playback s') = os_fresh os + 1"
      using take_streams_outcome [of s delivered] s by (auto simp: owns_def)
    have kids: "os_children os1 = (os_fresh os + 1) # os_fresh os # os_children os" "os_fresh os1 = os_fresh os + 2"
      using s(5) by (simp_all add: owns_def)
    have dropped: "os_children (PwCatSession_drop s' o2) = os_children os" if "os_children o2 = os_children os1" for o2
      using drop_owned [OF ok t(5,6), of o2] kids that by simp
    have fresh: "\<forall>x \<in> set (os_threads os). x < os_fresh os" using ok by (simp add: os_ok_def)
    show ?thesis
    proof (rule spawn_thread_cases [of os1])
      fix o2 assume "os_spawn_thread os1 = (None, o2)" "os_children o2 = os_children os1"
        "os_threads o2 = os_threads os1"
      then show ?thesis using run x Inr t s dropped by (auto simp: LiveAudioBridge_start_def)
    next
      fix o2 assume o2: "os_spawn_thread os1 = (Some (os_fresh os1), o2)" "os_children o2 = os_children os1"
        "os_threads o2 = os_fresh os1 # os_threads os1" "os_started o2 = os_started os1"
        "os_fresh o2 = os_fresh os1 + 1"
      have new: "os_fresh os1 \<notin> set (os_threads os)" "os_fresh o2 \<notin> set (os_threads os)"
        using fresh kids o2 by fastforce+
      show ?thesis
      proof (rule spawn_thread_cases [of o2])
        fix o3 assume "os_spawn_thread o2 = (None, o3)" "os_children o3 = os_children o2"
          "os_threads o3 = os_threads o2"
        then show ?thesis using run x Inr t s dropped o2 new by (auto simp: LiveAudioBridge_start_def)
      next
        fix o3 assume "os_spawn_thread o2 = (Some (os_fresh o2), o3)" "os_children o3 = os_children o2"
          "os_threads o3 = os_fresh o2 # os_threads o2" "os_started o3 = os_started o2"
        then show ?thesis
          using run x Inr t s dropped o2 new kids
          by (auto simp: LiveAudioBridge_start_def LiveAudioBridge_drop_def)
      qed
    qed
  qed
qed

theorem live_bridge_no_leak_witness:
  "\<exists>e os'. LiveAudioBridge_start ''pw-cat'' \<lparr>np_source_serial = 41, np_sink_serial = 42\<rparr> HFP_WIDEBAND []
     \<lparr>os_children = [3], os_threads = [1], os_started = [], os_fresh = 7, os_answers = [True, True, True, False]\<rparr>
     = (Err e, os') \<and> os_children os' = [3] \<and> os_threads os' = [1]"
proof -
  let ?os = "\<lparr>os_children = [3], os_threads = [1], os_started = [], os_fresh = 7,
     os_answers = [True, True, True, False]\<rparr>"
  let ?start = "LiveAudioBridge_start ''pw-cat'' \<lparr>np_source_serial = 41, np_sink_serial = 42\<rparr> HFP_WIDEBAND [] ?os"
  obtain r os' where rs: "?start = (r, os')" by force
  have "fst ?start = Err WorkerStartFailed"
    by (simp add: LiveAudioBridge_start_def PwCatSession_start_def PwCatCommand_new_def spawn_pw_cat_def os_start_def
        PwCatSession_take_frame_streams_def PcmFrameReader_new_def PcmFrameWriter_new_def validate_hfp_format_def
        os_spawn_thread_def Let_def)
  then have "r = Err WorkerStartFailed" using rs by simp
  moreover have "os_ok ?os" by (simp add: os_ok_def)
  ultimately show ?thesis using live_bridge_no_leak [OF _ rs] rs by auto
qed

end
