(* ===== verification/Messages.thy ===== *)
theory Messages
  imports Core_State Rust_Text
begin

text \<open>
  \<open>crates/analogconnectd/src/messages.rs\<close>: when message synchronisation runs, its coordinator,
  the validation of outgoing messages, and the registry that suppresses duplicate sends. Times are
  nanoseconds since the start; the helper program's outcomes are an environment that sees every
  command run before.
\<close>

section \<open>Synchronisation schedule\<close>

datatype MessageSyncMode = Notifications | Polling

record MessageSyncSummary =
  ms_state :: MessageSyncState
  ms_mode :: MessageSyncMode
  ms_successful_syncs :: u64
  ms_failed_syncs :: u64
  ms_last_success_unix_seconds :: "u64 option"

definition MessageSyncSummary_default :: MessageSyncSummary where
  "MessageSyncSummary_default = \<lparr>ms_state = MessageSyncState.Idle, ms_mode = Polling, ms_successful_syncs = 0,
     ms_failed_syncs = 0, ms_last_success_unix_seconds = None\<rparr>"

datatype MapEventKind =
  NewMessage | MessageShift | MessageDeleted | ReadStatusChanged | DeliveryStateChanged
  | MemoryStateChanged | Unknown

definition MapEventKind_from_wire_name :: "string \<Rightarrow> MapEventKind" where
  "MapEventKind_from_wire_name name =
     (if name = ''NewMessage'' then MapEventKind.NewMessage
      else if name = ''MessageShift'' then MessageShift
      else if name = ''MessageDeleted'' then MessageDeleted
      else if name = ''ReadStatusChanged'' then ReadStatusChanged
      else if name \<in> {''DeliverySuccess'', ''DeliveryFailure'', ''SendingSuccess'', ''SendingFailure''}
      then DeliveryStateChanged
      else if name \<in> {''MemoryFull'', ''MemoryAvailable''} then MemoryStateChanged
      else Unknown)"

definition MapEventKind_requires_sync :: "MapEventKind \<Rightarrow> bool" where
  "MapEventKind_requires_sync k \<longleftrightarrow> k \<in> {MapEventKind.NewMessage, MessageShift, MessageDeleted,
     ReadStatusChanged, DeliveryStateChanged}"

datatype SyncTrigger = Notification | Poll

text \<open>\<open>Duration::saturating_add\<close>: the longest duration has 2^64 - 1 seconds and 999999999 ns.\<close>

definition duration_max :: nat where
  "duration_max = 2 ^ 64 * 1000000000 - 1"

definition duration_add :: "nat \<Rightarrow> nat \<Rightarrow> nat" where
  "duration_add a b = min (a + b) duration_max"

record MessageSyncScheduler =
  sc_mode :: MessageSyncMode
  sc_poll_interval :: nat
  sc_notification_timeout :: nat
  sc_last_notification_at :: "nat option"
  sc_next_poll_at :: nat

definition MessageSyncScheduler_new :: "nat \<Rightarrow> nat \<Rightarrow> MessageSyncScheduler" where
  "MessageSyncScheduler_new poll_interval notification_timeout =
     \<lparr>sc_mode = Polling, sc_poll_interval = poll_interval, sc_notification_timeout = notification_timeout,
      sc_last_notification_at = None, sc_next_poll_at = 0\<rparr>"

definition MessageSyncScheduler_notification ::
  "nat \<Rightarrow> string \<Rightarrow> MessageSyncScheduler \<Rightarrow> SyncTrigger option \<times> MessageSyncScheduler" where
  "MessageSyncScheduler_notification now wire_name self =
     (if MapEventKind_requires_sync (MapEventKind_from_wire_name wire_name) then Some Notification else None,
      self\<lparr>sc_mode := Notifications, sc_last_notification_at := Some now,
           sc_next_poll_at := duration_add now (sc_poll_interval self)\<rparr>)"

definition MessageSyncScheduler_tick ::
  "nat \<Rightarrow> MessageSyncScheduler \<Rightarrow> SyncTrigger option \<times> MessageSyncScheduler" where
  "MessageSyncScheduler_tick now self =
     (let self = (case sc_last_notification_at self of
                    Some seen \<Rightarrow> if sc_notification_timeout self \<le> now - seen then self\<lparr>sc_mode := Polling\<rparr> else self
                  | None \<Rightarrow> self)
      in if sc_mode self = Polling \<and> sc_next_poll_at self \<le> now
         then (Some Poll, self\<lparr>sc_next_poll_at := duration_add now (sc_poll_interval self)\<rparr>)
         else (None, self))"

section \<open>Coordinator\<close>

datatype MessageCoordinatorError = SyncFailed | LockPoisoned

record MessageSyncCoordinator =
  mc_scheduler :: "MessageSyncScheduler mutex"
  mc_summary :: "MessageSyncSummary mutex"

definition MessageSyncCoordinator_new :: "MessageSyncScheduler \<Rightarrow> MessageSyncCoordinator" where
  "MessageSyncCoordinator_new scheduler =
     \<lparr>mc_scheduler = Mutex False scheduler, mc_summary = Mutex False MessageSyncSummary_default\<rparr>"

definition MessageSyncCoordinator_summary ::
  "MessageSyncCoordinator \<Rightarrow> (MessageSyncSummary, MessageCoordinatorError) result" where
  "MessageSyncCoordinator_summary self = lock (mc_summary self) LockPoisoned"

text \<open>
  \<open>synchronize\<close> holds the summary's lock twice, and no lock while the backend works: other
  threads may run between its two halves.
\<close>

definition synchronize_begin ::
  "MessageSyncCoordinator \<Rightarrow> (unit, MessageCoordinatorError) result \<times> MessageSyncCoordinator" where
  "synchronize_begin self =
     (case lock (mc_summary self) LockPoisoned of
        Inl e \<Rightarrow> (Err e, self)
      | Inr summary \<Rightarrow>
          (case MessageSyncState_transition_to (ms_state summary) MessageSyncState.Syncing of
             (_, Inl _) \<Rightarrow> (Err LockPoisoned, self)
           | (s, Inr _) \<Rightarrow>
               (Ok (), self\<lparr>mc_summary := unlock_with (mc_summary self) (summary\<lparr>ms_state := s\<rparr>)\<rparr>)))"

definition synchronize_finish ::
  "bool \<Rightarrow> u64 option \<Rightarrow> MessageSyncCoordinator \<Rightarrow>
   (unit, MessageCoordinatorError) result \<times> MessageSyncCoordinator" where
  "synchronize_finish succeeded unix_seconds self =
     (case lock (mc_summary self) LockPoisoned of
        Inl e \<Rightarrow> (Err e, self)
      | Inr summary \<Rightarrow>
          let summary = (if succeeded
                then summary\<lparr>ms_successful_syncs := saturating_add (ms_successful_syncs summary) 1,
                             ms_last_success_unix_seconds := unix_seconds\<rparr>
                else summary\<lparr>ms_failed_syncs := saturating_add (ms_failed_syncs summary) 1\<rparr>);
              (s, moved) = MessageSyncState_transition_to (ms_state summary)
                (if succeeded then MessageSyncState.Idle else MessageSyncState.BackingOff);
              self = self\<lparr>mc_summary := unlock_with (mc_summary self) (summary\<lparr>ms_state := s\<rparr>)\<rparr>
          in (case moved of
                Inl _ \<Rightarrow> (Err LockPoisoned, self)
              | Inr _ \<Rightarrow> (if succeeded then Ok () else Err SyncFailed, self)))"

definition MessageSyncCoordinator_synchronize ::
  "bool \<Rightarrow> u64 option \<Rightarrow> MessageSyncCoordinator \<Rightarrow>
   (unit, MessageCoordinatorError) result \<times> MessageSyncCoordinator" where
  "MessageSyncCoordinator_synchronize succeeds unix_seconds self =
     (case synchronize_begin self of
        (Inl e, self) \<Rightarrow> (Err e, self)
      | (Inr _, self) \<Rightarrow> synchronize_finish succeeds unix_seconds self)"

text \<open>The scheduler's answer, recorded under both locks; then a synchronisation if it asks for one.\<close>

definition coordinate ::
  "(MessageSyncScheduler \<Rightarrow> SyncTrigger option \<times> MessageSyncScheduler) \<Rightarrow> bool \<Rightarrow> u64 option \<Rightarrow>
   MessageSyncCoordinator \<Rightarrow> (unit, MessageCoordinatorError) result \<times> MessageSyncCoordinator" where
  "coordinate ask succeeds unix_seconds self =
     (case lock (mc_scheduler self) LockPoisoned of
        Inl e \<Rightarrow> (Err e, self)
      | Inr scheduler \<Rightarrow>
          let (trigger, scheduler) = ask scheduler;
              self = self\<lparr>mc_scheduler := unlock_with (mc_scheduler self) scheduler\<rparr>
          in (case lock (mc_summary self) LockPoisoned of
                Inl e \<Rightarrow> (Err e, self)
              | Inr summary \<Rightarrow>
                  let self = self\<lparr>mc_summary := unlock_with (mc_summary self) (summary\<lparr>ms_mode := sc_mode scheduler\<rparr>)\<rparr>
                  in (case trigger of
                        None \<Rightarrow> (Ok (), self)
                      | Some _ \<Rightarrow> MessageSyncCoordinator_synchronize succeeds unix_seconds self)))"

definition MessageSyncCoordinator_notification where
  "MessageSyncCoordinator_notification now wire_name =
     coordinate (MessageSyncScheduler_notification now wire_name)"

definition MessageSyncCoordinator_tick where
  "MessageSyncCoordinator_tick now = coordinate (MessageSyncScheduler_tick now)"

section \<open>Outgoing messages\<close>

datatype OutboundMessageError = InvalidRecipient | InvalidBody | InvalidOperationId | TransportFailed

record OutboundMessage =
  om_recipient :: string
  om_body :: string

definition is_recipient_char :: "char \<Rightarrow> bool" where
  "is_recipient_char c \<longleftrightarrow> is_ascii_digit c \<or> c \<in> set ''+-() ''"

definition OutboundMessage_new ::
  "string \<Rightarrow> string \<Rightarrow> (OutboundMessage, OutboundMessageError) result" where
  "OutboundMessage_new recipient body =
     (let recipient = trim recipient in
      if length recipient < 3 \<or> 32 < length recipient \<or> \<not> list_all is_recipient_char recipient
         \<or> \<not> list_ex is_ascii_digit recipient
      then Err InvalidRecipient
      else if body = [] \<or> 2000 < length body \<or> CHR 0x00 \<in> set body then Err InvalidBody
      else Ok \<lparr>om_recipient = recipient, om_body = body\<rparr>)"

text \<open>The helper program: an environment answers each command line, \<open>None\<close> when it cannot be started.\<close>

type_synonym helper_env = "string list list \<Rightarrow> string list \<Rightarrow> bool option"

datatype ImsgMapError = Spawn | Failed

definition ImsgMapBackend_send ::
  "helper_env \<Rightarrow> OutboundMessage \<Rightarrow> string list list \<Rightarrow> (unit, OutboundMessageError) result \<times> string list list" where
  "ImsgMapBackend_send env message log =
     (let args = [''send'', om_recipient message, om_body message]
      in (case env log args of Some True \<Rightarrow> Ok () | _ \<Rightarrow> Err TransportFailed, log @ [args]))"

fun sync_folders :: "helper_env \<Rightarrow> string list \<Rightarrow> string list list \<Rightarrow> (unit, ImsgMapError) result \<times> string list list" where
  "sync_folders env [] log = (Ok (), log)"
| "sync_folders env (folder # folders) log =
     (let args = [''sync'', ''--folder'', folder]; log' = log @ [args] in
      case env log args of
        None \<Rightarrow> (Err Spawn, log')
      | Some False \<Rightarrow> (Err Failed, log')
      | Some True \<Rightarrow> sync_folders env folders log')"

definition ImsgMapBackend_sync_conversations ::
  "helper_env \<Rightarrow> string list list \<Rightarrow> (unit, ImsgMapError) result \<times> string list list" where
  "ImsgMapBackend_sync_conversations env log = sync_folders env [''inbox'', ''sent''] log"

section \<open>Duplicate suppression\<close>

datatype MessageOperationId = MessageOperationId (operation_str: string)

definition MessageOperationId_new :: "string \<Rightarrow> (MessageOperationId, OutboundMessageError) result" where
  "MessageOperationId_new v =
     (if length v \<noteq> 32 \<or> \<not> list_all is_ascii_hexdigit v then Err InvalidOperationId
      else Ok (MessageOperationId (map to_ascii_lowercase v)))"

datatype MessageOperationStart = New | InFlight | AcceptedDuplicate

record MessageOperationRegistry =
  or_capacity :: nat
  or_in_flight :: "MessageOperationId set"
  or_accepted :: "MessageOperationId set"
  or_accepted_order :: "MessageOperationId list"

definition MessageOperationRegistry_new :: "nat \<Rightarrow> MessageOperationRegistry" where
  "MessageOperationRegistry_new capacity =
     \<lparr>or_capacity = max capacity 1, or_in_flight = {}, or_accepted = {}, or_accepted_order = []\<rparr>"

definition MessageOperationRegistry_begin ::
  "MessageOperationId \<Rightarrow> MessageOperationRegistry \<Rightarrow> MessageOperationStart \<times> MessageOperationRegistry" where
  "MessageOperationRegistry_begin operation_id self =
     (if operation_id \<in> or_accepted self then (AcceptedDuplicate, self)
      else if operation_id \<in> or_in_flight self then (InFlight, self)
      else (New, self\<lparr>or_in_flight := insert operation_id (or_in_flight self)\<rparr>))"

text \<open>The loop \<open>while accepted_order.len() > capacity\<close>.\<close>

fun expire :: "nat \<Rightarrow> MessageOperationId list \<Rightarrow> MessageOperationId set \<Rightarrow> MessageOperationId list \<times> MessageOperationId set" where
  "expire cap [] s = ([], s)"
| "expire cap (x # xs) s = (if cap < length (x # xs) then expire cap xs (s - {x}) else (x # xs, s))"

definition MessageOperationRegistry_accepted ::
  "MessageOperationId \<Rightarrow> MessageOperationRegistry \<Rightarrow> MessageOperationRegistry" where
  "MessageOperationRegistry_accepted operation_id self =
     (let self = self\<lparr>or_in_flight := or_in_flight self - {operation_id}\<rparr>;
          self = (if operation_id \<in> or_accepted self then self
                  else self\<lparr>or_accepted := insert operation_id (or_accepted self),
                            or_accepted_order := or_accepted_order self @ [operation_id]\<rparr>);
          (order, accepted) = expire (or_capacity self) (or_accepted_order self) (or_accepted self)
      in self\<lparr>or_accepted_order := order, or_accepted := accepted\<rparr>)"

definition MessageOperationRegistry_failed ::
  "MessageOperationId \<Rightarrow> MessageOperationRegistry \<Rightarrow> MessageOperationRegistry" where
  "MessageOperationRegistry_failed operation_id self =
     self\<lparr>or_in_flight := or_in_flight self - {operation_id}\<rparr>"

section \<open>The schedule's guarantees\<close>

datatype schedule_event = Notified nat string | Ticked nat

primrec event_time :: "schedule_event \<Rightarrow> nat" where
  "event_time (Notified now _) = now"
| "event_time (Ticked now) = now"

fun schedule_step :: "schedule_event \<Rightarrow> MessageSyncScheduler \<Rightarrow> MessageSyncScheduler" where
  "schedule_step (Notified now name) s = snd (MessageSyncScheduler_notification now name s)"
| "schedule_step (Ticked now) s = snd (MessageSyncScheduler_tick now s)"

lemma tick_keeps:
  "sc_poll_interval (snd (MessageSyncScheduler_tick now s)) = sc_poll_interval s"
  "sc_notification_timeout (snd (MessageSyncScheduler_tick now s)) = sc_notification_timeout s"
  "sc_last_notification_at (snd (MessageSyncScheduler_tick now s)) = sc_last_notification_at s"
  "sc_next_poll_at (snd (MessageSyncScheduler_tick now s)) \<in>
     {sc_next_poll_at s, duration_add now (sc_poll_interval s)}"
  by (auto simp: MessageSyncScheduler_tick_def Let_def split: option.splits)

lemma step_keeps [simp]:
  "sc_poll_interval (schedule_step e s) = sc_poll_interval s"
  "sc_notification_timeout (schedule_step e s) = sc_notification_timeout s"
  by (cases e; simp add: tick_keeps MessageSyncScheduler_notification_def)+

text \<open>Nothing is scheduled later than the intervals allow, seen from a time no event is after.\<close>

definition punctual :: "nat \<Rightarrow> MessageSyncScheduler \<Rightarrow> bool" where
  "punctual t s \<longleftrightarrow> sc_next_poll_at s \<le> t + sc_poll_interval s \<and>
     (case sc_last_notification_at s of None \<Rightarrow> sc_mode s = Polling | Some seen \<Rightarrow> seen \<le> t)"

lemma punctual_step: "punctual t s \<Longrightarrow> event_time e \<le> t \<Longrightarrow> punctual t (schedule_step e s)"
  by (cases e) (auto simp: punctual_def MessageSyncScheduler_notification_def MessageSyncScheduler_tick_def
      duration_add_def Let_def split: option.splits)

lemma punctual_run:
  "list_all (\<lambda>e. event_time e \<le> t) es \<Longrightarrow> punctual t s \<Longrightarrow> punctual t (fold schedule_step es s)"
  by (induction es arbitrary: s) (simp_all add: punctual_step)

lemma run_keeps [simp]:
  "sc_poll_interval (fold schedule_step es s) = sc_poll_interval s"
  "sc_notification_timeout (fold schedule_step es s) = sc_notification_timeout s"
  by (induction es arbitrary: s) simp_all

lemma not_before_run:
  assumes "t \<le> sc_next_poll_at s" and "list_all (\<lambda>e. t \<le> duration_add (event_time e) (sc_poll_interval s)) es"
  shows "t \<le> sc_next_poll_at (fold schedule_step es s)"
  using assms
proof (induction es arbitrary: s)
  case Nil
  then show ?case by simp
next
  case (Cons e es)
  have "t \<le> sc_next_poll_at (schedule_step e s)"
    using Cons.prems tick_keeps(4) [of "event_time e" s]
    by (cases e) (auto simp: MessageSyncScheduler_notification_def)
  then show ?case using Cons by simp
qed

lemma punctual_poll:
  assumes "punctual t s" and "t + max (sc_poll_interval s) (sc_notification_timeout s) \<le> now"
  shows "MessageSyncScheduler_tick now s =
    (Some Poll, s\<lparr>sc_mode := Polling, sc_next_poll_at := duration_add now (sc_poll_interval s)\<rparr>)"
proof (cases "sc_last_notification_at s")
  case None
  then show ?thesis using assms by (cases s) (auto simp: MessageSyncScheduler_tick_def punctual_def Let_def)
next
  case (Some seen)
  then have "sc_notification_timeout s \<le> now - seen" "sc_next_poll_at s \<le> now"
    using assms by (auto simp: punctual_def)
  with Some show ?thesis by (simp add: MessageSyncScheduler_tick_def Let_def)
qed

text \<open>
  Synchronisation neither starves nor floods. After any notifications and ticks up to a
  time, a tick the longer of the poll interval and the notification timeout later asks for a poll;
  and after a poll, whatever notifications and ticks come in between, no tick asks for another one
  before the poll interval has passed.
\<close>

theorem poll_schedule:
  assumes "list_all (\<lambda>e. event_time e \<le> t) es" and "t + max poll timeout \<le> now"
    and "list_all (\<lambda>e. now \<le> event_time e) later" and "soon < duration_add now poll"
  shows "\<exists>s. MessageSyncScheduler_tick now (fold schedule_step es (MessageSyncScheduler_new poll timeout)) = (Some Poll, s) \<and>
     fst (MessageSyncScheduler_tick soon (fold schedule_step later s)) = None"
proof -
  let ?s0 = "fold schedule_step es (MessageSyncScheduler_new poll timeout)"
  have p: "punctual t ?s0"
    by (rule punctual_run [OF assms(1)]) (simp add: punctual_def MessageSyncScheduler_new_def)
  have fields: "sc_poll_interval ?s0 = poll" "sc_notification_timeout ?s0 = timeout"
    by (simp_all add: MessageSyncScheduler_new_def)
  obtain s where s: "MessageSyncScheduler_tick now ?s0 = (Some Poll, s)"
      "sc_next_poll_at s = duration_add now poll" "sc_poll_interval s = poll"
    using punctual_poll [OF p, of now] assms(2) fields by simp
  have "duration_add now poll \<le> sc_next_poll_at (fold schedule_step later s)"
    by (rule not_before_run) (use s assms(3) in \<open>auto simp: list_all_iff duration_add_def\<close>)
  then have "fst (MessageSyncScheduler_tick soon (fold schedule_step later s)) = None"
    using assms(4) by (auto simp: MessageSyncScheduler_tick_def Let_def split: option.splits)
  with s show ?thesis by blast
qed

theorem poll_schedule_witness:
  "fst (MessageSyncScheduler_tick 120 (fold schedule_step [Ticked 0, Notified 10 ''NewMessage'']
     (MessageSyncScheduler_new 30 90))) = Some Poll"
proof -
  have "\<exists>s. MessageSyncScheduler_tick 120 (fold schedule_step [Ticked 0, Notified 10 ''NewMessage'']
     (MessageSyncScheduler_new 30 90)) = (Some Poll, s) \<and>
     fst (MessageSyncScheduler_tick 140 (fold schedule_step [Notified 130 ''MemoryFull''] s)) = None"
    by (rule poll_schedule [of 10]) (simp_all add: duration_add_def duration_max_def)
  then show ?thesis by auto
qed

section \<open>Coordinator\<close>

definition coordinator_ok :: "MessageSyncCoordinator \<Rightarrow> bool" where
  "coordinator_ok c \<longleftrightarrow> \<not> poisoned (mc_scheduler c) \<and> \<not> poisoned (mc_summary c) \<and>
     ms_state (mutex_data (mc_summary c)) \<in> {MessageSyncState.Idle, MessageSyncState.BackingOff}"

text \<open>
  One synchronisation after another, the coordinator tells the truth: a synchronisation is
  reported as done exactly when the backend succeeded and as failed exactly when it failed, the
  matching counter goes up and no other, a success clears the backing-off state and records its
  time, and the coordinator is ready for the next call.
\<close>

theorem coordinator_sync_result:
  assumes "coordinator_ok c"
  shows "\<exists>c'. MessageSyncCoordinator_synchronize succeeds clock c =
      (if succeeds then Ok () else Err SyncFailed, c') \<and> coordinator_ok c' \<and>
    mc_scheduler c' = mc_scheduler c \<and>
    mutex_data (mc_summary c') = (if succeeds
      then (mutex_data (mc_summary c))\<lparr>ms_state := MessageSyncState.Idle,
        ms_successful_syncs := saturating_add (ms_successful_syncs (mutex_data (mc_summary c))) 1,
        ms_last_success_unix_seconds := clock\<rparr>
      else (mutex_data (mc_summary c))\<lparr>ms_state := MessageSyncState.BackingOff,
        ms_failed_syncs := saturating_add (ms_failed_syncs (mutex_data (mc_summary c))) 1\<rparr>)"
proof -
  obtain sched summ where c: "c = \<lparr>mc_scheduler = Mutex False sched, mc_summary = Mutex False summ\<rparr>"
    using assms by (cases c; cases "mc_scheduler c"; cases "mc_summary c") (auto simp: coordinator_ok_def)
  with assms have "ms_state summ = MessageSyncState.Idle \<or> ms_state summ = MessageSyncState.BackingOff"
    by (simp add: coordinator_ok_def)
  then show ?thesis
    by (auto simp: c MessageSyncCoordinator_synchronize_def synchronize_begin_def synchronize_finish_def
        MessageSyncState_transition_to_def coordinator_ok_def Let_def)
qed

theorem coordinator_sync_result_witness:
  "fst (MessageSyncCoordinator_synchronize False None (MessageSyncCoordinator_new (MessageSyncScheduler_new 30 90))) =
     Err SyncFailed"
proof -
  have "coordinator_ok (MessageSyncCoordinator_new (MessageSyncScheduler_new 30 90))"
    by (simp add: coordinator_ok_def MessageSyncCoordinator_new_def MessageSyncSummary_default_def)
  from coordinator_sync_result [OF this, of False None] show ?thesis by auto
qed

text \<open>
  C40: Overlapping synchronisations are misreported. The poll task and a notification may
  synchronise at the same time: when both have begun, the first one to finish succeeds and the
  other one fails, the failed one is reported as a poisoned lock and the summary says idle, not
  backing off.
\<close>

theorem overlapping_sync_misreported:
  assumes "coordinator_ok c"
  shows "\<exists>c1 c2 c3 c4. synchronize_begin c = (Ok (), c1) \<and> synchronize_begin c1 = (Ok (), c2) \<and>
    synchronize_finish True clock c2 = (Ok (), c3) \<and> synchronize_finish False clock c3 = (Err LockPoisoned, c4) \<and>
    ms_state (mutex_data (mc_summary c4)) = MessageSyncState.Idle"
proof -
  obtain sched summ where c: "c = \<lparr>mc_scheduler = Mutex False sched, mc_summary = Mutex False summ\<rparr>"
    using assms by (cases c; cases "mc_scheduler c"; cases "mc_summary c") (auto simp: coordinator_ok_def)
  with assms have "ms_state summ = MessageSyncState.Idle \<or> ms_state summ = MessageSyncState.BackingOff"
    by (simp add: coordinator_ok_def)
  then show ?thesis
    by (auto simp: c synchronize_begin_def synchronize_finish_def MessageSyncState_transition_to_def Let_def)
qed

theorem overlapping_sync_misreported_witness:
  "\<exists>c3 c4. synchronize_finish False None c3 = (Err LockPoisoned, c4) \<and>
     ms_state (mutex_data (mc_summary c4)) = MessageSyncState.Idle"
proof -
  have "coordinator_ok (MessageSyncCoordinator_new (MessageSyncScheduler_new 30 90))"
    by (simp add: coordinator_ok_def MessageSyncCoordinator_new_def MessageSyncSummary_default_def)
  from overlapping_sync_misreported [OF this, of None] show ?thesis by blast
qed

section \<open>Each operation is sent once\<close>

lemma expire_evict:
  "distinct xs \<Longrightarrow> set xs = s \<Longrightarrow> expire cap xs s = (evict cap xs, set (evict cap xs))"
proof (induction cap xs s rule: expire.induct)
  case (2 cap x xs s)
  then have "s - {x} = set xs" by auto
  with 2 show ?case by auto
qed simp

definition registry_inv :: "MessageOperationRegistry \<Rightarrow> bool" where
  "registry_inv r \<longleftrightarrow> 0 < or_capacity r \<and> distinct (or_accepted_order r) \<and>
     or_accepted r = set (or_accepted_order r) \<and> length (or_accepted_order r) \<le> or_capacity r \<and>
     or_in_flight r \<inter> or_accepted r = {}"

datatype registry_event = Begin MessageOperationId | Accepted MessageOperationId | Fail MessageOperationId

fun registry_step :: "registry_event \<Rightarrow> MessageOperationRegistry \<Rightarrow> MessageOperationRegistry" where
  "registry_step (Begin i) r = snd (MessageOperationRegistry_begin i r)"
| "registry_step (Accepted i) r = MessageOperationRegistry_accepted i r"
| "registry_step (Fail i) r = MessageOperationRegistry_failed i r"

lemma registry_accepted_state:
  assumes "registry_inv r"
  shows "MessageOperationRegistry_accepted i r =
    (let order = (if i \<in> or_accepted r then or_accepted_order r
                  else evict (or_capacity r) (or_accepted_order r @ [i]))
     in r\<lparr>or_in_flight := or_in_flight r - {i}, or_accepted_order := order, or_accepted := set order\<rparr>)"
proof (cases "i \<in> or_accepted r")
  case True
  then show ?thesis
    using assms expire_evict [of "or_accepted_order r" "or_accepted r" "or_capacity r"]
    by (simp add: MessageOperationRegistry_accepted_def registry_inv_def Let_def)
next
  case False
  then show ?thesis
    using assms expire_evict [of "or_accepted_order r @ [i]" "insert i (or_accepted r)" "or_capacity r"]
    by (simp add: MessageOperationRegistry_accepted_def registry_inv_def Let_def)
qed

lemma registry_step_inv: "registry_inv r \<Longrightarrow> registry_inv (registry_step e r)"
proof (cases e)
  case (Begin i)
  then show "registry_inv r \<Longrightarrow> registry_inv (registry_step e r)"
    by (auto simp: registry_inv_def MessageOperationRegistry_begin_def)
next
  case (Accepted i)
  assume inv: "registry_inv r"
  show "registry_inv (registry_step e r)"
  proof (cases "i \<in> or_accepted r")
    case True
    then show ?thesis using Accepted registry_accepted_state [OF inv, of i] inv by (auto simp: registry_inv_def)
  next
    case False
    have "set (evict (or_capacity r) (or_accepted_order r @ [i])) \<subseteq> insert i (or_accepted r)"
      using set_evict [of "or_capacity r" "or_accepted_order r @ [i]"] inv by (auto simp: registry_inv_def)
    then show ?thesis
      using False Accepted registry_accepted_state [OF inv, of i] inv
      by (auto simp: registry_inv_def Let_def distinct_evict)
  qed
next
  case (Fail i)
  then show "registry_inv r \<Longrightarrow> registry_inv (registry_step e r)"
    by (auto simp: registry_inv_def MessageOperationRegistry_failed_def)
qed

interpretation registry: step_machine registry_step registry_inv
  by unfold_locales (rule registry_step_inv)

lemma registry_new_inv: "registry_inv (MessageOperationRegistry_new cap)"
  by (simp add: registry_inv_def MessageOperationRegistry_new_def)

lemma step_capacity [simp]: "or_capacity (registry_step e r) = or_capacity r"
  by (cases e) (auto simp: MessageOperationRegistry_begin_def MessageOperationRegistry_accepted_def
      MessageOperationRegistry_failed_def Let_def split: prod.splits)

lemma run_capacity [simp]: "or_capacity (fold registry_step es r) = or_capacity r"
  by (induction es arbitrary: r) simp_all

text \<open>An operation in flight stays so while it is neither accepted nor failed.\<close>

lemma in_flight_kept:
  assumes "registry_inv r" and "i \<in> or_in_flight r" and "Accepted i \<notin> set es" and "Fail i \<notin> set es"
  shows "i \<in> or_in_flight (fold registry_step es r)"
  using assms
proof (induction es arbitrary: r)
  case Nil
  then show ?case by simp
next
  case (Cons e es)
  have "i \<in> or_in_flight (registry_step e r)"
    using Cons.prems
    by (cases e) (auto simp: MessageOperationRegistry_begin_def registry_accepted_state MessageOperationRegistry_failed_def Let_def)
  then show ?case using Cons registry_step_inv by simp
qed

text \<open>An accepted operation with at most \<open>k\<close> accepted after it.\<close>

definition accepted_within :: "nat \<Rightarrow> MessageOperationId \<Rightarrow> MessageOperationRegistry \<Rightarrow> bool" where
  "accepted_within k i r \<longleftrightarrow> (\<exists>pre post. or_accepted_order r = pre @ i # post \<and> length post \<le> k)"

fun acceptances :: "registry_event list \<Rightarrow> nat" where
  "acceptances [] = 0"
| "acceptances (e # es) = (case e of Accepted _ \<Rightarrow> 1 | _ \<Rightarrow> 0) + acceptances es"

lemma evict_keeps:
  assumes "length post + 1 < n"
  shows "\<exists>pre'. evict n ((pre @ i # post) @ [x]) = pre' @ i # post @ [x]"
proof -
  let ?d = "length ((pre @ i # post) @ [x]) - n"
  have "?d \<le> length pre" using assms by simp
  then have "evict n ((pre @ i # post) @ [x]) = drop ?d pre @ i # post @ [x]"
    by (simp add: evict_drop)
  then show ?thesis by blast
qed

lemma accepted_within_step:
  assumes "registry_inv r" and "accepted_within k i r" and "k + acceptances [e] < or_capacity r"
  shows "accepted_within (k + acceptances [e]) i (registry_step e r)"
proof (cases e)
  case (Accepted x)
  obtain pre post where o': "or_accepted_order r = pre @ i # post" "length post \<le> k"
    using assms(2) by (auto simp: accepted_within_def)
  show ?thesis
  proof (cases "x \<in> or_accepted r")
    case True
    then show ?thesis
      using Accepted o' registry_accepted_state [OF assms(1), of x]
      unfolding accepted_within_def
      by (intro exI [of _ pre] exI [of _ post]) (simp add: Let_def)
  next
    case False
    have "length post + 1 < or_capacity r" using o'(2) assms(3) Accepted by simp
    from evict_keeps [OF this] obtain pre' where
      "evict (or_capacity r) ((pre @ i # post) @ [x]) = pre' @ i # post @ [x]" ..
    then show ?thesis
      using False Accepted o' registry_accepted_state [OF assms(1), of x]
      unfolding accepted_within_def
      by (intro exI [of _ pre'] exI [of _ "post @ [x]"]) (simp add: Let_def)
  qed
qed (use assms(2) in \<open>auto simp: accepted_within_def MessageOperationRegistry_begin_def
      MessageOperationRegistry_failed_def\<close>)

lemma accepted_within_run:
  "registry_inv r \<Longrightarrow> accepted_within k i r \<Longrightarrow> k + acceptances es < or_capacity r \<Longrightarrow>
   accepted_within (k + acceptances es) i (fold registry_step es r)"
proof (induction es arbitrary: r k)
  case Nil
  then show ?case by simp
next
  case (Cons e es)
  have "accepted_within (k + acceptances [e]) i (registry_step e r)"
    using Cons.prems by (intro accepted_within_step) simp_all
  then show ?case
    using Cons.IH [of "registry_step e r" "k + acceptances [e]"] Cons.prems registry_step_inv
    by (simp add: add.assoc)
qed

text \<open>
  C15: An operation is sent once. When a request's identifier is new to the registry, then as
  long as the send is not over, every further request with it is told that it is in flight; once
  the send is accepted, every further request is answered as a duplicate, until as many operations
  as the capacity have been accepted after it; and after a failed send it may be tried again.
\<close>

theorem operation_sent_once:
  assumes r: "r = fold registry_step before (MessageOperationRegistry_new capacity)"
    and start: "MessageOperationRegistry_begin i r = (New, r1)"
    and quiet: "Accepted i \<notin> set meanwhile" "Fail i \<notin> set meanwhile"
    and r2: "r2 = fold registry_step meanwhile r1"
    and few: "acceptances later < max capacity 1"
  shows "fst (MessageOperationRegistry_begin i r2) = InFlight \<and>
    fst (MessageOperationRegistry_begin i (fold registry_step later (MessageOperationRegistry_accepted i r2))) =
      AcceptedDuplicate \<and>
    fst (MessageOperationRegistry_begin i (MessageOperationRegistry_failed i r2)) = New"
proof -
  have inv: "registry_inv r" unfolding r by (rule registry.run_inv [OF registry_new_inv])
  have r1: "r1 = r\<lparr>or_in_flight := insert i (or_in_flight r)\<rparr>" "i \<notin> or_accepted r"
    using start by (auto simp: MessageOperationRegistry_begin_def split: if_splits)
  have inv1: "registry_inv r1" using registry_step_inv [OF inv, of "Begin i"] start by simp
  have inv2: "registry_inv r2" unfolding r2 by (rule registry.run_inv [OF inv1])
  have fl: "i \<in> or_in_flight r2" unfolding r2 by (rule in_flight_kept [OF inv1 _ quiet]) (simp add: r1)
  with inv2 have na: "i \<notin> or_accepted r2" by (auto simp: registry_inv_def)
  have cap: "or_capacity r2 = max capacity 1"
    by (simp add: r2 r1 r MessageOperationRegistry_new_def)
  let ?r3 = "MessageOperationRegistry_accepted i r2"
  have inv3: "registry_inv ?r3" using registry_step_inv [OF inv2, of "Accepted i"] by simp
  have cap3: "or_capacity ?r3 = max capacity 1" using step_capacity [of "Accepted i" r2] cap by simp
  have "\<exists>pre'. evict (or_capacity r2) (or_accepted_order r2 @ [i]) = pre' @ [i]"
    using cap by (auto simp: evict_drop)
  then have "accepted_within 0 i ?r3"
    using registry_accepted_state [OF inv2, of i] na by (auto simp: accepted_within_def Let_def)
  then have "accepted_within (acceptances later) i (fold registry_step later ?r3)"
    using accepted_within_run [OF inv3, of 0 i later] few cap3 by simp
  then have "i \<in> or_accepted (fold registry_step later ?r3)"
    using registry.run_inv [OF inv3, of later] by (auto simp: accepted_within_def registry_inv_def)
  then show ?thesis
    using fl na by (simp add: MessageOperationRegistry_begin_def MessageOperationRegistry_failed_def)
qed

theorem operation_sent_once_witness:
  "fst (MessageOperationRegistry_begin (MessageOperationId ''a'')
     (fold registry_step [Begin (MessageOperationId ''b''), Accepted (MessageOperationId ''b'')]
       (MessageOperationRegistry_accepted (MessageOperationId ''a'')
         (snd (MessageOperationRegistry_begin (MessageOperationId ''a'') (MessageOperationRegistry_new 2)))))) =
     AcceptedDuplicate"
proof -
  let ?i = "MessageOperationId ''a''"
  obtain r1 where b: "MessageOperationRegistry_begin ?i (MessageOperationRegistry_new 2) = (New, r1)"
    by (simp add: MessageOperationRegistry_begin_def MessageOperationRegistry_new_def)
  show ?thesis
    using operation_sent_once [of "MessageOperationRegistry_new 2" "[]" 2 ?i r1 "[]" r1
      "[Begin (MessageOperationId ''b''), Accepted (MessageOperationId ''b'')]"] b
    by simp
qed

text \<open>
  Accepted identifiers do not last as long as the daemon: after as many other new
  operations as the capacity have been accepted, a repeated request with an accepted identifier is
  new again, and is sent again.
\<close>

theorem accepted_ids_expire:
  assumes "registry_inv r" and "distinct (i # others)" and "length others = or_capacity r"
    and "set others \<inter> or_accepted r = {}"
  shows "fst (MessageOperationRegistry_begin i
    (fold registry_step (map Accepted others) (MessageOperationRegistry_failed i r))) = New"
proof -
  have gen: "or_accepted_order (fold registry_step (map Accepted xs) s) =
        evict (or_capacity s) (or_accepted_order s @ xs) \<and>
      or_in_flight (fold registry_step (map Accepted xs) s) \<subseteq> or_in_flight s"
    if "registry_inv s" "distinct xs" "set xs \<inter> or_accepted s = {}" for xs s
    using that
  proof (induction xs arbitrary: s)
    case Nil
    then show ?case by (simp add: registry_inv_def)
  next
    case (Cons x xs)
    let ?s = "MessageOperationRegistry_accepted x s"
    have inv: "registry_inv ?s" using registry_step_inv [of s "Accepted x"] Cons.prems by simp
    have st: "or_accepted_order ?s = evict (or_capacity s) (or_accepted_order s @ [x])"
        "or_accepted ?s = set (evict (or_capacity s) (or_accepted_order s @ [x]))"
        "or_in_flight ?s \<subseteq> or_in_flight s" "or_capacity ?s = or_capacity s"
      using registry_accepted_state [of s x] Cons.prems by (auto simp: Let_def)
    have "set xs \<inter> or_accepted ?s = {}"
      using Cons.prems st(2) by (auto simp: registry_inv_def dest!: in_set_evictD)
    then show ?case using Cons.IH [OF inv] Cons.prems st by auto
  qed
  let ?r = "MessageOperationRegistry_failed i r" and ?es = "map Accepted others"
  have inv: "registry_inv ?r" using registry_step_inv [OF assms(1), of "Fail i"] by simp
  have f: "or_accepted ?r = or_accepted r" "or_capacity ?r = or_capacity r" "i \<notin> or_in_flight ?r"
    by (simp_all add: MessageOperationRegistry_failed_def)
  note g = gen [OF inv, of others]
  have "or_accepted_order (fold registry_step ?es ?r) = others"
    using g assms f by (simp add: evict_drop)
  then have "or_accepted (fold registry_step ?es ?r) = set others"
    using registry.run_inv [OF inv, of ?es] by (simp add: registry_inv_def)
  then show ?thesis using g assms f by (auto simp: MessageOperationRegistry_begin_def)
qed

theorem accepted_ids_expire_witness:
  "fst (MessageOperationRegistry_begin (MessageOperationId ''a'')
     (fold registry_step (map Accepted [MessageOperationId ''b''])
       (MessageOperationRegistry_failed (MessageOperationId ''a'')
         (MessageOperationRegistry_accepted (MessageOperationId ''a'') (MessageOperationRegistry_new 1))))) = New"
proof -
  let ?r = "MessageOperationRegistry_accepted (MessageOperationId ''a'') (MessageOperationRegistry_new 1)"
  have "registry_inv ?r" using registry_step_inv [OF registry_new_inv [of 1], of "Accepted (MessageOperationId ''a'')"] by simp
  moreover have "or_capacity ?r = 1" "or_accepted ?r = {MessageOperationId ''a''}"
    by (simp_all add: MessageOperationRegistry_accepted_def MessageOperationRegistry_new_def)
  ultimately show ?thesis
    using accepted_ids_expire [of ?r "MessageOperationId ''a''" "[MessageOperationId ''b'']"] by simp
qed

end
