(* ===== verification/Contact_Store.thy ===== *)
theory Contact_Store
  imports Core_State Core_Contacts "HOL-Library.List_Lexorder" "HOL-Library.Char_ord" "HOL-Library.Product_Lexorder"
begin

text \<open>
  \<open>crates/analogconnectd/src/contacts.rs\<close>: the contact database, its searches, and the
  synchroniser that replaces it by a pulled snapshot. The two tables are lists of rows in the order
  of their row ids; a statement of a call may fail, which is an argument of the call. The SQL
  that the source uses is defined here: row ids, cascading deletion, \<open>LIKE\<close> with an escape
  character, \<open>TRIM\<close> and the \<open>NOCASE\<close> order.
\<close>

section \<open>The tables\<close>

record ContactRow =
  cr_id :: int
  cr_display_name :: "string option"

record PhoneRow =
  cp_id :: int
  cp_contact_id :: int
  cp_display_number :: string
  cp_normalized_number :: string

record ContactDb =
  db_contacts :: "ContactRow list"
  db_phones :: "PhoneRow list"

type_synonym ContactStore = "ContactDb mutex"

datatype ContactStoreError = Database | FilePermissions | LockPoisoned

record ContactSummary =
  cs_contact_count :: nat
  cs_phone_count :: nat
  cs_last_sync_unix_seconds :: "u64 option"

definition ContactStore_in_memory :: ContactStore where
  "ContactStore_in_memory = Mutex False \<lparr>db_contacts = [], db_phones = []\<rparr>"

text \<open>The row id of an insertion into a table with an integer primary key.\<close>

definition next_rowid :: "int list \<Rightarrow> int" where
  "next_rowid ids = (if ids = [] then 1 else Max (set ids) + 1)"

text \<open>\<open>DELETE FROM contacts\<close>, which cascades to the phones of the deleted contacts.\<close>

definition delete_contacts :: "ContactDb \<Rightarrow> ContactDb" where
  "delete_contacts db =
     \<lparr>db_contacts = [],
      db_phones = filter (\<lambda>p. cp_contact_id p \<notin> set (map cr_id (db_contacts db))) (db_phones db)\<rparr>"

text \<open>The number of the next statement, the phones counted so far, and the transaction's tables.\<close>

type_synonym transaction = "nat \<times> nat \<times> ContactDb"

fun insert_phones :: "(nat \<Rightarrow> bool) \<Rightarrow> int \<Rightarrow> PhoneNumber list \<Rightarrow> transaction \<Rightarrow> transaction option" where
  "insert_phones fails contact_id [] t = Some t"
| "insert_phones fails contact_id (phone # ps) (n, phone_count, db) =
     (if fails n then None
      else insert_phones fails contact_id ps
        (Suc n, phone_count + 1,
         db\<lparr>db_phones := db_phones db @
             [\<lparr>cp_id = next_rowid (map cp_id (db_phones db)), cp_contact_id = contact_id,
               cp_display_number = ph_display phone, cp_normalized_number = ph_normalized phone\<rparr>]\<rparr>))"

fun insert_contacts :: "(nat \<Rightarrow> bool) \<Rightarrow> Contact list \<Rightarrow> transaction \<Rightarrow> transaction option" where
  "insert_contacts fails [] t = Some t"
| "insert_contacts fails (contact # contacts) (n, phone_count, db) =
     (if fails n then None
      else let contact_id = next_rowid (map cr_id (db_contacts db));
               db = db\<lparr>db_contacts := db_contacts db @
                   [\<lparr>cr_id = contact_id, cr_display_name = display_name contact\<rparr>]\<rparr>
        in case insert_phones fails contact_id (phones contact) (Suc n, phone_count, db) of
             None \<Rightarrow> None
           | Some t \<Rightarrow> insert_contacts fails contacts t)"

definition ContactStore_replace_all ::
  "(nat \<Rightarrow> bool) \<Rightarrow> Contact list \<Rightarrow> ContactStore \<Rightarrow> (ContactSummary, ContactStoreError) result \<times> ContactStore" where
  "ContactStore_replace_all fails contacts self =
     (case lock self LockPoisoned of
        Inl e \<Rightarrow> (Err e, self)
      | Inr db \<Rightarrow>
          if fails 0 \<or> fails 1 then (Err Database, self)
          else case insert_contacts fails contacts (2, 0, delete_contacts db) of
                 None \<Rightarrow> (Err Database, self)
               | Some (n, phone_count, db') \<Rightarrow>
                   if fails n then (Err Database, self)
                   else (Ok \<lparr>cs_contact_count = length contacts, cs_phone_count = phone_count,
                             cs_last_sync_unix_seconds = None\<rparr>,
                         unlock_with self db'))"

text \<open>A read-only call: the lock, then statements that may fail.\<close>

definition db_read :: "bool \<Rightarrow> ContactStore \<Rightarrow> (ContactDb \<Rightarrow> 'a) \<Rightarrow> ('a, ContactStoreError) result" where
  "db_read fails self f =
     result_bind (lock self LockPoisoned) (\<lambda>db. if fails then Err Database else Ok (f db))"

definition ContactStore_summary :: "bool \<Rightarrow> ContactStore \<Rightarrow> (ContactSummary, ContactStoreError) result" where
  "ContactStore_summary fails self = db_read fails self (\<lambda>db.
       \<lparr>cs_contact_count = length (db_contacts db), cs_phone_count = length (db_phones db),
           cs_last_sync_unix_seconds = None\<rparr>)"

section \<open>Searches\<close>

definition load_phones :: "ContactDb \<Rightarrow> int \<Rightarrow> PhoneNumber list" where
  "load_phones db contact_id =
     map (\<lambda>p. \<lparr>ph_display = cp_display_number p, ph_normalized = cp_normalized_number p\<rparr>)
       (sort_key cp_id (filter (\<lambda>p. cp_contact_id p = contact_id) (db_phones db)))"

definition row_contact :: "ContactDb \<Rightarrow> ContactRow \<Rightarrow> Contact" where
  "row_contact db row = \<lparr>display_name = cr_display_name row, phones = load_phones db (cr_id row)\<rparr>"

text \<open>\<open>LIKE\<close>, which ignores the case of ASCII letters, with an optional escape character.\<close>

fun sql_like :: "char option \<Rightarrow> string \<Rightarrow> string \<Rightarrow> bool" where
  "sql_like esc [] s = (s = [])"
| "sql_like esc (p # ps) s =
     (if esc = Some p
      then (case ps of [] \<Rightarrow> False
            | q # qs \<Rightarrow> (case s of [] \<Rightarrow> False
                | c # cs \<Rightarrow> to_ascii_lowercase c = to_ascii_lowercase q \<and> sql_like esc qs cs))
      else if p = CHR ''%''
      then sql_like esc ps s \<or> (case s of [] \<Rightarrow> False | c # cs \<Rightarrow> sql_like esc (p # ps) cs)
      else if p = CHR ''_''
      then (case s of [] \<Rightarrow> False | c # cs \<Rightarrow> sql_like esc ps (dropWhile is_continuation cs))
      else (case s of [] \<Rightarrow> False
            | c # cs \<Rightarrow> to_ascii_lowercase c = to_ascii_lowercase p \<and> sql_like esc ps cs))"

definition replace_char :: "char \<Rightarrow> string \<Rightarrow> string \<Rightarrow> string" where
  "replace_char c r s = concat (map (\<lambda>x. if x = c then r else [x]) s)"

definition backslash :: char where "backslash = CHR 0x5C"

definition escape_like :: "string \<Rightarrow> string" where
  "escape_like query =
     replace_char (CHR ''_'') [backslash, CHR ''_'']
       (replace_char (CHR ''%'') [backslash, CHR ''%'']
         (replace_char backslash [backslash, backslash] query))"

definition nocase_key :: "ContactRow \<Rightarrow> string \<times> int" where
  "nocase_key row =
     (map to_ascii_lowercase (case cr_display_name row of None \<Rightarrow> [] | Some n \<Rightarrow> n), cr_id row)"

definition matching_rows :: "string \<Rightarrow> ContactDb \<Rightarrow> ContactRow list" where
  "matching_rows query db =
     (let pattern = ''%'' @ escape_like query @ ''%''
      in sort_key nocase_key (filter (\<lambda>row. case cr_display_name row of
             None \<Rightarrow> False | Some name \<Rightarrow> sql_like (Some backslash) pattern name) (db_contacts db)))"

definition ContactStore_search_names_page ::
  "bool \<Rightarrow> string \<Rightarrow> u16 \<Rightarrow> u16 \<Rightarrow> ContactStore \<Rightarrow> (Contact list, ContactStoreError) result" where
  "ContactStore_search_names_page fails query limit offset self = db_read fails self (\<lambda>db.
     map (row_contact db) (take (unat (min limit 101)) (drop (unat offset) (matching_rows query db))))"

definition ContactStore_search_names where
  "ContactStore_search_names fails query limit self = ContactStore_search_names_page fails query limit 0 self"

text \<open>\<open>TRIM(x, '+')\<close>.\<close>

definition trim_plus :: "string \<Rightarrow> string" where
  "trim_plus s = rev (dropWhile (\<lambda>c. c = CHR ''+'') (rev (dropWhile (\<lambda>c. c = CHR ''+'') s)))"

definition caller_suffix :: "string \<Rightarrow> string" where
  "caller_suffix key = (if 10 \<le> length key then drop (length key - 10) key else key)"

definition phone_row_matches :: "string \<Rightarrow> PhoneRow \<Rightarrow> bool" where
  "phone_row_matches key p \<longleftrightarrow>
     trim_plus (cp_normalized_number p) = key
     \<or> (caller_suffix key \<noteq> [] \<and> sql_like None (CHR ''%'' # caller_suffix key) (trim_plus (cp_normalized_number p)))"

definition caller_rows :: "string \<Rightarrow> ContactDb \<Rightarrow> ContactRow list" where
  "caller_rows key db =
     take 2 (sort_key cr_id (filter (\<lambda>c. \<exists>p \<in> set (db_phones db). cp_contact_id p = cr_id c \<and> phone_row_matches key p)
       (db_contacts db)))"

definition ContactStore_lookup_caller ::
  "bool \<Rightarrow> string \<Rightarrow> ContactStore \<Rightarrow> (Contact option, ContactStoreError) result" where
  "ContactStore_lookup_caller fails incoming self =
     (case PhoneNumber_parse incoming of
        None \<Rightarrow> Ok None
      | Some parsed \<Rightarrow>
          db_read fails self (\<lambda>db.
            let rows = caller_rows (PhoneNumber_match_key parsed) db
            in if length rows \<noteq> 1 then None else Some (row_contact db (rows ! 0))))"

definition ContactStore_lookup_display_name ::
  "bool \<Rightarrow> string \<Rightarrow> ContactStore \<Rightarrow> (string option, ContactStoreError) result" where
  "ContactStore_lookup_display_name fails number self =
     result_bind (ContactStore_lookup_caller fails number self) (\<lambda>c. Ok (Option.bind c display_name))"

section \<open>Pulling and synchronising\<close>

datatype ImsgSourceError = Spawn | Failed | InvalidText | InvalidPayload

text \<open>\<open>imsg contacts --raw\<close>: whether it could be started, its success, and its standard output.\<close>

definition ImsgContactSource_pull_all :: "(bool \<times> u8 list) option \<Rightarrow> (Contact list, ImsgSourceError) result" where
  "ImsgContactSource_pull_all outcome =
     (case outcome of
        None \<Rightarrow> Err Spawn
      | Some (success, stdout) \<Rightarrow>
          if \<not> success then Err Failed
          else if \<not> utf8_valid stdout then Err InvalidText
          else map_err (\<lambda>_. InvalidPayload) (parse_imsg_contacts (map char_of_byte stdout)))"

datatype ContactSyncError = Source | Store | LockPoisoned

record ContactSynchronizer =
  sy_store :: ContactStore
  sy_state :: "ContactSyncState mutex"

definition ContactSynchronizer_new :: "ContactStore \<Rightarrow> ContactSynchronizer" where
  "ContactSynchronizer_new store = \<lparr>sy_store = store, sy_state = Mutex False ContactSyncState.Idle\<rparr>"

definition ContactSynchronizer_state :: "ContactSynchronizer \<Rightarrow> (ContactSyncState, ContactSyncError) result" where
  "ContactSynchronizer_state self = lock (sy_state self) ContactSyncError.LockPoisoned"

definition ContactSynchronizer_set_state ::
  "ContactSyncState \<Rightarrow> ContactSynchronizer \<Rightarrow> (unit, ContactSyncError) result \<times> ContactSynchronizer" where
  "ContactSynchronizer_set_state nxt self =
     (case lock (sy_state self) ContactSyncError.LockPoisoned of
        Inl e \<Rightarrow> (Err e, self)
      | Inr state \<Rightarrow>
          (case ContactSyncState_transition_to state nxt of
             (s, moved) \<Rightarrow>
               (map_err (\<lambda>_. ContactSyncError.LockPoisoned) moved,
                self\<lparr>sy_state := unlock_with (sy_state self) s\<rparr>)))"

definition sync_then ::
  "ContactSyncState \<Rightarrow> (ContactSummary, ContactSyncError) result \<Rightarrow> ContactSynchronizer \<Rightarrow>
   (ContactSummary, ContactSyncError) result \<times> ContactSynchronizer" where
  "sync_then nxt r self =
     (case ContactSynchronizer_set_state nxt self of
        (Inl e, self) \<Rightarrow> (Err e, self) | (Inr _, self) \<Rightarrow> (r, self))"

definition ContactSynchronizer_sync ::
  "(Contact list, 'e) result \<Rightarrow> (nat \<Rightarrow> bool) \<Rightarrow> u64 option \<Rightarrow> ContactSynchronizer \<Rightarrow>
   (ContactSummary, ContactSyncError) result \<times> ContactSynchronizer" where
  "ContactSynchronizer_sync pulled fails unix_seconds self =
     (case ContactSynchronizer_set_state ContactSyncState.Syncing self of
        (Inl e, self) \<Rightarrow> (Err e, self)
      | (Inr _, self) \<Rightarrow>
          (case pulled of
             Inl _ \<Rightarrow> sync_then ContactSyncState.BackingOff (Err Source) self
           | Inr contacts \<Rightarrow>
               (case ContactStore_replace_all fails contacts (sy_store self) of
                  (Inl _, store) \<Rightarrow>
                    sync_then ContactSyncState.Error (Err Store) (self\<lparr>sy_store := store\<rparr>)
                | (Inr summary, store) \<Rightarrow>
                    sync_then ContactSyncState.Idle (Ok (summary\<lparr>cs_last_sync_unix_seconds := unix_seconds\<rparr>))
                      (self\<lparr>sy_store := store\<rparr>))))"

section \<open>Replacing the snapshot\<close>

definition db_ok :: "ContactDb \<Rightarrow> bool" where
  "db_ok db \<longleftrightarrow> sorted_wrt (<) (map cr_id (db_contacts db)) \<and> sorted_wrt (<) (map cp_id (db_phones db)) \<and>
     (\<forall>p \<in> set (db_phones db). cp_contact_id p \<in> cr_id ` set (db_contacts db))"

text \<open>The stored contacts as the source has them.\<close>

definition contents :: "ContactDb \<Rightarrow> Contact list" where
  "contents db = map (row_contact db) (db_contacts db)"

lemma next_rowid_greater: "x \<in> set ids \<Longrightarrow> x < next_rowid ids"
  by (auto simp: next_rowid_def less_le_trans zle_add1_eq_le)

lemma db_ok_delete: "db_ok db \<Longrightarrow> delete_contacts db = \<lparr>db_contacts = [], db_phones = []\<rparr>"
  by (auto simp: delete_contacts_def db_ok_def)

lemma sort_key_sorted: "sorted_wrt (<) (map f xs) \<Longrightarrow> sort_key f (filter P xs) = filter P xs"
  for f :: "'a \<Rightarrow> 'b::linorder"
proof -
  assume s: "sorted_wrt (<) (map f xs)"
  have "sorted (map f (filter P xs))"
    by (rule sorted_filter) (rule strict_sorted_imp_sorted [OF s])
  then show ?thesis by (rule sort_key_id_if_sorted)
qed

definition phone_of :: "PhoneRow \<Rightarrow> PhoneNumber" where
  "phone_of p = \<lparr>ph_display = cp_display_number p, ph_normalized = cp_normalized_number p\<rparr>"

lemma load_phones_filter:
  "db_ok db \<Longrightarrow> load_phones db c = map phone_of (filter (\<lambda>p. cp_contact_id p = c) (db_phones db))"
  by (simp add: load_phones_def db_ok_def sort_key_sorted phone_of_def cong: map_cong)

lemma insert_phones_ok:
  assumes "db_ok db" and "cid \<in> cr_id ` set (db_contacts db)"
  shows "\<exists>db'. insert_phones (\<lambda>_. False) cid ps (n, k, db) = Some (n + length ps, k + length ps, db') \<and> db_ok db' \<and>
    db_contacts db' = db_contacts db \<and>
    (\<forall>c. load_phones db' c = load_phones db c @ (if c = cid then ps else []))"
  using assms
proof (induction ps arbitrary: n k db)
  case Nil
  then show ?case by simp
next
  case (Cons p ps)
  let ?row = "\<lparr>cp_id = next_rowid (map cp_id (db_phones db)), cp_contact_id = cid,
      cp_display_number = ph_display p, cp_normalized_number = ph_normalized p\<rparr>"
  let ?db = "db\<lparr>db_phones := db_phones db @ [?row]\<rparr>"
  have "sorted_wrt (<) (map cp_id (db_phones db @ [?row]))"
    using Cons.prems(1) next_rowid_greater [of _ "map cp_id (db_phones db)"]
    by (auto simp: db_ok_def sorted_wrt_append)
  then have ok: "db_ok ?db" using Cons.prems by (auto simp: db_ok_def)
  have load: "load_phones ?db c = load_phones db c @ (if c = cid then [p] else [])" for c
    using load_phones_filter [OF ok, of c] load_phones_filter [OF Cons.prems(1), of c]
    by (simp add: phone_of_def)
  from Cons.IH [OF ok, of "Suc n" "k + 1"] Cons.prems(2) obtain db' where
    "insert_phones (\<lambda>_. False) cid ps (Suc n, k + 1, ?db) = Some (Suc n + length ps, k + 1 + length ps, db')"
    "db_ok db'" "db_contacts db' = db_contacts db"
    "\<forall>c. load_phones db' c = load_phones ?db c @ (if c = cid then ps else [])" by auto
  then show ?case using load by (intro exI [of _ db']) simp
qed

lemma insert_contacts_ok:
  assumes "db_ok db"
  shows "\<exists>m db'. insert_contacts (\<lambda>_. False) cs (n, k, db) = Some (m, k + sum_list (map (\<lambda>c. length (phones c)) cs), db') \<and>
    db_ok db' \<and> contents db' = contents db @ cs"
  using assms
proof (induction cs arbitrary: n k db)
  case Nil
  then show ?case by simp
next
  case (Cons c cs)
  let ?cid = "next_rowid (map cr_id (db_contacts db))"
  let ?row = "\<lparr>cr_id = ?cid, cr_display_name = display_name c\<rparr>"
  let ?db = "db\<lparr>db_contacts := db_contacts db @ [?row]\<rparr>"
  have less: "\<forall>x \<in> set (db_contacts db). cr_id x < ?cid"
    using next_rowid_greater [of _ "map cr_id (db_contacts db)"] by simp
  then have ok: "db_ok ?db" using Cons.prems by (auto simp: db_ok_def sorted_wrt_append)
  obtain db1 where db1: "insert_phones (\<lambda>_. False) ?cid (phones c) (Suc n, k, ?db) =
        Some (Suc n + length (phones c), k + length (phones c), db1)" "db_ok db1"
      "db_contacts db1 = db_contacts ?db"
      "\<forall>x. load_phones db1 x = load_phones ?db x @ (if x = ?cid then phones c else [])"
    using insert_phones_ok [OF ok, of ?cid "phones c" "Suc n" k] by auto
  have same: "load_phones ?db x = load_phones db x" for x by (simp add: load_phones_def)
  have none: "load_phones db ?cid = []"
    using Cons.prems less load_phones_filter [OF Cons.prems, of ?cid]
    by (fastforce simp: db_ok_def filter_empty_conv)
  have "map (row_contact db1) (db_contacts db) = map (row_contact db) (db_contacts db)"
    using less db1(4) same by (auto simp: row_contact_def)
  then have "contents db1 = contents db @ [c]"
    using db1(3,4) same none by (simp add: contents_def row_contact_def)
  moreover obtain m db' where "insert_contacts (\<lambda>_. False) cs (Suc n + length (phones c), k + length (phones c), db1) =
      Some (m, k + length (phones c) + sum_list (map (\<lambda>c. length (phones c)) cs), db')"
      "db_ok db'" "contents db' = contents db1 @ cs"
    using Cons.IH [OF db1(2)] by blast
  ultimately show ?case using db1(1) by (auto simp: Let_def add.assoc)
qed

lemma replace_all_stores:
  assumes "db_ok db"
  shows "\<exists>db'. ContactStore_replace_all (\<lambda>_. False) cs (Mutex False db) =
       (Ok \<lparr>cs_contact_count = length cs, cs_phone_count = sum_list (map (\<lambda>c. length (phones c)) cs),
            cs_last_sync_unix_seconds = None\<rparr>, Mutex False db') \<and> db_ok db' \<and> contents db' = cs"
proof -
  have "db_ok (delete_contacts db)" "contents (delete_contacts db) = []"
    by (simp_all add: db_ok_delete [OF assms] db_ok_def contents_def)
  then show ?thesis
    using insert_contacts_ok [of "delete_contacts db" cs 2 0] by (auto simp: ContactStore_replace_all_def)
qed

lemma replace_all_unchanged: "ContactStore_replace_all fails cs (Mutex False db) = (Err e, s') \<Longrightarrow> s' = Mutex False db"
  by (auto simp: ContactStore_replace_all_def split: option.splits if_splits)

text \<open>
  The statements of the transaction are numbered: its beginning, the deletion, one insertion for
  each contact and each phone, and the commit, which is the last.
\<close>

definition statement_count :: "Contact list \<Rightarrow> nat" where
  "statement_count cs = length cs + sum_list (map (\<lambda>c. length (phones c)) cs)"

lemma statement_count_simps:
  "statement_count [] = 0"
  "statement_count (c # cs) = Suc (length (phones c) + statement_count cs)"
  by (simp_all add: statement_count_def)

definition fails_within :: "(nat \<Rightarrow> bool) \<Rightarrow> nat \<Rightarrow> nat \<Rightarrow> bool" where
  "fails_within f n k = (\<exists>i \<in> {n ..< n + k}. f i)"

lemma fails_within_simps:
  "fails_within f n 0 = False"
  "fails_within f n (Suc k) = (f n \<or> fails_within f (Suc n) k)"
  "fails_within f n (a + b) = (fails_within f n a \<or> fails_within f (n + a) b)"
proof -
  have "{n ..< n + Suc k} = insert n {Suc n ..< Suc n + k}" by auto
  then show "fails_within f n (Suc k) = (f n \<or> fails_within f (Suc n) k)"
    unfolding fails_within_def by (simp del: atLeastLessThan_iff)
  have "{n ..< n + (a + b)} = {n ..< n + a} \<union> {n + a ..< n + a + b}" by auto
  then show "fails_within f n (a + b) = (fails_within f n a \<or> fails_within f (n + a) b)"
    unfolding fails_within_def by (simp only: bex_Un)
qed (simp add: fails_within_def)

lemma insert_phones_fails:
  "insert_phones fails cid ps (n, k, db) =
     (if fails_within fails n (length ps) then None else insert_phones (\<lambda>_. False) cid ps (n, k, db))"
  by (induction ps arbitrary: n k db) (simp_all add: fails_within_simps)

lemma insert_phones_counter:
  "insert_phones (\<lambda>_. False) cid ps (n, k, db) = Some (m, j, db') \<Longrightarrow> m = n + length ps"
  by (induction ps arbitrary: n k db) fastforce+

lemma insert_contacts_counter:
  "insert_contacts (\<lambda>_. False) cs (n, k, db) = Some (m, j, db') \<Longrightarrow> m = n + statement_count cs"
proof (induction cs arbitrary: n k db)
  case (Cons c cs)
  then show ?case
    by (fastforce simp: Let_def statement_count_simps dest: insert_phones_counter split: option.splits)
qed (simp add: statement_count_simps)

lemma insert_contacts_fails:
  "insert_contacts fails cs (n, k, db) =
     (if fails_within fails n (statement_count cs) then None
      else insert_contacts (\<lambda>_. False) cs (n, k, db))"
proof (induction cs arbitrary: n k db)
  case Nil
  then show ?case by (simp add: statement_count_simps fails_within_simps)
next
  case (Cons c cs)
  have "insert_contacts fails cs t = (if fails_within fails (fst t) (statement_count cs) then None
      else insert_contacts (\<lambda>_. False) cs t)" for t
    using Cons.IH by (cases t) simp
  then show ?case
    by (auto simp: Let_def insert_phones_fails [of fails] statement_count_simps fails_within_simps
        dest!: insert_phones_counter split: option.splits)
qed

text \<open>
  C20: A pulled snapshot is stored exactly or not at all. The transaction has one statement for its
  beginning, one for the deletion, one for each contact and each of its phones, and the commit.
  When none of them fails, the store afterwards holds the given contacts, in order, with their
  phones in order and nothing of what was there before, and the counts returned are theirs. When
  any one of them fails, whichever it is, the call returns the database error and the store is
  untouched.
\<close>

theorem replace_all_atomic:
  assumes "db_ok db"
  shows "if \<exists>i \<le> 2 + length cs + sum_list (map (\<lambda>c. length (phones c)) cs). fails i
    then ContactStore_replace_all fails cs (Mutex False db) = (Err Database, Mutex False db)
    else \<exists>db'. ContactStore_replace_all fails cs (Mutex False db) =
       (Ok \<lparr>cs_contact_count = length cs, cs_phone_count = sum_list (map (\<lambda>c. length (phones c)) cs),
            cs_last_sync_unix_seconds = None\<rparr>, Mutex False db') \<and> db_ok db' \<and> contents db' = cs"
proof -
  let ?N = "2 + statement_count cs"
  obtain j db' where run: "insert_contacts (\<lambda>_. False) cs (2, 0, delete_contacts db) = Some (?N, j, db')"
  proof -
    have "db_ok (delete_contacts db)" using db_ok_delete [OF assms] by (simp add: db_ok_def)
    from insert_contacts_ok [OF this, of cs 2 0] show ?thesis using that insert_contacts_counter by blast
  qed
  have "{..?N} = {0 ..< 0 + Suc (Suc (statement_count cs + Suc 0))}" by auto
  then have "(\<exists>i \<le> ?N. fails i) \<longleftrightarrow> fails_within fails 0 (Suc (Suc (statement_count cs + Suc 0)))"
    unfolding fails_within_def by (auto simp: less_Suc_eq_le)
  also have "\<dots> \<longleftrightarrow> fails 0 \<or> fails 1 \<or> fails_within fails 2 (statement_count cs) \<or> fails ?N"
    by (simp only: fails_within_simps) (simp add: numeral_2_eq_2)
  finally have "(\<exists>i \<le> ?N. fails i) \<longleftrightarrow>
      fails 0 \<or> fails 1 \<or> fails_within fails 2 (statement_count cs) \<or> fails ?N" .
  then show ?thesis
    using replace_all_stores [OF assms, of cs] run insert_contacts_fails [of fails cs 2 0 "delete_contacts db"]
    by (auto simp: ContactStore_replace_all_def statement_count_def add.assoc)
qed

theorem replace_all_atomic_witness:
  "\<exists>db'. snd (ContactStore_replace_all (\<lambda>_. False) [\<lparr>display_name = Some ''Ada'', phones = []\<rparr>] ContactStore_in_memory)
     = Mutex False db' \<and> contents db' = [\<lparr>display_name = Some ''Ada'', phones = []\<rparr>]"
proof -
  have "db_ok \<lparr>db_contacts = [], db_phones = []\<rparr>" by (simp add: db_ok_def)
  then show ?thesis
    using replace_all_atomic [of "\<lparr>db_contacts = [], db_phones = []\<rparr>"
        "[\<lparr>display_name = Some ''Ada'', phones = []\<rparr>]" "\<lambda>_. False"]
    unfolding ContactStore_in_memory_def by force
qed

section \<open>Searching by name\<close>

abbreviation lower :: "string \<Rightarrow> string" where
  "lower s \<equiv> map to_ascii_lowercase s"

definition escape_char :: "char \<Rightarrow> string" where
  "escape_char c = (if c = backslash \<or> c = CHR ''%'' \<or> c = CHR ''_'' then [backslash, c] else [c])"

lemma escape_like_chars: "escape_like q = concat (map escape_char q)"
  by (induction q) (auto simp: escape_like_def replace_char_def escape_char_def backslash_def)

lemma like_percent:
  "esc \<noteq> Some (CHR ''%'') \<Longrightarrow> sql_like esc (CHR ''%'' # ps) s \<longleftrightarrow> (\<exists>pre post. s = pre @ post \<and> sql_like esc ps post)"
proof (induction s)
  case Nil
  then show ?case by simp
next
  case (Cons c s)
  have "sql_like esc (CHR ''%'' # ps) (c # s) \<longleftrightarrow>
      sql_like esc ps (c # s) \<or> (\<exists>pre post. s = pre @ post \<and> sql_like esc ps post)"
    using Cons by simp
  also have "\<dots> \<longleftrightarrow> (\<exists>pre post. c # s = pre @ post \<and> sql_like esc ps post)"
    by (metis append_Cons append_Nil neq_Nil_conv list.inject)
  finally show ?case .
qed

text \<open>A pattern that starts with quoted text matches that text, up to ASCII case, then the rest.\<close>

lemma quoted_step:
  "to_ascii_lowercase d = to_ascii_lowercase c \<and> (\<exists>t u. ds = t @ u \<and> lower t = lower q \<and> P u) \<longleftrightarrow>
   (\<exists>t u. d # ds = t @ u \<and> lower t = lower (c # q) \<and> P u)" (is "?L \<longleftrightarrow> ?R")
proof
  assume ?L
  then obtain t u where "d # ds = (d # t) @ u" "lower (d # t) = lower (c # q)" "P u" by auto
  then show ?R by blast
next
  assume ?R
  then obtain t u where t: "d # ds = t @ u" "lower t = lower (c # q)" "P u" by blast
  then obtain t' where "t = d # t'" by (cases t) auto
  with t show ?L by auto
qed

lemma like_escaped:
  "sql_like (Some backslash) (concat (map escape_char q) @ ps) s \<longleftrightarrow>
     (\<exists>t u. s = t @ u \<and> lower t = lower q \<and> sql_like (Some backslash) ps u)"
proof (induction q arbitrary: s)
  case Nil
  then show ?case by simp
next
  case (Cons c q)
  let ?rest = "concat (map escape_char q) @ ps"
  have step: "sql_like (Some backslash) (escape_char c @ ?rest) s \<longleftrightarrow>
      (case s of [] \<Rightarrow> False | d # ds \<Rightarrow>
         to_ascii_lowercase d = to_ascii_lowercase c \<and> sql_like (Some backslash) ?rest ds)"
    by (auto simp: escape_char_def backslash_def split: list.splits)
  show ?case
  proof (cases s)
    case Nil
    then show ?thesis using step by simp
  next
    case (Cons d ds)
    then have "sql_like (Some backslash) (concat (map escape_char (c # q)) @ ps) s \<longleftrightarrow>
        to_ascii_lowercase d = to_ascii_lowercase c \<and>
        (\<exists>t u. ds = t @ u \<and> lower t = lower q \<and> sql_like (Some backslash) ps u)"
      using step Cons.IH by simp
    also have "\<dots> \<longleftrightarrow> (\<exists>t u. d # ds = t @ u \<and> lower t = lower (c # q) \<and> sql_like (Some backslash) ps u)"
      by (rule quoted_step)
    finally show ?thesis by (simp only: Cons)
  qed
qed

lemma like_anything: "sql_like (Some backslash) ''%'' s"
  using like_percent [of "Some backslash" "[]" s] by (simp add: backslash_def)

lemma like_contains:
  "sql_like (Some backslash) (CHR ''%'' # escape_like q @ ''%'') name \<longleftrightarrow>
     (\<exists>pre t post. name = pre @ t @ post \<and> lower t = lower q)"
proof -
  have "sql_like (Some backslash) (CHR ''%'' # escape_like q @ ''%'') name \<longleftrightarrow>
      (\<exists>pre post. name = pre @ post \<and> sql_like (Some backslash) (escape_like q @ ''%'') post)"
    by (rule like_percent) (simp add: backslash_def)
  also have "\<dots> \<longleftrightarrow> (\<exists>pre post. name = pre @ post \<and> (\<exists>t u. post = t @ u \<and> lower t = lower q))"
    by (simp only: escape_like_chars like_escaped like_anything simp_thms)
  also have "\<dots> \<longleftrightarrow> (\<exists>pre t post. name = pre @ t @ post \<and> lower t = lower q)" by blast
  finally show ?thesis .
qed

text \<open>
  C34: A name search is literal. A contact is found exactly when its name contains the query,
  up to the case of ASCII letters, whatever wildcard or escape characters the query has; the page
  returned is the given slice, of at most 101 contacts, of all those found, in an order that only
  depends on the names and the row ids.
\<close>

theorem search_is_literal:
  assumes "db_ok db"
  shows "\<exists>rows. ContactStore_search_names_page False query limit offset (Mutex False db) =
       Ok (map (row_contact db) (take (min (unat limit) 101) (drop (unat offset) rows))) \<and>
     set rows = {r \<in> set (db_contacts db). \<exists>name. cr_display_name r = Some name \<and>
        (\<exists>pre t post. name = pre @ t @ post \<and> lower t = lower query)} \<and>
     sorted (map nocase_key rows) \<and> distinct rows"
proof -
  let ?rows = "matching_rows query db"
  have "distinct (map cr_id (db_contacts db))"
    using assms by (auto simp: db_ok_def dest: strict_sorted_imp_sorted simp: strict_sorted_iff)
  then have "distinct (db_contacts db)" using distinct_map by blast
  then have "distinct ?rows" by (simp add: matching_rows_def)
  moreover have "sorted (map nocase_key ?rows)" by (simp add: matching_rows_def)
  moreover have "set ?rows = {r \<in> set (db_contacts db). \<exists>name. cr_display_name r = Some name \<and>
        (\<exists>pre t post. name = pre @ t @ post \<and> lower t = lower query)}"
    by (fastforce simp: matching_rows_def like_contains simp del: sql_like.simps split: option.splits)
  moreover have "unat (min limit 101) = min (unat limit) 101"
    by (simp add: min_def word_le_nat_alt)
  ultimately show ?thesis
    by (intro exI [of _ ?rows]) (simp add: ContactStore_search_names_page_def db_read_def)
qed

definition sample_db :: ContactDb where
  "sample_db = \<lparr>db_contacts = [\<lparr>cr_id = 1, cr_display_name = Some ''100% Ada''\<rparr>, \<lparr>cr_id = 2, cr_display_name = Some ''Bob''\<rparr>],
     db_phones = [\<lparr>cp_id = 1, cp_contact_id = 1, cp_display_number = ''+1 202 555 0101'',
       cp_normalized_number = ''+12025550101''\<rparr>]\<rparr>"

lemma sample_db_ok: "db_ok sample_db"
  by (simp add: sample_db_def db_ok_def)

theorem search_is_literal_witness:
  "\<exists>rows. set rows = {r \<in> set (db_contacts sample_db). \<exists>name. cr_display_name r = Some name \<and>
        (\<exists>pre t post. name = pre @ t @ post \<and> lower t = lower ''% a'')}"
  using search_is_literal [OF sample_db_ok, of "''% a''" 5 0] by blast

section \<open>Looking up a caller\<close>

lemma digit_not_wild: "is_ascii_digit c \<Longrightarrow> c \<noteq> CHR ''%'' \<and> c \<noteq> CHR ''_''"
  by (auto simp: is_ascii_digit_def byte_of_def)

lemma like_literal:
  "list_all is_ascii_digit ps \<Longrightarrow> sql_like None ps s \<longleftrightarrow> lower s = lower ps"
proof (induction ps arbitrary: s)
  case (Cons p ps)
  then show ?case using digit_not_wild [of p] by (cases s) auto
qed simp

lemma lower_digit: "is_ascii_digit d \<Longrightarrow> to_ascii_lowercase c = to_ascii_lowercase d \<Longrightarrow> c = d"
proof -
  assume d: "is_ascii_digit d" and eq: "to_ascii_lowercase c = to_ascii_lowercase d"
  have "to_ascii_lowercase d = d" using d by (auto simp: to_ascii_lowercase_def is_ascii_digit_def)
  moreover have "to_ascii_lowercase c = c"
  proof (rule ccontr)
    assume "to_ascii_lowercase c \<noteq> c"
    then have "97 \<le> byte_of (to_ascii_lowercase c)"
      by (auto simp: to_ascii_lowercase_def byte_of_less split: if_splits)
    then show False using d eq \<open>to_ascii_lowercase d = d\<close> by (simp add: is_ascii_digit_def)
  qed
  ultimately show ?thesis using eq by simp
qed

lemma lower_digits: "list_all is_ascii_digit ps \<Longrightarrow> lower s = lower ps \<longleftrightarrow> s = ps"
proof (induction ps arbitrary: s)
  case (Cons p ps)
  then show ?case using lower_digit by (cases s) auto
qed simp

lemma like_suffix:
  "list_all is_ascii_digit ps \<Longrightarrow> sql_like None (CHR ''%'' # ps) s \<longleftrightarrow> suffix ps s"
  using like_percent [of None ps s] by (simp add: like_literal lower_digits suffix_def)

text \<open>The trunk digits agree: the last ten of the key, or all of them when it has fewer.\<close>

definition number_matches :: "string \<Rightarrow> string \<Rightarrow> bool" where
  "number_matches key number \<longleftrightarrow> trim_plus number = key \<or> (key \<noteq> [] \<and> suffix (drop (length key - 10) key) (trim_plus number))"

lemma caller_suffix_last10: "caller_suffix key = drop (length key - 10) key"
  by (simp add: caller_suffix_def)

lemma caller_suffix_digits: "list_all is_ascii_digit key \<Longrightarrow> list_all is_ascii_digit (caller_suffix key)"
  by (auto simp: caller_suffix_def list_all_iff dest: in_set_dropD)

lemma phone_row_matches_iff:
  "list_all is_ascii_digit key \<Longrightarrow> phone_row_matches key p \<longleftrightarrow> number_matches key (cp_normalized_number p)"
proof -
  assume d: "list_all is_ascii_digit key"
  have "caller_suffix key = [] \<longleftrightarrow> key = []" by (auto simp: caller_suffix_def)
  then show ?thesis
    using like_suffix [OF caller_suffix_digits [OF d]] by (simp add: phone_row_matches_def number_matches_def caller_suffix_last10)
qed

definition callers :: "string \<Rightarrow> ContactDb \<Rightarrow> ContactRow set" where
  "callers key db = {c \<in> set (db_contacts db). \<exists>p \<in> set (load_phones db (cr_id c)). number_matches key (ph_normalized p)}"

lemma take2_one: "length (take 2 xs) = 1 \<longleftrightarrow> length xs = 1"
  by (cases xs; cases "tl xs") auto

lemma set_load_phones: "set (load_phones db c) = phone_of ` {p \<in> set (db_phones db). cp_contact_id p = c}"
  by (auto simp: load_phones_def phone_of_def)

lemma phone_of_normalized [simp]: "ph_normalized (phone_of p) = cp_normalized_number p"
  by (simp add: phone_of_def)

text \<open>
  C21: Caller lookup never guesses. For a number that parses, a contact is returned exactly when
  it is the only one with a phone whose digits are the number's, or end in its last ten digits (in
  all of them when it has fewer); with no such contact or several, none is.
\<close>

theorem lookup_caller_unique:
  assumes "db_ok db" and "PhoneNumber_parse incoming = Some n"
  shows "ContactStore_lookup_caller False incoming (Mutex False db) = Ok (Some c) \<longleftrightarrow>
     (\<exists>row. callers (PhoneNumber_match_key n) db = {row} \<and> c = row_contact db row)"
proof -
  let ?key = "PhoneNumber_match_key n"
  let ?all = "sort_key cr_id (filter (\<lambda>c. \<exists>p \<in> set (db_phones db). cp_contact_id p = cr_id c \<and> phone_row_matches ?key p)
       (db_contacts db))"
  have digits: "list_all is_ascii_digit ?key"
    using PhoneNumber_parse_phone_ok [OF assms(2)] by (simp add: phone_ok_def)
  have set: "set ?all = callers ?key db"
    by (auto simp: callers_def set_load_phones phone_row_matches_iff [OF digits])
  have dist: "distinct ?all"
    using assms(1) by (simp add: db_ok_def strict_sorted_iff distinct_map)
  have one: "length ?all = 1 \<longleftrightarrow> (\<exists>row. callers ?key db = {row})"
    using distinct_card [OF dist] set by (metis card_1_singleton_iff One_nat_def)
  have "ContactStore_lookup_caller False incoming (Mutex False db) =
      Ok (if length ?all \<noteq> 1 then None else Some (row_contact db (?all ! 0)))"
    using assms(2) take2_one [of ?all]
    by (auto simp: ContactStore_lookup_caller_def db_read_def caller_rows_def Let_def)
  moreover have "?all ! 0 = row" if "length ?all = 1" "callers ?key db = {row}" for row
  proof -
    have "?all ! 0 \<in> set ?all" by (rule nth_mem) (simp only: that(1) zero_less_one)
    then show ?thesis unfolding set that(2) by simp
  qed
  ultimately show ?thesis using one by auto
qed

lemma sample_number:
  "PhoneNumber_parse ''2025550101'' = Some \<lparr>ph_display = ''2025550101'', ph_normalized = ''2025550101''\<rparr>"
  by code_simp

lemma sample_lookup:
  "ContactStore_lookup_caller False ''2025550101'' (Mutex False sample_db) =
     Ok (Some (row_contact sample_db \<lparr>cr_id = 1, cr_display_name = Some ''100% Ada''\<rparr>))"
  by code_simp

theorem lookup_caller_unique_witness:
  "\<exists>row. callers ''2025550101'' sample_db = {row}"
proof -
  let ?c = "row_contact sample_db \<lparr>cr_id = 1, cr_display_name = Some ''100% Ada''\<rparr>"
  have "\<exists>row. callers (PhoneNumber_match_key \<lparr>ph_display = ''2025550101'', ph_normalized = ''2025550101''\<rparr>) sample_db = {row} \<and>
      ?c = row_contact sample_db row"
    using lookup_caller_unique [OF sample_db_ok sample_number, of ?c] sample_lookup by (rule iffD1)
  then show ?thesis by (auto simp: PhoneNumber_match_key_def)
qed

section \<open>Synchronising\<close>

text \<open>
  A failed contact synchronisation loses nothing. From a state in which it may start, a
  pull that fails is reported and the stored contacts stay; a store that fails is reported and the
  stored contacts stay; otherwise the store holds exactly the pulled contacts and the synchroniser
  is idle again.
\<close>

theorem contact_sync_outcome:
  assumes "db_ok db" and "st \<in> {ContactSyncState.Idle, ContactSyncState.BackingOff}"
    and run: "ContactSynchronizer_sync pulled fails clock \<lparr>sy_store = Mutex False db, sy_state = Mutex False st\<rparr> = (r, y)"
  shows "\<exists>db' st'. y = \<lparr>sy_store = Mutex False db', sy_state = Mutex False st'\<rparr> \<and>
    (case r of
       Inl Source \<Rightarrow> (\<exists>e. pulled = Err e) \<and> db' = db \<and> st' = ContactSyncState.BackingOff
     | Inl Store \<Rightarrow> (\<exists>cs. pulled = Ok cs) \<and> (\<exists>i. fails i) \<and> db' = db \<and> st' = ContactSyncState.Error
     | Inl ContactSyncError.LockPoisoned \<Rightarrow> False
     | Inr summary \<Rightarrow> st' = ContactSyncState.Idle \<and> cs_last_sync_unix_seconds summary = clock \<and>
         (\<exists>cs. pulled = Ok cs \<and> cs_contact_count summary = length cs \<and>
            (fails = (\<lambda>_. False) \<longrightarrow> contents db' = cs)))"
proof (cases pulled)
  case (Inl e)
  then show ?thesis
    using run assms(2)
    by (auto simp: ContactSynchronizer_sync_def ContactSynchronizer_set_state_def sync_then_def
        ContactSyncState_transition_to_def)
next
  case (Inr cs)
  obtain x s' where x: "ContactStore_replace_all fails cs (Mutex False db) = (x, s')" by force
  show ?thesis
  proof (cases x)
    case (Inl e)
    have "s' = Mutex False db" using replace_all_unchanged [of fails cs db] x Inl by auto
    moreover have "\<exists>i. fails i"
    proof (rule ccontr)
      assume "\<not> (\<exists>i. fails i)"
      then have "fails = (\<lambda>_. False)" by blast
      then show False using replace_all_stores [OF assms(1), of cs] x Inl by auto
    qed
    ultimately show ?thesis
      using run assms(2) Inr x Inl
      by (auto simp: ContactSynchronizer_sync_def ContactSynchronizer_set_state_def sync_then_def
          ContactSyncState_transition_to_def) (rule exI, assumption)+
  next
    case ok: (Inr summary)
    have "\<exists>db'. s' = Mutex False db' \<and> cs_contact_count summary = length cs"
      using x ok by (auto simp: ContactStore_replace_all_def split: option.splits if_splits)
    then show ?thesis
      using run assms(2) Inr x ok replace_all_stores [OF assms(1), of cs]
      by (auto simp: ContactSynchronizer_sync_def ContactSynchronizer_set_state_def sync_then_def
          ContactSyncState_transition_to_def)
  qed
qed

theorem contact_sync_outcome_witness:
  "\<exists>st'. sy_state (snd (ContactSynchronizer_sync (Err () :: (Contact list, unit) result) (\<lambda>_. False) None
      \<lparr>sy_store = Mutex False sample_db, sy_state = Mutex False ContactSyncState.Idle\<rparr>)) = Mutex False st'"
proof -
  obtain r y where run: "ContactSynchronizer_sync (Err () :: (Contact list, unit) result) (\<lambda>_. False) None
      \<lparr>sy_store = Mutex False sample_db, sy_state = Mutex False ContactSyncState.Idle\<rparr> = (r, y)" by force
  then show ?thesis using contact_sync_outcome [OF sample_db_ok _ run] by auto
qed

text \<open>
  A failed store stops contact synchronisation for good. After one failure to store a
  snapshot the state is \<open>Error\<close>, from which the state machine does not allow \<open>Syncing\<close>: every
  later synchronisation, with any pulled contacts and a working store, is refused as a poisoned
  lock and changes nothing.
\<close>

theorem contact_sync_stuck:
  assumes "db_ok db" and "st \<in> {ContactSyncState.Idle, ContactSyncState.BackingOff}" and "fails 0"
  shows "\<exists>y. ContactSynchronizer_sync (Ok cs) fails clock \<lparr>sy_store = Mutex False db, sy_state = Mutex False st\<rparr> =
      (Err Store, y) \<and>
    (\<forall>pulled ok' t. ContactSynchronizer_sync pulled ok' t y = (Err ContactSyncError.LockPoisoned, y))"
  using assms
  by (auto simp: ContactSynchronizer_sync_def ContactSynchronizer_set_state_def sync_then_def
      ContactSyncState_transition_to_def ContactStore_replace_all_def)

theorem contact_sync_stuck_witness:
  "\<exists>y. ContactSynchronizer_sync (Ok [] :: (Contact list, unit) result) (\<lambda>_. True) None (ContactSynchronizer_new (Mutex False sample_db)) =
     (Err Store, y)"
  using contact_sync_stuck [OF sample_db_ok, of ContactSyncState.Idle "\<lambda>_. True" "[]" None]
  unfolding ContactSynchronizer_new_def by auto

end
