(* ===== verification/Conversations.thy ===== *)
theory Conversations
  imports Media_Auth Message_Store "HOL-Library.List_Lexorder" "HOL-Library.Char_ord" "HOL-Library.Product_Lexorder"
begin

text \<open>
  \<open>crates/analogconnectd/src/conversations.rs\<close>: conversations and messages as the API shows
  them, the repositories they come from, the random aliases that stand for private conversation
  keys, and the page cursors. The thread listing of the message store and opening the store are
  parameters of the repository; \<open>cursor_pager\<close> is the contract of a paged listing, from which it
  follows that a client that follows the cursors sees every row once.
\<close>

definition CONVERSATION_ID_BYTES :: nat where "CONVERSATION_ID_BYTES = 16"
definition DEFAULT_PAGE_SIZE :: nat where "DEFAULT_PAGE_SIZE = 50"
definition MAX_PAGE_SIZE :: nat where "MAX_PAGE_SIZE = 100"
definition MAX_CURSOR_OFFSET :: nat where "MAX_CURSOR_OFFSET = 1000000"

datatype ConversationError = Unavailable | Expired | InvalidCursor | RandomUnavailable

section \<open>Rows and repositories\<close>

datatype MessageDirection = Received | Sent

record StoredConversation =
  sv_conversation_key :: string
  sv_display_address :: string
  sv_participant_count :: nat
  sv_latest_unix_millis :: int
  sv_message_count :: nat
  sv_unread_count :: nat
  sv_latest_outgoing_state :: "string option"
  sv_latest_preview :: string
  sv_latest_sender :: string
  sv_latest_sent :: bool
  sv_group_title :: "string option"
  sv_is_ancs_group :: bool
  sv_identity_conflict :: bool

record StoredMessage =
  sm_local_id :: u64
  sm_address :: string
  sm_conversation_key :: string
  sm_timestamp_unix_millis :: int
  sm_direction :: MessageDirection
  sm_body :: string
  sm_read :: bool
  sm_outgoing_state :: "string option"

record ThreadRow =
  th_address :: string
  th_conversation_key :: string
  th_participants :: string
  th_participant_count :: int
  th_latest_ms :: int
  th_total :: int
  th_unread :: int
  th_latest_outgoing_status :: "OutgoingStatus option"
  th_latest_text :: string
  th_latest_sender :: string
  th_latest_sent :: bool
  th_group_title :: "string option"
  th_is_ancs_group :: bool
  th_identity_conflict :: bool

record InMemoryConversationRepository =
  im_conversations :: "StoredConversation list mutex"
  im_messages :: "StoredMessage list mutex"

text \<open>The store-backed repository: the opened store, or nothing when it cannot be opened.\<close>

datatype ConversationRepository =
    Unavailable
  | InMemory InMemoryConversationRepository
  | Imsg "Store option"

fun outgoing_text :: "OutgoingStatus \<Rightarrow> string" where
  "outgoing_text OutgoingStatus.Queued = ''queued''"
| "outgoing_text OutgoingStatus.Sending = ''sending''"
| "outgoing_text SentUnconfirmed = ''sent_unconfirmed''"
| "outgoing_text SentConfirmed = ''sent_confirmed''"
| "outgoing_text FailedRetryable = ''failed_retryable''"
| "outgoing_text FailedPermanent = ''failed_permanent''"
| "outgoing_text OutgoingStatus.Unknown = ''unknown''"

text \<open>\<open>usize::try_from\<close> and \<open>u64::try_from\<close> of a 64-bit signed integer.\<close>

definition try_unsigned :: "int \<Rightarrow> (nat, ConversationError) result" where
  "try_unsigned i = (if i < 0 then Err ConversationError.Unavailable else Ok (nat i))"

definition display_address_of :: "ThreadRow \<Rightarrow> nat \<Rightarrow> string" where
  "display_address_of row count =
     (if count \<le> 1 \<or> th_participants row = [] then th_address row
      else if 128 < length (th_participants row)
      then ''Group conversation ('' @ decimal count @ '' participants)''
      else replace_str '','' '', '' (th_participants row))"

definition conversation_of_thread :: "ThreadRow \<Rightarrow> (StoredConversation, ConversationError) result" where
  "conversation_of_thread row =
     result_bind (try_unsigned (th_participant_count row)) (\<lambda>count.
     result_bind (try_unsigned (th_total row)) (\<lambda>total.
     result_bind (try_unsigned (th_unread row)) (\<lambda>unread.
       Ok \<lparr>sv_conversation_key = th_conversation_key row, sv_display_address = display_address_of row count,
           sv_participant_count = count, sv_latest_unix_millis = th_latest_ms row,
           sv_message_count = total, sv_unread_count = unread,
           sv_latest_outgoing_state = map_option outgoing_text (th_latest_outgoing_status row),
           sv_latest_preview = th_latest_text row, sv_latest_sender = th_latest_sender row,
           sv_latest_sent = th_latest_sent row, sv_group_title = th_group_title row,
           sv_is_ancs_group = th_is_ancs_group row, sv_identity_conflict = th_identity_conflict row\<rparr>)))"

text \<open>\<open>collect\<close> into a \<open>Result\<close>: the first error, or all values.\<close>

fun collect_results :: "('a, 'e) result list \<Rightarrow> ('a list, 'e) result" where
  "collect_results [] = Ok []"
| "collect_results (r # rs) = result_bind r (\<lambda>a. result_bind (collect_results rs) (\<lambda>as. Ok (a # as)))"

definition STATUS_READ :: int where "STATUS_READ = 1"

definition message_of_row :: "MessageRow \<Rightarrow> (StoredMessage, ConversationError) result" where
  "message_of_row row =
     result_bind (try_unsigned (m_rowid row)) (\<lambda>local_id.
       Ok \<lparr>sm_local_id = word_of_nat local_id, sm_address = m_address row,
           sm_conversation_key = m_conversation_key row, sm_timestamp_unix_millis = m_timestamp_ms row,
           sm_direction = (case m_direction row of Direction.Received \<Rightarrow> MessageDirection.Received
                           | Direction.Sent \<Rightarrow> MessageDirection.Sent),
           sm_body = m_text row, sm_read = (m_status row = STATUS_READ),
           sm_outgoing_state = map_option outgoing_text (m_outgoing_status row)\<rparr>)"

definition conversation_order :: "StoredConversation \<Rightarrow> int \<times> string" where
  "conversation_order c = (- sv_latest_unix_millis c, sv_conversation_key c)"

definition message_order :: "StoredMessage \<Rightarrow> int \<times> int" where
  "message_order m = (- sm_timestamp_unix_millis m, - int (unat (sm_local_id m)))"

definition InMemory_conversations ::
  "InMemoryConversationRepository \<Rightarrow> (StoredConversation list, ConversationError) result" where
  "InMemory_conversations self =
     result_bind (lock (im_conversations self) ConversationError.Unavailable) (\<lambda>rows.
       Ok (sort_key conversation_order rows))"

definition InMemory_messages_for ::
  "InMemoryConversationRepository \<Rightarrow> string \<Rightarrow> u16 \<Rightarrow> u16 \<Rightarrow> (StoredMessage list, ConversationError) result" where
  "InMemory_messages_for self conversation_key limit offset =
     result_bind (lock (im_messages self) ConversationError.Unavailable) (\<lambda>messages.
       let rows = sort_key message_order (filter (\<lambda>m. sm_conversation_key m = conversation_key) messages);
           start = min (unat offset) (length rows);
           stop = min (start + unat limit) (length rows)
       in Ok (take (stop - start) (drop start rows)))"

definition ConversationRepository_conversations ::
  "ThreadRow list db \<Rightarrow> ConversationRepository \<Rightarrow> (StoredConversation list, ConversationError) result" where
  "ConversationRepository_conversations threads self =
     (case self of
        Unavailable \<Rightarrow> Err ConversationError.Unavailable
      | InMemory repository \<Rightarrow> InMemory_conversations repository
      | Imsg None \<Rightarrow> Err ConversationError.Unavailable
      | Imsg (Some store) \<Rightarrow>
          result_bind (map_err (\<lambda>_. ConversationError.Unavailable) (fst (threads store))) (\<lambda>rows.
            collect_results (map conversation_of_thread rows)))"

definition ConversationRepository_messages_for ::
  "ConversationRepository \<Rightarrow> string \<Rightarrow> u16 \<Rightarrow> u16 \<Rightarrow> (StoredMessage list, ConversationError) result" where
  "ConversationRepository_messages_for self conversation_key limit offset =
     (case self of
        Unavailable \<Rightarrow> Err ConversationError.Unavailable
      | InMemory repository \<Rightarrow> InMemory_messages_for repository conversation_key limit offset
      | Imsg None \<Rightarrow> Err ConversationError.Unavailable
      | Imsg (Some store) \<Rightarrow>
          result_bind (map_err (\<lambda>_. ConversationError.Unavailable)
            (fst (Store_list_conversation_messages conversation_key (unat limit) (unat offset) store))) (\<lambda>rows.
            collect_results (map message_of_row rows)))"

section \<open>Aliases\<close>

record ConversationAliases =
  al_key_to_id :: "string \<rightharpoonup> string"
  al_id_to_key :: "string \<rightharpoonup> string"

definition ConversationAliases_default :: ConversationAliases where
  "ConversationAliases_default = \<lparr>al_key_to_id = Map.empty, al_id_to_key = Map.empty\<rparr>"

definition record_alias :: "string \<Rightarrow> string \<Rightarrow> ConversationAliases \<Rightarrow> ConversationAliases" where
  "record_alias key ident self =
     self\<lparr>al_key_to_id := (al_key_to_id self)(key \<mapsto> ident), al_id_to_key := (al_id_to_key self)(ident \<mapsto> key)\<rparr>"

definition ConversationAliases_expose_stable_id ::
  "string \<Rightarrow> ConversationAliases \<Rightarrow> (string, ConversationError) result \<times> ConversationAliases" where
  "ConversationAliases_expose_stable_id key self =
     (case al_key_to_id self key of
        Some existing \<Rightarrow> (Ok existing, self)
      | None \<Rightarrow>
          (case al_id_to_key self key of
             Some existing_key \<Rightarrow>
               if existing_key \<noteq> key then (Err ConversationError.RandomUnavailable, self)
               else (Ok key, record_alias key key self)
           | None \<Rightarrow> (Ok key, record_alias key key self)))"

text \<open>The loop \<open>for _ in 0..4\<close>.\<close>

fun try_ids ::
  "('r, 'e) random_source \<Rightarrow> nat \<Rightarrow> string \<Rightarrow> 'r \<Rightarrow> ConversationAliases \<Rightarrow>
   (string, ConversationError) result \<times> 'r \<times> ConversationAliases" where
  "try_ids fill 0 key random self = (Err ConversationError.RandomUnavailable, random, self)"
| "try_ids fill (Suc n) key random self =
     (case fill random CONVERSATION_ID_BYTES of
        (Inl _, random) \<Rightarrow> (Err ConversationError.RandomUnavailable, random, self)
      | (Inr bytes, random) \<Rightarrow>
          let ident = encode_hex bytes
          in if al_id_to_key self ident = None then (Ok ident, random, record_alias key ident self)
             else try_ids fill n key random self)"

definition ConversationAliases_id_for ::
  "('r, 'e) random_source \<Rightarrow> string \<Rightarrow> 'r \<Rightarrow> ConversationAliases \<Rightarrow>
   (string, ConversationError) result \<times> 'r \<times> ConversationAliases" where
  "ConversationAliases_id_for fill key random self =
     (case al_key_to_id self key of
        Some existing \<Rightarrow> (Ok existing, random, self)
      | None \<Rightarrow> try_ids fill 4 key random self)"

definition ConversationAliases_key_for :: "ConversationAliases \<Rightarrow> string \<Rightarrow> string option" where
  "ConversationAliases_key_for self ident = al_id_to_key self ident"

section \<open>Cursors\<close>

datatype PageCursor = PageCursor (cursor_offset: nat)

definition nibble_val :: "char \<Rightarrow> nat" where
  "nibble_val c = (case decode_nibble (as_byte c) of Some v \<Rightarrow> unat v | None \<Rightarrow> 0)"

text \<open>\<open>usize::from_str_radix(value, 16)\<close> of at most sixteen hexadecimal digits.\<close>

definition from_hex :: "string \<Rightarrow> nat" where
  "from_hex s = foldl (\<lambda>acc c. 16 * acc + nibble_val c) 0 s"

definition PageCursor_parse :: "string option \<Rightarrow> (PageCursor, ConversationError) result" where
  "PageCursor_parse v =
     (case v of
        None \<Rightarrow> Ok (PageCursor 0)
      | Some v \<Rightarrow>
          if length v \<noteq> 16 \<or> \<not> list_all is_ascii_hexdigit v then Err InvalidCursor
          else if MAX_CURSOR_OFFSET < from_hex v then Err InvalidCursor
          else Ok (PageCursor (from_hex v)))"

text \<open>\<open>format!("{:016x}")\<close> of a 64-bit value.\<close>

fun hex_digits :: "nat \<Rightarrow> nat \<Rightarrow> string" where
  "hex_digits 0 n = []"
| "hex_digits (Suc k) n = hex_digits k (n div 16) @ [HEX ! (n mod 16)]"

definition PageCursor_encode :: "PageCursor \<Rightarrow> string" where
  "PageCursor_encode self = hex_digits 16 (cursor_offset self)"

definition PageCursor_advance :: "PageCursor \<Rightarrow> nat \<Rightarrow> PageCursor" where
  "PageCursor_advance self count = PageCursor (min (cursor_offset self + count) MAX_CURSOR_OFFSET)"

section \<open>Items\<close>

datatype ConversationKindResponse = Private | Group | Ambiguous

record ConversationItem =
  ci_conversation_id :: string
  ci_display_address :: string
  ci_display_name :: "string option"
  ci_is_group :: bool
  ci_reply_supported :: bool
  ci_latest_unix_millis :: int
  ci_message_count :: nat
  ci_unread_count :: nat
  ci_latest_outgoing_state :: "string option"
  ci_latest_preview :: string
  ci_latest_sender :: string
  ci_latest_sent :: bool
  ci_kind :: ConversationKindResponse
  ci_title :: string
  ci_can_reply :: bool
  ci_identity_conflict :: bool

record ConversationPage =
  vp_items :: "ConversationItem list"
  vp_next_cursor :: "string option"

datatype MessageDirectionResponse = Received | Sent

record MessageItem =
  mi_message_id :: string
  mi_timestamp_unix_millis :: int
  mi_direction :: MessageDirectionResponse
  mi_peer_address :: string
  mi_body :: string
  mi_read :: bool
  mi_outgoing_state :: "string option"

record MessagePage =
  mp_items :: "MessageItem list"
  mp_next_cursor :: "string option"

section \<open>Aliases name one conversation for good\<close>

definition alias_ok :: "ConversationAliases \<Rightarrow> bool" where
  "alias_ok a \<longleftrightarrow> (\<forall>k i. al_key_to_id a k = Some i \<longleftrightarrow> al_id_to_key a i = Some k)"

lemma alias_okD: "alias_ok a \<Longrightarrow> al_key_to_id a k = Some i \<Longrightarrow> al_id_to_key a i = Some k"
  by (simp add: alias_ok_def)

definition alias_le :: "ConversationAliases \<Rightarrow> ConversationAliases \<Rightarrow> bool" where
  "alias_le a b \<longleftrightarrow> al_key_to_id a \<subseteq>\<^sub>m al_key_to_id b \<and> al_id_to_key a \<subseteq>\<^sub>m al_id_to_key b"

lemma alias_le_refl [simp]: "alias_le a a"
  by (simp add: alias_le_def)

lemma alias_le_trans: "alias_le a b \<Longrightarrow> alias_le b c \<Longrightarrow> alias_le a c"
  using map_le_trans by (auto simp: alias_le_def)

lemma record_alias_ok:
  assumes "alias_ok a" and "al_key_to_id a k = None" and "al_id_to_key a i = None"
  shows "alias_ok (record_alias k i a) \<and> alias_le a (record_alias k i a) \<and> al_id_to_key (record_alias k i a) i = Some k"
proof -
  have free: "al_id_to_key a j \<noteq> Some k" "al_key_to_id a l \<noteq> Some i" for j l
    using assms unfolding alias_ok_def by (metis option.distinct(1))+
  show ?thesis
    using assms free by (auto simp: alias_ok_def record_alias_def alias_le_def map_le_def)
qed

text \<open>What an operation that answers for a key keeps, and what an identifier it returns means.\<close>

definition alias_answer ::
  "string \<Rightarrow> ConversationAliases \<Rightarrow> (string, ConversationError) result \<Rightarrow> ConversationAliases \<Rightarrow> bool" where
  "alias_answer key a r a' \<longleftrightarrow> alias_ok a' \<and> alias_le a a' \<and> (\<forall>i. r = Ok i \<longrightarrow> al_id_to_key a' i = Some key)"

lemma expose_answer:
  assumes "alias_ok a"
  shows "alias_answer key a (fst (ConversationAliases_expose_stable_id key a)) (snd (ConversationAliases_expose_stable_id key a))"
proof (cases "al_key_to_id a key")
  case None
  then have "al_id_to_key a key \<noteq> Some key" using assms unfolding alias_ok_def by (metis option.distinct(1))
  then show ?thesis
    using assms None record_alias_ok [OF assms None, of key]
    by (auto simp: ConversationAliases_expose_stable_id_def alias_answer_def split: option.splits)
next
  case (Some i)
  then show ?thesis
    using assms alias_okD [OF assms Some] by (simp add: ConversationAliases_expose_stable_id_def alias_answer_def)
qed

lemma try_ids_answer:
  "alias_ok a \<Longrightarrow> al_key_to_id a key = None \<Longrightarrow> try_ids fill n key r a = (res, r', a') \<Longrightarrow> alias_answer key a res a'"
proof (induction fill n key r a rule: try_ids.induct)
  case (1 fill key random self)
  then show ?case by (auto simp: alias_answer_def)
next
  case (2 fill n key random self)
  obtain x r1 where x: "fill random CONVERSATION_ID_BYTES = (x, r1)" by force
  show ?case
  proof (cases x)
    case (Inl e)
    then show ?thesis using 2 x by (auto simp: alias_answer_def)
  next
    case (Inr bytes)
    show ?thesis
    proof (cases "al_id_to_key self (encode_hex bytes)")
      case None
      then show ?thesis
        using 2(2-4) x Inr record_alias_ok [OF 2(2,3) None] by (auto simp: alias_answer_def Let_def)
    next
      case (Some k)
      then show ?thesis using 2(1) [OF x [symmetric] Inr refl] 2(2-4) x Inr by (auto simp: Let_def)
    qed
  qed
qed

lemma id_for_answer:
  assumes "alias_ok a" and "ConversationAliases_id_for fill key r a = (res, r', a')"
  shows "alias_answer key a res a'"
proof (cases "al_key_to_id a key")
  case None
  then show ?thesis using assms try_ids_answer by (auto simp: ConversationAliases_id_for_def)
next
  case (Some i)
  then show ?thesis using assms alias_okD [OF assms(1) Some] by (auto simp: ConversationAliases_id_for_def alias_answer_def)
qed

datatype alias_request = ExposeStable string | IdFor string

fun alias_request_key :: "alias_request \<Rightarrow> string" where
  "alias_request_key (ExposeStable k) = k"
| "alias_request_key (IdFor k) = k"

fun alias_request_run ::
  "('r, 'e) random_source \<Rightarrow> alias_request \<Rightarrow> 'r \<times> ConversationAliases \<Rightarrow>
   (string, ConversationError) result \<times> 'r \<times> ConversationAliases" where
  "alias_request_run fill (ExposeStable k) (r, a) =
     (case ConversationAliases_expose_stable_id k a of (res, a) \<Rightarrow> (res, r, a))"
| "alias_request_run fill (IdFor k) (r, a) = ConversationAliases_id_for fill k r a"

lemma alias_request_answer:
  assumes "alias_ok (snd s)" and "alias_request_run fill q s = (res, s')"
  shows "alias_answer (alias_request_key q) (snd s) res (snd s')"
proof (cases q)
  case (ExposeStable k)
  then show ?thesis using assms expose_answer [OF assms(1), of k] by (cases s) (auto split: prod.splits)
next
  case (IdFor k)
  then show ?thesis using assms id_for_answer by (cases s; cases s') auto
qed

lemma alias_request_ok: "alias_ok (snd s) \<Longrightarrow> alias_ok (snd (snd (alias_request_run fill q s)))"
  by (metis alias_answer_def alias_request_answer prod.collapse)

interpretation aliases: step_machine "\<lambda>q s. snd (alias_request_run fill q s)" "\<lambda>s. alias_ok (snd s)" for fill
  by unfold_locales (rule alias_request_ok)

lemma alias_run_le:
  "alias_ok (snd s) \<Longrightarrow> alias_le (snd s) (snd (fold (\<lambda>q s. snd (alias_request_run fill q s)) qs s))"
proof (induction qs arbitrary: s)
  case Nil
  then show ?case by simp
next
  case (Cons q qs)
  obtain res s' where s': "alias_request_run fill q s = (res, s')" by (rule prod.exhaust)
  then have "alias_ok (snd s')" "alias_le (snd s) (snd s')"
    using alias_request_answer [OF Cons.prems s'] by (simp_all add: alias_answer_def)
  then show ?case using Cons.IH [of s'] s' alias_le_trans by simp
qed

text \<open>
  C29: A conversation identifier means one conversation for as long as the daemon runs: an
  identifier given out for a key resolves to that key after any further requests and random
  draws, asking for the key again gives the same identifier, and no other key ever gets it.
\<close>

theorem alias_stable:
  assumes "s = fold (\<lambda>q s. snd (alias_request_run fill q s)) earlier (r, ConversationAliases_default)"
    and "alias_request_run fill q s = (Ok i, s1)"
    and "s2 = fold (\<lambda>q s. snd (alias_request_run fill q s)) later s1"
  shows "ConversationAliases_key_for (snd s2) i = Some (alias_request_key q) \<and>
    fst (alias_request_run fill (IdFor (alias_request_key q)) s2) = Ok i \<and>
    (\<forall>q'. fst (alias_request_run fill q' s2) = Ok i \<longrightarrow> alias_request_key q' = alias_request_key q)"
proof -
  let ?k = "alias_request_key q"
  have ok: "alias_ok (snd s)"
    unfolding assms(1) by (rule aliases.run_inv) (simp add: alias_ok_def ConversationAliases_default_def)
  then have 1: "alias_ok (snd s1)" "al_id_to_key (snd s1) i = Some ?k"
    using alias_request_answer [OF ok assms(2)] by (simp_all add: alias_answer_def)
  have ok2: "alias_ok (snd s2)" unfolding assms(3) by (rule aliases.run_inv [OF 1(1)])
  have 2: "al_id_to_key (snd s2) i = Some ?k"
    using alias_run_le [OF 1(1), of fill later] 1(2) assms(3) by (force simp: alias_le_def map_le_def)
  then have 3: "al_key_to_id (snd s2) ?k = Some i" using ok2 by (simp add: alias_ok_def)
  have "alias_request_key q' = ?k" if ans: "fst (alias_request_run fill q' s2) = Ok i" for q'
  proof -
    obtain s3 where s3: "alias_request_run fill q' s2 = (Ok i, s3)"
      using ans by (metis prod.collapse)
    then have "al_id_to_key (snd s3) i = Some (alias_request_key q')" "alias_le (snd s2) (snd s3)"
      using alias_request_answer [OF ok2 s3] by (simp_all add: alias_answer_def)
    then show ?thesis using 2 by (force simp: alias_le_def map_le_def)
  qed
  moreover have "fst (alias_request_run fill (IdFor ?k) s2) = Ok i"
    using 3 by (cases s2) (simp add: ConversationAliases_id_for_def)
  ultimately show ?thesis using 2 by (simp add: ConversationAliases_key_for_def)
qed

definition zero_random :: "(nat, unit) random_source" where
  "zero_random r n = (Ok (replicate n (word_of_nat r)), r + 1)"

theorem alias_stable_witness:
  "\<exists>i s1. alias_request_run zero_random (IdFor ''a'') (0, ConversationAliases_default) = (Ok i, s1) \<and>
     ConversationAliases_key_for (snd (snd (alias_request_run zero_random (ExposeStable ''g'') s1))) i = Some ''a''"
proof -
  obtain i s1 where i: "alias_request_run zero_random (IdFor ''a'') (0, ConversationAliases_default) = (Ok i, s1)"
    by (simp add: ConversationAliases_id_for_def ConversationAliases_default_def zero_random_def numeral_eq_Suc Let_def)
  then show ?thesis
    using alias_stable [of "(0, ConversationAliases_default)" zero_random "[]" 0 "IdFor ''a''" i s1 _ "[ExposeStable ''g'']"]
    by auto
qed

section \<open>Cursors are a codec\<close>

lemma HEX_table:
  "k < 10 \<Longrightarrow> HEX ! k = char_of (48 + k)" "k < 6 \<Longrightarrow> HEX ! (10 + k) = char_of (97 + k)"
proof -
  have "k < 10 \<Longrightarrow> k \<in> set [0..<10]" "k < 6 \<Longrightarrow> k \<in> set [0..<6]" by simp_all
  then show "k < 10 \<Longrightarrow> HEX ! k = char_of (48 + k)" "k < 6 \<Longrightarrow> HEX ! (10 + k) = char_of (97 + k)"
    by (simp_all add: upt_rec HEX_def) (auto simp: char_of_def bit_0)
qed

lemma unat_as_byte [simp]: "unat (as_byte c) = byte_of c"
  using byte_of_less [of c] by (simp add: as_byte_def unat_of_nat)

lemma hex_digit_cases:
  assumes "is_ascii_hexdigit c"
  shows "nibble_val c < 16 \<and> HEX ! nibble_val c = to_ascii_lowercase c"
proof -
  let ?b = "byte_of c"
  have r: "(48 \<le> as_byte c) = (48 \<le> ?b)" "(as_byte c \<le> 57) = (?b \<le> 57)" "(97 \<le> as_byte c) = (97 \<le> ?b)"
    "(as_byte c \<le> 102) = (?b \<le> 102)" "(65 \<le> as_byte c) = (65 \<le> ?b)" "(as_byte c \<le> 70) = (?b \<le> 70)"
    "(87 \<le> as_byte c) = (87 \<le> ?b)" "(55 \<le> as_byte c) = (55 \<le> ?b)"
    by (simp_all add: word_le_nat_alt)
  have c: "char_of ?b = c" by (simp add: byte_of_def)
  consider "48 \<le> ?b" "?b \<le> 57" | "97 \<le> ?b" "?b \<le> 102" | "65 \<le> ?b" "?b \<le> 70"
    using assms by (auto simp: is_ascii_hexdigit_def is_ascii_digit_def)
  then show ?thesis
  proof cases
    case 1
    then have "nibble_val c = ?b - 48" using r by (simp add: nibble_val_def decode_nibble_def unat_sub)
    then show ?thesis using 1 HEX_table(1) [of "?b - 48"] c by (simp add: to_ascii_lowercase_def)
  next
    case 2
    then have "nibble_val c = 10 + (?b - 97)"
      using r by (simp add: nibble_val_def decode_nibble_def unat_sub)
    then show ?thesis using 2 HEX_table(2) [of "?b - 97"] c by (simp add: to_ascii_lowercase_def)
  next
    case 3
    then have "nibble_val c = 10 + (?b - 65)"
      using r by (simp add: nibble_val_def decode_nibble_def unat_sub)
    then show ?thesis using 3 HEX_table(2) [of "?b - 65"] by (simp add: to_ascii_lowercase_def add.commute)
  qed
qed

lemma nibble_val_HEX: "n < 16 \<Longrightarrow> nibble_val (HEX ! n) = n"
  using HEX_nibble [of n] by (simp add: nibble_val_def unat_of_nat)

lemma HEX_hexdigit: "n < 16 \<Longrightarrow> is_ascii_hexdigit (HEX ! n)"
  using HEX_nibble [of n] decode_nibble_Some [of "HEX ! n"] by simp

lemma hex_digits_props: "length (hex_digits k n) = k \<and> list_all is_ascii_hexdigit (hex_digits k n)"
  by (induction k arbitrary: n) (simp_all add: HEX_hexdigit)

lemma from_hex_append: "from_hex (s @ [c]) = 16 * from_hex s + nibble_val c"
  by (simp add: from_hex_def)

lemma from_hex_digits: "n < 16 ^ k \<Longrightarrow> from_hex (hex_digits k n) = n"
proof (induction k arbitrary: n)
  case 0
  then show ?case by (simp add: from_hex_def)
next
  case (Suc k)
  then have "n div 16 < 16 ^ k" by (simp add: less_mult_imp_div_less mult.commute)
  with Suc.IH show ?case by (simp add: from_hex_append nibble_val_HEX)
qed

lemma hex_digits_from: "list_all is_ascii_hexdigit s \<Longrightarrow> hex_digits (length s) (from_hex s) = map to_ascii_lowercase s"
proof (induction s rule: rev_induct)
  case (snoc c s)
  have "nibble_val c < 16" "HEX ! nibble_val c = to_ascii_lowercase c"
    using hex_digit_cases [of c] snoc.prems by simp_all
  then show ?case using snoc by (simp add: from_hex_append)
qed simp

lemma from_hex_bound: "list_all is_ascii_hexdigit s \<Longrightarrow> from_hex s < 16 ^ length s"
proof (induction s rule: rev_induct)
  case (snoc c s)
  then have "nibble_val c < 16" using hex_digit_cases [of c] by simp
  then show ?case using snoc by (simp add: from_hex_append)
qed (simp add: from_hex_def)

lemma max_offset_fits: "n \<le> MAX_CURSOR_OFFSET \<Longrightarrow> n < 16 ^ 16"
  by (simp add: MAX_CURSOR_OFFSET_def)

lemma parse_encode_cursor [simp]:
  "cursor_offset c \<le> MAX_CURSOR_OFFSET \<Longrightarrow> PageCursor_parse (Some (PageCursor_encode c)) = Ok c"
  using hex_digits_props [of 16 "cursor_offset c"] from_hex_digits [of "cursor_offset c" 16]
    max_offset_fits [of "cursor_offset c"]
  by (cases c) (simp add: PageCursor_parse_def PageCursor_encode_def del: hex_digits.simps)

lemma parse_cursor_Ok: "PageCursor_parse v = Ok c \<Longrightarrow> cursor_offset c \<le> MAX_CURSOR_OFFSET"
  by (auto simp: PageCursor_parse_def split: option.splits if_splits)

interpretation cursor_codec: codec "\<lambda>c. Some (PageCursor_encode c)" "\<lambda>s. ok (PageCursor_parse (Some s))"
  "\<lambda>c. cursor_offset c \<le> MAX_CURSOR_OFFSET"
  by unfold_locales auto

text \<open>
  Cursors are exact: every cursor within the bound is parsed back from its text, and a text
  is accepted only if, up to the case of its digits, it is the text of the cursor it is parsed to;
  so different cursors never share a text, and nothing beyond the bound is accepted.
\<close>

theorem cursor_roundtrip:
  "(PageCursor_parse (Some s) = Ok c) \<longleftrightarrow>
     cursor_offset c \<le> MAX_CURSOR_OFFSET \<and> list_all is_ascii_hexdigit s \<and> map to_ascii_lowercase s = PageCursor_encode c"
  (is "?L \<longleftrightarrow> ?R")
proof
  assume ?L
  then have "length s = 16" "list_all is_ascii_hexdigit s" "c = PageCursor (from_hex s)"
    by (auto simp: PageCursor_parse_def split: if_splits)
  then show ?R
    using hex_digits_from [of s] parse_cursor_Ok [OF \<open>?L\<close>]
    by (simp add: PageCursor_encode_def del: hex_digits.simps)
next
  assume R: ?R
  let ?low = "map to_ascii_lowercase s"
  have "length s = 16"
    using R hex_digits_props [of 16 "cursor_offset c"] by (metis PageCursor_encode_def length_map)
  have "hex_digits 16 (from_hex s) = hex_digits 16 (cursor_offset c)"
    using R hex_digits_from [of s] \<open>length s = 16\<close> by (simp add: PageCursor_encode_def del: hex_digits.simps)
  moreover have "from_hex s < 16 ^ 16"
    using R from_hex_bound [of s] \<open>length s = 16\<close> by simp
  ultimately have "from_hex s = cursor_offset c"
    using from_hex_digits [of "from_hex s" 16] from_hex_digits [of "cursor_offset c" 16]
      max_offset_fits [of "cursor_offset c"] R by (metis (no_types))
  then show ?L using R \<open>length s = 16\<close> by (cases c) (auto simp: PageCursor_parse_def)
qed

end
