(* ===== verification/Media_Stream.thy ===== *)
theory Media_Stream
  imports Core_Audio Audio_Queue Media_Auth Call_Audio
begin

text \<open>
  The media stream of \<open>crates/analogconnectd/src/lib.rs\<close>: batches of ACAP packets as the
  WebSocket carries them (\<open>decode_audio_batch\<close>, \<open>take_downlink_batch\<close>), their way in and out
  of the audio bridge, and \<open>media_socket\<close>, whose receiving and sending loops interleave with
  each other, with the audio workers and with the revocation of the lease.
\<close>

definition MAX_MEDIA_FRAMES_PER_MESSAGE :: nat where "MAX_MEDIA_FRAMES_PER_MESSAGE = 4"
definition MAX_MEDIA_PACKET_BYTES :: nat where "MAX_MEDIA_PACKET_BYTES = 264"
definition MAX_MEDIA_MESSAGE_BYTES :: nat where
  "MAX_MEDIA_MESSAGE_BYTES = MAX_MEDIA_PACKET_BYTES * MAX_MEDIA_FRAMES_PER_MESSAGE"

datatype MediaStreamError = InvalidPacket | QueueUnavailable

section \<open>Batches\<close>

definition packet_size :: "u8 \<Rightarrow> nat option" where
  "packet_size code = (if code = 1 then Some 144 else if code = 2 then Some 264 else None)"

text \<open>
  The loop of \<open>decode_audio_batch\<close>: the frames so far and the offset reached. An offset past the
  end of the bytes is refused, so \<open>checked_add\<close> adds nothing to the test against the length.
\<close>

function decode_frames ::
  "u8 list \<Rightarrow> nat \<Rightarrow> AudioFrame list \<Rightarrow> AudioFormat option \<Rightarrow> u64 option \<Rightarrow>
   (AudioFrame list \<times> nat, MediaStreamError) result" where
  "decode_frames bytes offset frames expected_format expected_sequence =
     (if \<not> (offset < length bytes \<and> length frames < MAX_MEDIA_FRAMES_PER_MESSAGE) then Ok (frames, offset)
      else if length bytes - offset < 6 then Err InvalidPacket
      else case packet_size (bytes ! (offset + 5)) of
        None \<Rightarrow> Err InvalidPacket
      | Some n \<Rightarrow>
          let stop = offset + n in
          if length bytes < stop then Err InvalidPacket
          else case AudioPacket_decode (take n (drop offset bytes)) of
            Inl _ \<Rightarrow> Err InvalidPacket
          | Inr packet \<Rightarrow>
              let frame = pk_frame packet in
              if (case expected_format of None \<Rightarrow> False | Some format \<Rightarrow> format \<noteq> fr_format frame)
                 \<or> (case expected_sequence of None \<Rightarrow> False | Some sequence \<Rightarrow> sequence \<noteq> fr_sequence frame)
              then Err InvalidPacket
              else let expected_sequence = checked_add (fr_sequence frame) 1 in
                if expected_sequence = None \<and> stop \<noteq> length bytes then Err InvalidPacket
                else decode_frames bytes stop (frames @ [frame]) (Some (fr_format frame)) expected_sequence)"
  by pat_completeness auto
termination
  by (relation "measure (\<lambda>(_, _, frames, _, _). MAX_MEDIA_FRAMES_PER_MESSAGE - length frames)") auto

declare decode_frames.simps [simp del]

definition decode_audio_batch :: "u8 list \<Rightarrow> (AudioFrame list, MediaStreamError) result" where
  "decode_audio_batch bytes =
     result_bind (decode_frames bytes 0 [] None None) (\<lambda>(frames, offset).
       if frames = [] \<or> offset \<noteq> length bytes then Err InvalidPacket else Ok frames)"

text \<open>\<open>clock n\<close> is the time of the \<open>n\<close>-th access to the queue.\<close>

fun push_frames ::
  "(nat \<Rightarrow> nat) \<Rightarrow> nat \<Rightarrow> AudioFrame list \<Rightarrow> BoundedAudioQueue \<Rightarrow>
   (unit, MediaStreamError) result \<times> BoundedAudioQueue" where
  "push_frames clock n [] queue = (Ok (), queue)"
| "push_frames clock n (frame # frames) queue =
     (case BoundedAudioQueue_push frame (clock n) queue of
        (Inl _, queue) \<Rightarrow> (Err QueueUnavailable, queue)
      | (Inr _, queue) \<Rightarrow> push_frames clock (Suc n) frames queue)"

definition receive_uplink_packet ::
  "(nat \<Rightarrow> nat) \<Rightarrow> u8 list \<Rightarrow> AudioBridge \<Rightarrow> (unit, MediaStreamError) result \<times> AudioBridge" where
  "receive_uplink_packet clock bytes bridge =
     (case decode_audio_batch bytes of
        Inl e \<Rightarrow> (Err e, bridge)
      | Inr frames \<Rightarrow>
          (case push_frames clock 0 frames (br_uplink bridge) of
             (r, queue) \<Rightarrow> (r, bridge\<lparr>br_uplink := queue\<rparr>)))"

text \<open>The loop \<open>for _ in 0..MAX_MEDIA_FRAMES_PER_MESSAGE\<close> of \<open>take_downlink_batch\<close>, with \<open>left\<close> rounds to go.\<close>

fun take_frames ::
  "(nat \<Rightarrow> nat) \<Rightarrow> u64 \<Rightarrow> nat \<Rightarrow> u8 list \<Rightarrow> BoundedAudioQueue \<Rightarrow>
   (u8 list, MediaStreamError) result \<times> BoundedAudioQueue" where
  "take_frames clock micros 0 batch queue = (Ok batch, queue)"
| "take_frames clock micros (Suc left) batch queue =
     (case BoundedAudioQueue_pop (clock left) queue of
        (Inl _, queue) \<Rightarrow> (Err QueueUnavailable, queue)
      | (Inr None, queue) \<Rightarrow> (Ok batch, queue)
      | (Inr (Some frame), queue) \<Rightarrow>
          (case AudioPacket_encode (AudioPacket_new micros frame) of
             Inl _ \<Rightarrow> (Err InvalidPacket, queue)
           | Inr bytes \<Rightarrow> take_frames clock micros left (batch @ bytes) queue))"

definition capture_micros :: "nat \<Rightarrow> u64" where
  "capture_micros capture_time =
     (let micros = capture_time div 1000 in if micros < 2 ^ 64 then word_of_nat micros else word_max)"

definition take_downlink_batch ::
  "(nat \<Rightarrow> nat) \<Rightarrow> nat \<Rightarrow> AudioBridge \<Rightarrow> (u8 list option, MediaStreamError) result \<times> AudioBridge" where
  "take_downlink_batch clock capture_time bridge =
     (case take_frames clock (capture_micros capture_time) MAX_MEDIA_FRAMES_PER_MESSAGE [] (br_downlink bridge) of
        (r, queue) \<Rightarrow>
          (result_bind r (\<lambda>batch. Ok (if batch = [] then None else Some batch)), bridge\<lparr>br_downlink := queue\<rparr>))"

section \<open>What a batch is\<close>

definition packet_text :: "AudioPacket \<Rightarrow> u8 list" where
  "packet_text p = (case AudioPacket_encode p of Inl _ \<Rightarrow> [] | Inr bytes \<Rightarrow> bytes)"

definition wire_ok :: "AudioPacket \<Rightarrow> bool" where
  "wire_ok p \<longleftrightarrow> frame_ok (pk_frame p) \<and> is_ok (AudioPacket_encode p)"

definition follows :: "AudioFrame \<Rightarrow> AudioFrame \<Rightarrow> bool" where
  "follows a b \<longleftrightarrow> fr_format b = fr_format a \<and> fr_sequence b = fr_sequence a + 1"

lemma wire_ok_decode: "wire_ok p \<longleftrightarrow> AudioPacket_decode (packet_text p) = Ok p"
proof
  assume "wire_ok p"
  then obtain bs where "AudioPacket_encode p = Ok bs" "packet_ok p"
    by (cases "AudioPacket_encode p") (simp_all add: wire_ok_def packet_ok_def)
  then show "AudioPacket_decode (packet_text p) = Ok p"
    using decode_encode_packet [of p bs] by (simp add: packet_text_def)
next
  assume "AudioPacket_decode (packet_text p) = Ok p"
  then show "wire_ok p" using encode_decode_packet [of "packet_text p" p] by (simp add: wire_ok_def packet_ok_def)
qed

lemma decode_wire_ok: "AudioPacket_decode bs = Ok p \<Longrightarrow> wire_ok p \<and> packet_text p = bs"
  using encode_decode_packet [of bs p] by (simp add: wire_ok_def packet_text_def packet_ok_def)

lemma wire_sequence: "wire_ok p \<Longrightarrow> fr_sequence (pk_frame p) \<le> i64_max"
  by (auto simp: wire_ok_def is_ok_def AudioPacket_encode_def Let_def split: if_splits)

lemma next_sequence: "s \<le> i64_max \<Longrightarrow> checked_add s 1 = Some (s + 1)"
  by (simp add: checked_add_def i64_max_def word_le_nat_alt)

lemma packet_text_size:
  assumes "wire_ok p"
  shows "packet_size (packet_text p ! 5) = Some (length (packet_text p)) \<and> 6 \<le> length (packet_text p) \<and>
    length (packet_text p) \<le> MAX_MEDIA_PACKET_BYTES"
proof -
  have d: "AudioPacket_decode (packet_text p) = Ok p" using assms by (simp add: wire_ok_decode)
  obtain c s t xs where c: "packet_text p = packet_bytes c s t xs" "format_code (fr_format (pk_frame p)) = Ok c"
    using decode_Ok_packet_bytes [OF d] .
  then show ?thesis
    using packet_length [OF d] packet_bytes_header(3) [of c s t xs]
    by (auto simp: packet_size_def format_code_Ok_iff MAX_MEDIA_PACKET_BYTES_def)
qed

text \<open>What the loop expects of the next frame.\<close>

definition expected_by :: "AudioFormat option \<Rightarrow> u64 option \<Rightarrow> AudioFrame list \<Rightarrow> bool" where
  "expected_by format sequence frames \<longleftrightarrow> (case frames of [] \<Rightarrow> True | f # _ \<Rightarrow>
     (format = None \<or> format = Some (fr_format f)) \<and> (sequence = None \<or> sequence = Some (fr_sequence f)))"

lemma successively_Cons_expected:
  "successively follows (f # fs) \<longleftrightarrow>
     expected_by (Some (fr_format f)) (Some (fr_sequence f + 1)) fs \<and> successively follows fs"
  by (cases fs) (auto simp: expected_by_def follows_def)

lemma decode_frames_sound:
  assumes "decode_frames bytes offset frames ef es = Ok (fs, stop)" and "offset \<le> length bytes"
  shows "\<exists>ps. fs = frames @ map pk_frame ps \<and> stop \<le> length bytes \<and>
    drop offset bytes = concat (map packet_text ps) @ drop stop bytes \<and> list_all wire_ok ps \<and>
    expected_by ef es (map pk_frame ps) \<and> successively follows (map pk_frame ps) \<and>
    (ps = [] \<or> length fs \<le> MAX_MEDIA_FRAMES_PER_MESSAGE)"
  using assms
proof (induction bytes offset frames ef es rule: decode_frames.induct)
  case (1 bytes offset frames ef es)
  show ?case
  proof (cases "offset < length bytes \<and> length frames < MAX_MEDIA_FRAMES_PER_MESSAGE")
    case False
    then show ?thesis
      using "1.prems" by (intro exI [of _ "[]"]) (simp add: decode_frames.simps [of bytes offset] expected_by_def)
  next
    case True
    then obtain n p where n: "packet_size (bytes ! (offset + 5)) = Some n" "offset + n \<le> length bytes"
      "AudioPacket_decode (take n (drop offset bytes)) = Ok p"
      and e: "expected_by ef es [pk_frame p]"
      and rest: "decode_frames bytes (offset + n) (frames @ [pk_frame p]) (Some (fr_format (pk_frame p)))
        (checked_add (fr_sequence (pk_frame p)) 1) = Ok (fs, stop)"
      and six: "\<not> length bytes - offset < 6" and more_bytes: "checked_add (fr_sequence (pk_frame p)) 1 \<noteq> None \<or> offset + n = length bytes"
      using "1.prems"(1) unfolding decode_frames.simps [of bytes offset]
      by (auto simp: Let_def expected_by_def split: if_splits option.splits sum.splits)
    have p: "wire_ok p" "packet_text p = take n (drop offset bytes)" using decode_wire_ok [OF n(3)] by simp_all
    have next_seq: "checked_add (fr_sequence (pk_frame p)) 1 = Some (fr_sequence (pk_frame p) + 1)"
      using next_sequence wire_sequence p(1) by blast
    have "\<exists>ps. fs = (frames @ [pk_frame p]) @ map pk_frame ps \<and> stop \<le> length bytes \<and>
      drop (offset + n) bytes = concat (map packet_text ps) @ drop stop bytes \<and> list_all wire_ok ps \<and>
      expected_by (Some (fr_format (pk_frame p))) (checked_add (fr_sequence (pk_frame p)) 1) (map pk_frame ps) \<and>
      successively follows (map pk_frame ps) \<and> (ps = [] \<or> length fs \<le> MAX_MEDIA_FRAMES_PER_MESSAGE)"
      by (rule "1.IH" [OF _ six n(1) refl _ n(3) refl _ refl])
        (use True n(2) e next_seq rest in \<open>auto simp: expected_by_def\<close>)
    then obtain ps where ps: "fs = frames @ pk_frame p # map pk_frame ps" "stop \<le> length bytes"
      "drop (offset + n) bytes = concat (map packet_text ps) @ drop stop bytes" "list_all wire_ok ps"
      "successively follows (pk_frame p # map pk_frame ps)"
      "ps = [] \<or> length fs \<le> MAX_MEDIA_FRAMES_PER_MESSAGE"
      unfolding next_seq successively_Cons_expected by auto
    have "drop offset bytes = packet_text p @ drop (offset + n) bytes"
      unfolding p(2) by (metis add.commute append_take_drop_id drop_drop)
    moreover have "length fs \<le> MAX_MEDIA_FRAMES_PER_MESSAGE" using ps(1,6) True by auto
    ultimately show ?thesis
      using ps p e by (intro exI [of _ "p # ps"]) (simp add: expected_by_def)
  qed
qed

lemma decode_frames_complete:
  assumes "list_all wire_ok ps" and "length frames + length ps \<le> MAX_MEDIA_FRAMES_PER_MESSAGE"
    and "drop offset bytes = concat (map packet_text ps)" and "offset \<le> length bytes"
    and "expected_by ef es (map pk_frame ps)" and "successively follows (map pk_frame ps)"
  shows "decode_frames bytes offset frames ef es = Ok (frames @ map pk_frame ps, length bytes)"
  using assms
proof (induction ps arbitrary: offset frames ef es)
  case Nil
  then show ?case by (simp add: decode_frames.simps)
next
  case (Cons p ps)
  let ?t = "packet_text p" and ?n = "length (packet_text p)"
  have p: "wire_ok p" and d: "AudioPacket_decode ?t = Ok p" using Cons.prems(1) wire_ok_decode by auto
  have split: "drop offset bytes = ?t @ concat (map packet_text ps)" using Cons.prems(3) by simp
  have n: "packet_size (?t ! 5) = Some ?n" "6 \<le> ?n" using packet_text_size [OF p] by simp_all
  have len: "length bytes = offset + ?n + length (concat (map packet_text ps))"
    using arg_cong [OF split, of length] Cons.prems(4) by simp
  have at5: "bytes ! (offset + 5) = ?t ! 5"
  proof -
    have "bytes ! (offset + 5) = drop offset bytes ! 5" using Cons.prems(4) by simp
    then show ?thesis using split n(2) by (simp add: nth_append)
  qed
  have dropped: "drop (offset + ?n) bytes = concat (map packet_text ps)"
    using arg_cong [OF split, of "drop ?n"] by (simp add: add.commute)
  have next_seq: "checked_add (fr_sequence (pk_frame p)) 1 = Some (fr_sequence (pk_frame p) + 1)"
    using next_sequence wire_sequence p by blast
  have "decode_frames bytes (offset + ?n) (frames @ [pk_frame p]) (Some (fr_format (pk_frame p)))
      (Some (fr_sequence (pk_frame p) + 1)) = Ok ((frames @ [pk_frame p]) @ map pk_frame ps, length bytes)"
    using Cons.prems len dropped successively_Cons_expected [of "pk_frame p"] by (intro Cons.IH) auto
  then show ?case
    using Cons.prems(2,5) len n d at5 next_seq split
    by (subst decode_frames.simps) (auto simp: Let_def expected_by_def)
qed

lemma audio_batch_exact_iff:
  "decode_audio_batch bytes = Ok frames \<longleftrightarrow>
     (\<exists>ps. bytes = concat (map packet_text ps) \<and> frames = map pk_frame ps \<and> list_all wire_ok ps \<and>
       ps \<noteq> [] \<and> length ps \<le> MAX_MEDIA_FRAMES_PER_MESSAGE \<and> successively follows frames)"
proof
  assume "decode_audio_batch bytes = Ok frames"
  then have "decode_frames bytes 0 [] None None = Ok (frames, length bytes)" "frames \<noteq> []"
    by (auto simp: decode_audio_batch_def result_bind_Ok_iff split: if_splits)
  then show "\<exists>ps. bytes = concat (map packet_text ps) \<and> frames = map pk_frame ps \<and> list_all wire_ok ps \<and>
      ps \<noteq> [] \<and> length ps \<le> MAX_MEDIA_FRAMES_PER_MESSAGE \<and> successively follows frames"
    using decode_frames_sound [of bytes 0 "[]" None None frames "length bytes"] by auto
next
  assume "\<exists>ps. bytes = concat (map packet_text ps) \<and> frames = map pk_frame ps \<and> list_all wire_ok ps \<and>
      ps \<noteq> [] \<and> length ps \<le> MAX_MEDIA_FRAMES_PER_MESSAGE \<and> successively follows frames"
  then obtain ps where ps: "bytes = concat (map packet_text ps)" "frames = map pk_frame ps" "list_all wire_ok ps"
    "ps \<noteq> []" "length ps \<le> MAX_MEDIA_FRAMES_PER_MESSAGE" "successively follows frames" by blast
  then have "decode_frames bytes 0 [] None None = Ok (frames, length bytes)"
    using decode_frames_complete [of ps "[]" 0 bytes None None]
    by (cases ps) (auto simp: expected_by_def)
  then show "decode_audio_batch bytes = Ok frames" using ps by (simp add: decode_audio_batch_def)
qed

text \<open>
  C11: A media message is accepted exactly when it is one to four complete packets with nothing
  between or after them, each of them canonical, all in one format and with consecutive sequence
  numbers; its frames are those of the packets, in order.
\<close>

theorem audio_batch_exact:
  "decode_audio_batch bytes = Ok frames \<longleftrightarrow>
     (\<exists>ps. bytes = concat (map packet_text ps) \<and> frames = map pk_frame ps \<and> list_all wire_ok ps \<and>
       ps \<noteq> [] \<and> length ps \<le> MAX_MEDIA_FRAMES_PER_MESSAGE \<and> successively follows frames)"
  by (rule audio_batch_exact_iff)

section \<open>Batches and the audio bridge\<close>

lemma queue_push_eq: "queue_ok q \<Longrightarrow> BoundedAudioQueue_push f now q = (Ok (), queue_push now f q)"
  using queue_push_state [of q f now] by (simp add: queue_push_def)

lemma queue_pop_eq: "queue_ok q \<Longrightarrow> BoundedAudioQueue_pop now q = (Ok (fst (queue_pop now q)), snd (queue_pop now q))"
  using queue_pop_state [of q now] by (simp add: queue_pop_def split: if_splits)

lemma push_frames_ok:
  "queue_ok q \<Longrightarrow> fst (push_frames clock n fs q) = Ok () \<and> queue_ok (snd (push_frames clock n fs q)) \<and>
     bq_capacity (snd (push_frames clock n fs q)) = bq_capacity q \<and>
     queue_contents (snd (push_frames clock n fs q)) = evict (bq_capacity q) (queue_contents q @ fs)"
proof (induction fs arbitrary: n q)
  case Nil
  then show ?case using audio_queue.within_room [of q] by simp
next
  case (Cons f fs)
  note q = audio_queue.push_ok [OF Cons.prems] audio_queue.push_contents [OF Cons.prems] audio_queue.push_room
  show ?case
    using Cons.IH [OF q(1)] q(2,3) queue_push_eq [OF Cons.prems] by simp
qed

lemma receive_uplink_keeps:
  assumes "queue_ok (br_uplink b)"
  shows "br_downlink (snd (receive_uplink_packet clock bytes b)) = br_downlink b \<and>
    queue_ok (br_uplink (snd (receive_uplink_packet clock bytes b)))"
  using assms push_frames_ok [OF assms, of clock 0]
  by (auto simp: receive_uplink_packet_def split: sum.splits prod.splits) (metis snd_conv)

text \<open>
  A malformed media message changes nothing; a well-formed one appends exactly its frames to
  the uplink, in order, dropping the oldest frames beyond the queue's capacity, and leaves the
  downlink alone.
\<close>

theorem uplink_all_or_nothing:
  assumes "queue_ok (br_uplink b)"
  shows "case receive_uplink_packet clock bytes b of (r, b') \<Rightarrow>
    br_downlink b' = br_downlink b \<and> queue_ok (br_uplink b') \<and>
    (case decode_audio_batch bytes of
       Inl e \<Rightarrow> r = Err e \<and> b' = b
     | Inr frames \<Rightarrow> r = Ok () \<and>
         queue_contents (br_uplink b') = evict (bq_capacity (br_uplink b)) (queue_contents (br_uplink b) @ frames))"
proof (cases "decode_audio_batch bytes")
  case (Inl e)
  then show ?thesis using assms by (simp add: receive_uplink_packet_def)
next
  case (Inr frames)
  then show ?thesis
    using push_frames_ok [OF assms, of clock 0 frames]
    by (cases "push_frames clock 0 frames (br_uplink b)") (simp add: receive_uplink_packet_def)
qed

definition sample_bridge :: AudioBridge where
  "sample_bridge = (let q = queue_push 0 (queue_frame 1) \<lparr>bq_capacity = 64,
      bq_state = Mutex False \<lparr>qst_frames = [], qst_summary = AudioQueueSummary_default\<rparr>\<rparr>
    in \<lparr>br_uplink = q, br_downlink = q\<rparr>)"

lemma sample_bridge:
  "queue_ok (br_uplink sample_bridge)" "queue_ok (br_downlink sample_bridge)"
  "queue_contents (br_uplink sample_bridge) = [queue_frame 1]"
  "queue_contents (br_downlink sample_bridge) = [queue_frame 1]"
  by (simp_all add: sample_bridge_def queue_push_def BoundedAudioQueue_push_def queue_ok_def queue_contents_def
      AudioQueueSummary_default_def Let_def)

theorem uplink_all_or_nothing_witness:
  "receive_uplink_packet (\<lambda>_. 0) [1, 2, 3] sample_bridge = (Err InvalidPacket, sample_bridge)"
  using uplink_all_or_nothing [OF sample_bridge(1), where clock = "\<lambda>_. 0" and bytes = "[1, 2, 3]"]
  by (simp add: decode_audio_batch_def decode_frames.simps MAX_MEDIA_FRAMES_PER_MESSAGE_def split: prod.splits)

definition sendable :: "AudioFrame \<Rightarrow> bool" where
  "sendable f \<longleftrightarrow> frame_ok f \<and> hfp_format (fr_format f) \<and> fr_sequence f \<le> i64_max"

lemma sendable_wire: "sendable f \<Longrightarrow> wire_ok (AudioPacket_new t f)"
  by (auto simp: sendable_def wire_ok_def AudioPacket_new_def AudioPacket_encode_def hfp_format_code Let_def not_less)

lemma sendable_encode: "sendable f \<Longrightarrow> AudioPacket_encode (AudioPacket_new t f) = Ok (packet_text (AudioPacket_new t f))"
  using sendable_wire [of f t] by (auto simp: wire_ok_def packet_text_def is_ok_def split: sum.splits)

lemma take_frames_ok:
  assumes "queue_ok q" and "list_all sendable (take n (queue_contents q))"
  shows "fst (take_frames clock t n batch q) =
      Ok (batch @ concat (map (\<lambda>f. packet_text (AudioPacket_new t f)) (take n (queue_contents q)))) \<and>
    queue_ok (snd (take_frames clock t n batch q)) \<and>
    queue_contents (snd (take_frames clock t n batch q)) = drop n (queue_contents q)"
  using assms
proof (induction n arbitrary: q batch)
  case 0
  then show ?case by simp
next
  case (Suc n)
  note pop = queue_pop_eq [OF Suc.prems(1), of "clock n"] audio_queue.pop_result [OF Suc.prems(1), of "clock n"]
    and rest = audio_queue.pop_ok [OF Suc.prems(1), of "clock n"] audio_queue.pop_contents [OF Suc.prems(1), of "clock n"]
  show ?case
  proof (cases "queue_contents q")
    case Nil
    then show ?thesis using pop rest by simp
  next
    case (Cons f fs)
    then have f: "sendable f" "list_all sendable (take n fs)" using Suc.prems(2) by simp_all
    show ?thesis
      using Suc.IH [OF rest(1), of "batch @ packet_text (AudioPacket_new t f)"] pop rest(2) Cons f sendable_encode [OF f(1)]
      by simp
  qed
qed

lemma decode_empty: "decode_audio_batch [] = Err InvalidPacket"
  by (simp add: decode_audio_batch_def decode_frames.simps)

lemma length_packets: "list_all wire_ok ps \<Longrightarrow> length (concat (map packet_text ps)) \<le> MAX_MEDIA_PACKET_BYTES * length ps"
  using packet_text_size by (induction ps) fastforce+

text \<open>
  What the daemon sends, the peer can decode: a batch taken from a downlink that holds
  consecutive frames of one format consists of the oldest (at most four) frames, decodes to
  exactly these frames, fits the limit on a media message, and leaves the other frames queued.
\<close>

theorem downlink_batch_roundtrip:
  assumes "queue_ok (br_downlink b)" and "queue_contents (br_downlink b) \<noteq> []"
    and "frames = take MAX_MEDIA_FRAMES_PER_MESSAGE (queue_contents (br_downlink b))"
    and "list_all sendable frames" and "successively follows frames"
  shows "\<exists>bytes b'. take_downlink_batch clock t b = (Ok (Some bytes), b') \<and> decode_audio_batch bytes = Ok frames \<and>
    length bytes \<le> MAX_MEDIA_MESSAGE_BYTES \<and> br_uplink b' = br_uplink b \<and>
    queue_contents (br_downlink b') = drop MAX_MEDIA_FRAMES_PER_MESSAGE (queue_contents (br_downlink b))"
proof -
  let ?ps = "map (AudioPacket_new (capture_micros t)) frames"
  have ps: "list_all wire_ok ?ps" "map pk_frame ?ps = frames"
    using assms(4) sendable_wire by (auto simp: list_all_iff comp_def) (simp add: AudioPacket_new_def)
  have frames: "frames \<noteq> []" "length frames \<le> MAX_MEDIA_FRAMES_PER_MESSAGE"
    using assms(2,3) by (auto simp: MAX_MEDIA_FRAMES_PER_MESSAGE_def)
  have dec: "decode_audio_batch (concat (map packet_text ?ps)) = Ok frames"
    unfolding audio_batch_exact_iff using ps frames assms(5) by (intro exI [of _ ?ps]) simp
  have "length (concat (map packet_text ?ps)) \<le> MAX_MEDIA_MESSAGE_BYTES"
    using length_packets [OF ps(1)] mult_le_mono2 [OF frames(2), of MAX_MEDIA_PACKET_BYTES]
    unfolding MAX_MEDIA_MESSAGE_BYTES_def length_map by (rule le_trans)
  moreover have "concat (map packet_text ?ps) \<noteq> []" using dec decode_empty by (metis sum.distinct(1))
  ultimately show ?thesis
    using take_frames_ok [OF assms(1), of MAX_MEDIA_FRAMES_PER_MESSAGE clock "capture_micros t" "[]"] assms(3,4) dec
    by (auto simp: take_downlink_batch_def comp_def split: prod.splits)
qed

lemma sendable_queue_frame: "n \<le> i64_max \<Longrightarrow> sendable (queue_frame n)"
  by (simp add: sendable_def queue_frame_def frame_ok_def hfp_format_def HFP_WIDEBAND_def)

theorem downlink_batch_roundtrip_witness:
  "\<exists>bytes b'. take_downlink_batch (\<lambda>_. 0) 5000 sample_bridge = (Ok (Some bytes), b') \<and>
     decode_audio_batch bytes = Ok [queue_frame 1]"
  using downlink_batch_roundtrip [of sample_bridge "[queue_frame 1]" "\<lambda>_. 0" 5000] sendable_queue_frame [of 1]
  by (fastforce simp: sample_bridge MAX_MEDIA_FRAMES_PER_MESSAGE_def i64_max_def word_le_nat_alt)

section \<open>The socket\<close>

text \<open>\<open>axum\<close>'s WebSocket messages, without the reason of a \<open>Close\<close>.\<close>

datatype Message = Text | Binary "u8 list" | Ping "u8 list" | Pong "u8 list" | Close

text \<open>
  Where the sending loop is: about to check the lease, waiting, with rounds of a burst to go, or
  awaiting the completion of a send, with what follows when it succeeds.
\<close>

datatype after_send = ThenCheck | ThenBurst nat | ThenEnd

datatype send_phase = Checking | Waiting | Burst nat | Sending after_send

text \<open>
  The two loops over shared state. \<open>so_receiving\<close>: the receiving loop found the lease active and
  waits for the next message. \<open>so_sent\<close>: the messages whose sending was begun. \<open>so_open\<close>: the loops
  run and neither has ended; \<open>select!\<close> drops both when one does.
\<close>

record MediaSocket =
  so_bridge :: AudioBridge
  so_media :: MediaSystem
  so_lease :: addr
  so_failure :: u8
  so_control :: "Message list"
  so_sent :: "Message list"
  so_receiving :: bool
  so_sending :: send_phase
  so_open :: bool

definition PipeWireMediaBackend_start ::
  "'v json_api \<Rightarrow> (string, unit) result \<Rightarrow> io_event list \<Rightarrow> os_state \<Rightarrow> (LiveAudioBridge, unit) result \<times> os_state" where
  "PipeWireMediaBackend_start js snapshot delivered os =
     (case ScoNodeLocator_locate js snapshot of
        Inl _ \<Rightarrow> (Err (), os)
      | Inr nodes \<Rightarrow>
          (case LiveAudioBridge_start ''pw-cat'' nodes HFP_WIDEBAND delivered os of
             (r, os) \<Rightarrow> (map_err (\<lambda>_. ()) r, os)))"

text \<open>The prologue of \<open>media_socket\<close>; \<open>start\<close> is the media backend's answer.\<close>

definition media_socket_start ::
  "(LiveAudioBridge, unit) result \<Rightarrow> addr \<Rightarrow> MediaSystem \<Rightarrow> AudioBridge \<Rightarrow> MediaSocket" where
  "media_socket_start start lease media bridge =
     (case AudioBridge_reset bridge of
        (reset, bridge) \<Rightarrow>
          let socket = \<lparr>so_bridge = bridge, so_media = media, so_lease = lease, so_failure = LIVE_BRIDGE_OK,
                so_control = [], so_sent = [], so_receiving = False, so_sending = Checking, so_open = True\<rparr>
          in if is_ok reset \<and> is_ok start then socket
             else socket\<lparr>so_sent := [Close], so_open := False\<rparr>)"

definition lease_active :: "MediaSocket \<Rightarrow> bool" where
  "lease_active s \<longleftrightarrow> MediaSessionLease_is_active (so_media s) (so_lease s)"

text \<open>The receiving loop handles what arrives; nothing arrives when the stream ends or fails.\<close>

definition receive_message :: "(nat \<Rightarrow> nat) \<Rightarrow> Message option \<Rightarrow> MediaSocket \<Rightarrow> MediaSocket" where
  "receive_message clock incoming s =
     (case incoming of
        Some (Binary packet) \<Rightarrow>
          if length packet \<le> MAX_MEDIA_MESSAGE_BYTES
          then case receive_uplink_packet clock packet (so_bridge s) of
              (Inl _, bridge) \<Rightarrow> s\<lparr>so_bridge := bridge, so_open := False\<rparr>
            | (Inr _, bridge) \<Rightarrow> s\<lparr>so_bridge := bridge, so_receiving := False\<rparr>
          else s\<lparr>so_open := False\<rparr>
      | Some (Ping payload) \<Rightarrow> s\<lparr>so_control := so_control s @ [Pong payload], so_receiving := False\<rparr>
      | _ \<Rightarrow> s\<lparr>so_open := False\<rparr>)"

text \<open>
  \<open>sender.send(..).await\<close>: the send begins, and the loop goes on when the transport has taken the
  message or failed, which may take any time and may never happen. \<open>peer\<close> answers whether it has
  taken the last of the messages sent. The result of sending a \<open>Close\<close> is ignored.
\<close>

definition send_message_to :: "Message \<Rightarrow> after_send \<Rightarrow> MediaSocket \<Rightarrow> MediaSocket" where
  "send_message_to m after s = s\<lparr>so_sent := so_sent s @ [m], so_sending := Sending after\<rparr>"

definition finish_send :: "(Message list \<Rightarrow> bool) \<Rightarrow> after_send \<Rightarrow> MediaSocket \<Rightarrow> MediaSocket" where
  "finish_send peer after s =
     (if \<not> peer (so_sent s) then s\<lparr>so_open := False\<rparr>
      else case after of
          ThenCheck \<Rightarrow> s\<lparr>so_sending := Checking\<rparr>
        | ThenBurst rounds \<Rightarrow> s\<lparr>so_sending := Burst rounds\<rparr>
        | ThenEnd \<Rightarrow> s\<lparr>so_open := False\<rparr>)"

definition send_control :: "MediaSocket \<Rightarrow> MediaSocket" where
  "send_control s =
     (case so_control s of
        [] \<Rightarrow> s
      | control # rest \<Rightarrow> send_message_to control ThenCheck (s\<lparr>so_control := rest\<rparr>))"

text \<open>A playout tick: the live bridge's failure closes the stream, otherwise a burst of 16 rounds begins.\<close>

definition playout_tick :: "MediaSocket \<Rightarrow> MediaSocket" where
  "playout_tick s =
     (case LiveAudioBridge_failure_code (so_failure s) of
        Some _ \<Rightarrow> send_message_to Close ThenEnd s
      | None \<Rightarrow> s\<lparr>so_sending := Burst 16\<rparr>)"

definition send_batch :: "(nat \<Rightarrow> nat) \<Rightarrow> nat \<Rightarrow> nat \<Rightarrow> MediaSocket \<Rightarrow> MediaSocket" where
  "send_batch clock elapsed rounds s =
     (case take_downlink_batch clock elapsed (so_bridge s) of
        (Inr (Some packet), bridge) \<Rightarrow> send_message_to (Binary packet) (ThenBurst rounds) (s\<lparr>so_bridge := bridge\<rparr>)
      | (Inr None, bridge) \<Rightarrow> s\<lparr>so_bridge := bridge, so_sending := Checking\<rparr>
      | (Inl _, bridge) \<Rightarrow> send_message_to Close ThenEnd (s\<lparr>so_bridge := bridge\<rparr>))"

text \<open>
  One step of the program around a socket. The first ten rules are the loops of
  \<open>media_socket\<close>, which stop as soon as a loop has ended; the control channel holds four messages, and a ping that
  finds it full waits. A message arrives, and a send ends, when the peer and the transport let it. In the last four the rest of the daemon acts: the registry (which never reactivates a
  lease), the playback worker, the capture worker, and a worker that fails.
\<close>

datatype socket_action =
    AwaitMessage | StopReceiving | Receive "Message option"
  | AwaitSend | StopSending | SendControl | Tick | SendBatch | EndBurst | SendDone
  | Registry | Playback | CaptureFrame | WorkerFails

inductive socket_step ::
  "(Message list \<Rightarrow> bool) \<Rightarrow> socket_action \<Rightarrow> MediaSocket \<Rightarrow> MediaSocket \<Rightarrow> bool" for peer where
  await_message: "so_open s \<Longrightarrow> \<not> so_receiving s \<Longrightarrow> lease_active s \<Longrightarrow>
    socket_step peer AwaitMessage s (s\<lparr>so_receiving := True\<rparr>)"
| stop_receiving: "so_open s \<Longrightarrow> \<not> so_receiving s \<Longrightarrow> \<not> lease_active s \<Longrightarrow>
    socket_step peer StopReceiving s (s\<lparr>so_open := False\<rparr>)"
| receive: "so_open s \<Longrightarrow> so_receiving s \<Longrightarrow> (\<forall>payload. m = Some (Ping payload) \<longrightarrow> length (so_control s) < 4) \<Longrightarrow>
    socket_step peer (Receive m) s (receive_message clock m s)"
| await_send: "so_open s \<Longrightarrow> so_sending s = Checking \<Longrightarrow> lease_active s \<Longrightarrow>
    socket_step peer AwaitSend s (s\<lparr>so_sending := Waiting\<rparr>)"
| stop_sending: "so_open s \<Longrightarrow> so_sending s = Checking \<Longrightarrow> \<not> lease_active s \<Longrightarrow>
    socket_step peer StopSending s (s\<lparr>so_open := False\<rparr>)"
| control: "so_open s \<Longrightarrow> so_sending s = Waiting \<Longrightarrow> so_control s \<noteq> [] \<Longrightarrow>
    socket_step peer SendControl s (send_control s)"
| tick: "so_open s \<Longrightarrow> so_sending s = Waiting \<Longrightarrow> socket_step peer Tick s (playout_tick s)"
| batch: "so_open s \<Longrightarrow> so_sending s = Burst (Suc n) \<Longrightarrow>
    socket_step peer SendBatch s (send_batch clock elapsed n s)"
| end_burst: "so_open s \<Longrightarrow> so_sending s = Burst 0 \<Longrightarrow>
    socket_step peer EndBurst s (s\<lparr>so_sending := Checking\<rparr>)"
| send_done: "so_open s \<Longrightarrow> so_sending s = Sending after \<Longrightarrow>
    socket_step peer SendDone s (finish_send peer after s)"
| registry: "(MediaSessionLease_is_active media (so_lease s) \<Longrightarrow> lease_active s) \<Longrightarrow>
    socket_step peer Registry s (s\<lparr>so_media := media\<rparr>)"
| playback: "socket_step peer Playback s
    (s\<lparr>so_bridge := (so_bridge s)\<lparr>br_uplink := snd (BoundedAudioQueue_pop now (br_uplink (so_bridge s)))\<rparr>\<rparr>)"
| capture: "sendable f \<Longrightarrow> socket_step peer CaptureFrame s
    (s\<lparr>so_bridge := (so_bridge s)\<lparr>br_downlink := snd (BoundedAudioQueue_push f now (br_downlink (so_bridge s)))\<rparr>\<rparr>)"
| worker_fails: "socket_step peer WorkerFails s (s\<lparr>so_failure := code\<rparr>)"

inductive socket_run ::
  "(Message list \<Rightarrow> bool) \<Rightarrow> socket_action list \<Rightarrow> MediaSocket \<Rightarrow> MediaSocket \<Rightarrow> bool" for peer where
  stay: "socket_run peer [] s s"
| go: "socket_step peer a s s' \<Longrightarrow> socket_run peer as s' s'' \<Longrightarrow> socket_run peer (a # as) s s''"

inductive_cases socket_stepE: "socket_step peer a s s'"

definition own_action :: "socket_action \<Rightarrow> bool" where
  "own_action a \<longleftrightarrow> a \<notin> {Registry, Playback, CaptureFrame, WorkerFails}"

section \<open>A revoked lease ends the stream\<close>

fun after_steps :: "after_send \<Rightarrow> nat" where
  "after_steps (ThenBurst n) = 2 * n + 1"
| "after_steps _ = 0"

fun phase_steps :: "send_phase \<Rightarrow> nat" where
  "phase_steps Checking = 0"
| "phase_steps (Burst n) = 2 * n + 1"
| "phase_steps Waiting = 34"
| "phase_steps (Sending after) = 1 + after_steps after"

text \<open>How many steps of its own an open socket can still take once its lease is revoked.\<close>

definition steps_left :: "MediaSocket \<Rightarrow> nat" where
  "steps_left s = (if so_open s then 1 + (if so_receiving s then 1 else 0) + phase_steps (so_sending s) else 0)"

text \<open>How many messages it can still begin to send.\<close>

fun phase_sends :: "send_phase \<Rightarrow> nat" where
  "phase_sends (Burst n) = n"
| "phase_sends Waiting = 16"
| "phase_sends (Sending (ThenBurst n)) = n"
| "phase_sends _ = 0"

definition sends_left :: "MediaSocket \<Rightarrow> nat" where
  "sends_left s = (if so_open s then phase_sends (so_sending s) else 0)"

lemma socket_frame [simp]:
  "lease_active (receive_message clock m s) = lease_active s"
  "lease_active (send_message_to x after s) = lease_active s"
  "lease_active (finish_send peer after s) = lease_active s"
  "lease_active (send_control s) = lease_active s"
  "lease_active (playout_tick s) = lease_active s"
  "lease_active (send_batch clock elapsed n s) = lease_active s"
  by (auto simp: receive_message_def send_message_to_def finish_send_def send_control_def playout_tick_def send_batch_def
      lease_active_def split: option.splits Message.splits prod.splits sum.splits list.splits after_send.splits)

lemma steps_left_receive: "so_open s \<Longrightarrow> so_receiving s \<Longrightarrow> steps_left (receive_message clock m s) < steps_left s"
  by (auto simp: receive_message_def steps_left_def split: option.splits Message.splits prod.splits sum.splits)

lemma steps_left_batch:
  assumes "so_open s" and "so_sending s = Burst (Suc n)"
  shows "steps_left (send_batch clock elapsed n s) < steps_left s"
  using assms
  by (auto simp: send_batch_def steps_left_def send_message_to_def split: sum.splits option.splits prod.splits)

lemma steps_left_control:
  assumes "so_open s" and "so_sending s = Waiting" and "so_control s \<noteq> []"
  shows "steps_left (send_control s) < steps_left s"
  using assms by (auto simp: send_control_def steps_left_def send_message_to_def split: list.splits)

lemma own_step:
  "socket_step peer a s s' \<Longrightarrow> own_action a \<Longrightarrow> \<not> lease_active s \<Longrightarrow>
     steps_left s' < steps_left s \<and> \<not> lease_active s'"
  by (induction rule: socket_step.induct)
    (simp_all add: own_action_def steps_left_receive steps_left_batch steps_left_control,
      auto simp: steps_left_def playout_tick_def send_message_to_def finish_send_def lease_active_def
        split: option.splits after_send.splits)

lemma other_step:
  "socket_step peer a s s' \<Longrightarrow> \<not> own_action a \<Longrightarrow> \<not> lease_active s \<Longrightarrow>
     steps_left s' = steps_left s \<and> so_receiving s' = so_receiving s \<and> so_open s' = so_open s \<and> \<not> lease_active s'"
  by (induction rule: socket_step.induct) (auto simp: own_action_def steps_left_def lease_active_def)

lemma sends_step:
  "socket_step peer a s s' \<Longrightarrow> \<not> lease_active s \<Longrightarrow>
     length (so_sent s') + sends_left s' \<le> length (so_sent s) + sends_left s"
  by (induction rule: socket_step.induct)
    (auto simp: sends_left_def receive_message_def send_control_def send_message_to_def playout_tick_def finish_send_def
      send_batch_def split: option.splits Message.splits prod.splits sum.splits list.splits after_send.splits)

fun is_receive :: "socket_action \<Rightarrow> bool" where
  "is_receive (Receive m) = True"
| "is_receive _ = False"

text \<open>After the revocation the receiving loop can only finish the wait it has begun.\<close>

definition waits_left :: "MediaSocket \<Rightarrow> nat" where
  "waits_left s = (if so_open s \<and> so_receiving s then 1 else 0)"

lemma waits_step:
  assumes "socket_step peer a s s'" and "\<not> lease_active s"
  shows "waits_left s' + (if is_receive a then 1 else 0) \<le> waits_left s"
  using assms
  by (induction rule: socket_step.induct)
    (auto simp: waits_left_def receive_message_def send_control_def send_message_to_def playout_tick_def
      finish_send_def send_batch_def split: option.splits Message.splits prod.splits sum.splits list.splits after_send.splits)

lemma revoked_run:
  assumes "socket_run peer as s s'" and "\<not> lease_active s"
  shows "length (filter own_action as) + steps_left s' \<le> steps_left s \<and>
    length (filter is_receive as) + waits_left s' \<le> waits_left s \<and>
    length (so_sent s') + sends_left s' \<le> length (so_sent s) + sends_left s \<and> \<not> lease_active s'"
  using assms
proof (induction rule: socket_run.induct)
  case (stay s)
  then show ?case by simp
next
  case (go a s s' as s'')
  have "\<not> lease_active s'" "(if own_action a then 1 else 0) + steps_left s' \<le> steps_left s"
    using own_step [OF go.hyps(1)] other_step [OF go.hyps(1)] go.prems by (cases "own_action a"; auto)+
  then show ?case using go.IH waits_step [OF go.hyps(1) go.prems] sends_step [OF go.hyps(1) go.prems] by auto
qed

text \<open>A step the loops take by themselves: no message has to arrive and no send to end for it.\<close>

definition unaided :: "socket_action \<Rightarrow> bool" where
  "unaided a \<longleftrightarrow> own_action a \<and> \<not> is_receive a \<and> a \<noteq> SendDone"

lemma unaided_step_exists:
  assumes "so_open s" and "\<not> lease_active s" and "\<forall>after. so_sending s \<noteq> Sending after"
  shows "\<exists>a s'. unaided a \<and> socket_step peer a s s'"
proof (cases "so_sending s")
  case Checking
  then show ?thesis using assms stop_sending [of s peer] by (fastforce simp: own_action_def unaided_def)
next
  case Waiting
  then show ?thesis using assms tick [of s peer] by (fastforce simp: own_action_def unaided_def)
next
  case (Burst n)
  then show ?thesis
    using assms end_burst [of s peer] batch [of s _ peer]
    by (cases n) (fastforce simp: own_action_def unaided_def)+
qed (use assms in simp)

definition short_burst :: "MediaSocket \<Rightarrow> bool" where
  "short_burst s \<longleftrightarrow> phase_sends (so_sending s) \<le> 16 \<and> phase_steps (so_sending s) \<le> 34"

lemma short_burst_step: "socket_step peer a s s' \<Longrightarrow> short_burst s \<Longrightarrow> short_burst s'"
  by (induction rule: socket_step.induct)
    (auto simp: short_burst_def receive_message_def send_control_def send_message_to_def playout_tick_def finish_send_def
      send_batch_def split: option.splits Message.splits prod.splits sum.splits list.splits after_send.splits)

lemma short_burst_run: "socket_run peer as s s' \<Longrightarrow> short_burst s \<Longrightarrow> short_burst s'"
  by (induction rule: socket_run.induct) (simp_all add: short_burst_step)

lemma start_idle:
  "so_sending (media_socket_start start lease media bridge) = Checking"
  by (simp add: media_socket_start_def Let_def split: prod.splits)

text \<open>
  C10: Revoking a session ends its stream, unless the transport stalls. From the moment the lease is
  inactive, however the rest of the daemon behaves, the loops take at most 36 more steps, begin to
  send at most 16 more messages, and handle at most one more message of the peer (so at most one
  more batch reaches the call's uplink). As long as the socket is open, either a step is enabled
  that needs neither the peer nor the transport, or the sending loop awaits the end of a send: only
  a send that never ends can keep the stream of a revoked session open for ever.
\<close>

theorem revoked_socket_stops:
  assumes "socket_run peer earlier (media_socket_start start lease media bridge) s"
    and "\<not> lease_active s" and "socket_run peer later s s'"
  shows "length (filter own_action later) \<le> 36 \<and> length (filter is_receive later) \<le> 1 \<and>
    length (so_sent s') \<le> length (so_sent s) + 16 \<and>
    (so_open s' \<longrightarrow> (\<exists>after. so_sending s' = Sending after) \<or>
       (\<exists>a s''. unaided a \<and> socket_step peer a s' s''))"
proof -
  have "short_burst s"
    by (rule short_burst_run [OF assms(1)]) (simp add: short_burst_def start_idle)
  then have "steps_left s \<le> 36" "sends_left s \<le> 16" by (auto simp: steps_left_def sends_left_def short_burst_def)
  then show ?thesis
    using revoked_run [OF assms(3,2)] unaided_step_exists [of s' peer]
    by (auto simp: waits_left_def split: if_splits)
qed

text \<open>
  A stalled transport does keep it open. While a send is pending and the peer is silent, neither loop
  can look at the lease: no step of the loops is enabled but the end of the send and the arrival of
  a message, and whatever the rest of the daemon does, the socket stays as it is, revoked or not.
\<close>

lemma stalled_socket_stays:
  assumes "socket_run peer as s s'" and "so_open s" and "so_receiving s" and "so_sending s = Sending after"
    and "SendDone \<notin> set as" and "\<forall>a \<in> set as. \<not> is_receive a"
  shows "so_open s' \<and> so_receiving s' \<and> so_sending s' = Sending after \<and> so_sent s' = so_sent s \<and>
    list_all (\<lambda>a. \<not> own_action a) as"
  using assms
proof (induction rule: socket_run.induct)
  case (stay s)
  then show ?case by simp
next
  case (go a s s' as s'')
  have "so_open s' \<and> so_receiving s' \<and> so_sending s' = Sending after \<and> so_sent s' = so_sent s \<and> \<not> own_action a"
    using go.hyps(1) go.prems by (cases rule: socket_step.cases) (auto simp: own_action_def)
  then show ?case using go.IH go.prems by simp
qed

definition socket_grant :: "bool \<Rightarrow> MediaSystem" where
  "socket_grant revoked = MediaSystem_new\<lparr>ms_heap :=
     [\<lparr>gr_token = [], gr_expires_at = 0, gr_revoked = revoked, gr_claimed = True\<rparr>]\<rparr>"

definition open_socket :: "MediaSystem \<Rightarrow> MediaSocket" where
  "open_socket media = \<lparr>so_bridge = snd (AudioBridge_reset sample_bridge), so_media = media, so_lease = 0,
     so_failure = LIVE_BRIDGE_OK, so_control = [], so_sent = [], so_receiving = False,
     so_sending = Checking, so_open = True\<rparr>"

lemma start_open:
  "is_ok start \<Longrightarrow> media_socket_start start 0 media sample_bridge = open_socket media"
  by (simp add: media_socket_start_def open_socket_def AudioBridge_reset_def BoundedAudioQueue_reset_def
      sample_bridge_def queue_push_def BoundedAudioQueue_push_def Let_def)

definition sample_live :: LiveAudioBridge where
  "sample_live = \<lparr>lb_session = None, lb_stop = False, lb_failure = LIVE_BRIDGE_OK, lb_workers = [],
     lb_capture = \<lparr>pr_reader = [], pr_format = HFP_WIDEBAND, pr_next_sequence = 0\<rparr>,
     lb_playback = \<lparr>pw_writer = \<lparr>bw_written = [], bw_broken = False\<rparr>, pw_format = HFP_WIDEBAND\<rparr>\<rparr>"

theorem revoked_socket_stops_witness:
  "\<exists>s. socket_run (\<lambda>_. True) [AwaitMessage, Registry]
       (media_socket_start (Ok sample_live) 0 (socket_grant False) sample_bridge) s \<and>
     so_open s \<and> (\<exists>a s''. unaided a \<and> socket_step (\<lambda>_. True) a s s'')"
proof -
  let ?s0 = "open_socket (socket_grant False)"
  let ?s1 = "?s0\<lparr>so_receiving := True\<rparr>" and ?s2 = "?s0\<lparr>so_receiving := True, so_media := socket_grant True\<rparr>"
  have act: "lease_active ?s0" "\<not> lease_active ?s2"
    by (simp_all add: lease_active_def open_socket_def socket_grant_def MediaSessionLease_is_active_def
        MediaSessionGrant_lease_is_active_def)
  have 1: "socket_step (\<lambda>_. True) AwaitMessage ?s0 ?s1"
    using await_message [of ?s0] act(1) by (simp add: open_socket_def)
  have 2: "socket_step (\<lambda>_. True) Registry ?s1 ?s2"
    using registry [of "socket_grant True" ?s1]
    by (simp add: socket_grant_def open_socket_def MediaSessionLease_is_active_def MediaSessionGrant_lease_is_active_def)
  have run: "socket_run (\<lambda>_. True) [AwaitMessage, Registry] (media_socket_start (Ok sample_live) 0 (socket_grant False) sample_bridge) ?s2"
    using 1 2 by (auto simp: start_open intro: socket_run.intros)
  moreover have "so_open ?s2" "\<nexists>after. so_sending ?s2 = Sending after" by (simp_all add: open_socket_def)
  ultimately show ?thesis
    using revoked_socket_stops [OF run act(2) stay] by blast
qed

section \<open>What the peer is sent\<close>

fun sent_ok :: "Message \<Rightarrow> bool" where
  "sent_ok (Binary bytes) \<longleftrightarrow> bytes \<noteq> [] \<and> length bytes \<le> MAX_MEDIA_MESSAGE_BYTES \<and>
     (\<exists>ps. bytes = concat (map packet_text ps) \<and> list_all wire_ok ps \<and> length ps \<le> MAX_MEDIA_FRAMES_PER_MESSAGE)"
| "sent_ok (Pong _) = True"
| "sent_ok Close = True"
| "sent_ok _ = False"

definition is_pong :: "Message \<Rightarrow> bool" where
  "is_pong m \<longleftrightarrow> (case m of Pong _ \<Rightarrow> True | _ \<Rightarrow> False)"

text \<open>\<open>Close\<close> is the last message, and only of a socket that is closed or waits for its sending.\<close>

definition socket_inv :: "MediaSocket \<Rightarrow> bool" where
  "socket_inv s \<longleftrightarrow> queue_ok (br_uplink (so_bridge s)) \<and> queue_ok (br_downlink (so_bridge s)) \<and>
     list_all sendable (queue_contents (br_downlink (so_bridge s))) \<and>
     list_all is_pong (so_control s) \<and> length (so_control s) \<le> 4 \<and>
     list_all sent_ok (so_sent s) \<and> Close \<notin> set (butlast (so_sent s)) \<and> (so_open s \<longrightarrow> so_sending s \<noteq> Sending ThenEnd \<longrightarrow> Close \<notin> set (so_sent s))"

lemma downlink_batch_cases:
  assumes "queue_ok (br_downlink b)" and "list_all sendable (queue_contents (br_downlink b))"
    and "take_downlink_batch clock t b = (r, b')"
  shows "br_uplink b' = br_uplink b \<and> queue_ok (br_downlink b') \<and>
    list_all sendable (queue_contents (br_downlink b')) \<and>
    (\<exists>packet. r = Ok packet \<and> (case packet of None \<Rightarrow> True | Some bytes \<Rightarrow> sent_ok (Binary bytes)))"
proof -
  let ?fs = "take MAX_MEDIA_FRAMES_PER_MESSAGE (queue_contents (br_downlink b))"
  let ?ps = "map (AudioPacket_new (capture_micros t)) ?fs"
  have fs: "list_all sendable ?fs" "list_all sendable (drop MAX_MEDIA_FRAMES_PER_MESSAGE (queue_contents (br_downlink b)))"
    using assms(2) by (auto simp: list_all_iff dest: in_set_takeD in_set_dropD)
  have ps: "list_all wire_ok ?ps" "length ?ps \<le> MAX_MEDIA_FRAMES_PER_MESSAGE"
    using fs(1) by (auto simp: list_all_iff sendable_wire)
  have len: "length (concat (map packet_text ?ps)) \<le> MAX_MEDIA_MESSAGE_BYTES"
    using length_packets [OF ps(1)] mult_le_mono2 [OF ps(2), of MAX_MEDIA_PACKET_BYTES]
    unfolding MAX_MEDIA_MESSAGE_BYTES_def by (rule le_trans)
  have "sent_ok (Binary (concat (map packet_text ?ps)))" if "concat (map packet_text ?ps) \<noteq> []"
    using that ps len by (auto intro!: exI [of _ ?ps])
  then show ?thesis
    using take_frames_ok [OF assms(1) fs(1), of clock "capture_micros t" "[]"] assms(3) fs(2)
    by (auto simp: take_downlink_batch_def comp_def split: prod.splits)
qed

lemma sent_append:
  "list_all sent_ok xs \<Longrightarrow> sent_ok m \<Longrightarrow> Close \<notin> set xs \<Longrightarrow>
     list_all sent_ok (xs @ [m]) \<and> Close \<notin> set (butlast (xs @ [m]))"
  by simp

lemma inv_send_message:
  assumes "socket_inv s" and "so_open s" and "so_sending s \<noteq> Sending ThenEnd"
    and "sent_ok m" and "m = Close \<longrightarrow> after = ThenEnd"
  shows "socket_inv (send_message_to m after s)"
  using assms by (auto simp: socket_inv_def send_message_to_def)

lemma inv_receive:
  assumes "socket_inv s" and "so_open s" and "\<forall>payload. m = Some (Ping payload) \<longrightarrow> length (so_control s) < 4"
  shows "socket_inv (receive_message clock m s)"
proof (cases "\<exists>packet. m = Some (Binary packet)")
  case True
  then obtain packet where m: "m = Some (Binary packet)" by blast
  obtain r b where b: "receive_uplink_packet clock packet (so_bridge s) = (r, b)" by (rule prod.exhaust)
  have q: "queue_ok (br_uplink (so_bridge s))" using assms(1) by (simp add: socket_inv_def)
  have "br_downlink b = br_downlink (so_bridge s)" "queue_ok (br_uplink b)"
    using receive_uplink_keeps [OF q, of clock packet] b by simp_all
  then show ?thesis
    using assms(1) b by (auto simp: receive_message_def socket_inv_def m split: sum.splits)
next
  case False
  then show ?thesis
    using assms by (auto simp: receive_message_def socket_inv_def is_pong_def split: option.splits Message.splits)
qed

lemma inv_batch:
  assumes "socket_inv s" and "so_open s" and "so_sending s = Burst m"
  shows "socket_inv (send_batch clock elapsed n s)"
proof -
  obtain r b where b: "take_downlink_batch clock elapsed (so_bridge s) = (r, b)" by (rule prod.exhaust)
  note cases = downlink_batch_cases [OF _ _ b]
  have "socket_inv (s\<lparr>so_bridge := b\<rparr>)" using assms(1) cases by (simp add: socket_inv_def)
  then have send: "sent_ok x \<Longrightarrow> x \<noteq> Close \<Longrightarrow> socket_inv (send_message_to x (ThenBurst n) (s\<lparr>so_bridge := b\<rparr>))" for x
    using assms(2,3) by (intro inv_send_message) simp_all
  obtain packet where "r = Ok packet" "case packet of None \<Rightarrow> True | Some x \<Rightarrow> sent_ok (Binary x)"
    using assms(1) cases by (auto simp: socket_inv_def)
  then show ?thesis
    using b assms cases send by (cases packet) (simp_all add: send_batch_def socket_inv_def)
qed

lemma inv_control:
  assumes "socket_inv s" and "so_open s" and "so_sending s = Waiting"
  shows "socket_inv (send_control s)"
proof (cases "so_control s")
  case Nil
  then show ?thesis using assms by (simp add: send_control_def)
next
  case (Cons c cs)
  have "socket_inv (s\<lparr>so_control := cs\<rparr>)" "is_pong c" using assms(1) Cons by (simp_all add: socket_inv_def)
  then show ?thesis
    using assms(2,3) Cons inv_send_message [of "s\<lparr>so_control := cs\<rparr>" c ThenCheck]
    by (cases c) (simp_all add: send_control_def is_pong_def)
qed

lemma inv_tick:
  assumes "socket_inv s" and "so_open s" and "so_sending s = Waiting"
  shows "socket_inv (playout_tick s)"
  using assms inv_send_message [of s Close ThenEnd]
  by (auto simp: playout_tick_def socket_inv_def split: option.splits)

lemma inv_finish:
  assumes "socket_inv s" and "so_open s" and "so_sending s = Sending after"
  shows "socket_inv (finish_send peer after s)"
  using assms by (auto simp: finish_send_def socket_inv_def split: after_send.splits)

lemma inv_step: "socket_step peer a s s' \<Longrightarrow> socket_inv s \<Longrightarrow> socket_inv s'"
proof (induction rule: socket_step.induct)
  case (receive s m clock)
  then show ?case by (intro inv_receive) auto
next
  case (control s)
  then show ?case by (intro inv_control)
next
  case (batch s n clock elapsed)
  then show ?case by (intro inv_batch)
next
  case (tick s)
  then show ?case by (intro inv_tick)
next
  case (send_done s after)
  then show ?case by (intro inv_finish)
next
  case (playback s now)
  have q: "queue_ok (br_uplink (so_bridge s))" using playback by (simp add: socket_inv_def)
  show ?case
    using playback audio_queue.pop_ok [OF q, of now] queue_pop_eq [OF q, of now] by (simp add: socket_inv_def)
next
  case (capture f s now)
  have q: "queue_ok (br_downlink (so_bridge s))" using capture by (simp add: socket_inv_def)
  have "list_all sendable (evict n (fs @ [f]))" if "list_all sendable fs" for n fs
    using that capture(1) by (auto simp: evict_drop list_all_iff dest!: in_set_dropD)
  then show ?case
    using capture audio_queue.push_ok [OF q, of now f] audio_queue.push_contents [OF q, of now f] queue_push_eq [OF q, of f now]
    by (simp add: socket_inv_def)
qed (simp_all add: socket_inv_def)

lemma inv_run: "socket_run peer as s s' \<Longrightarrow> socket_inv s \<Longrightarrow> socket_inv s'"
  by (induction rule: socket_run.induct) (simp_all add: inv_step)

lemma inv_start:
  assumes "queue_ok (br_uplink bridge)" and "queue_ok (br_downlink bridge)"
  shows "socket_inv (media_socket_start start lease media bridge)"
  using assms
  by (auto simp: socket_inv_def media_socket_start_def AudioBridge_reset_def BoundedAudioQueue_reset_def
      queue_ok_def queue_contents_def AudioQueueSummary_default_def lock_def unlock_with_def Let_def)

text \<open>
  C19: Whatever the peer, the call and the registry do, a media socket only ever sends pongs,
  messages of one to four canonical packets within the size limit, and at most one \<open>Close\<close>, which
  is its last message; its control queue stays within four messages and its two frame queues
  within their capacities.
\<close>

theorem socket_sends_valid:
  assumes "queue_ok (br_uplink bridge)" and "queue_ok (br_downlink bridge)"
    and "socket_run peer as (media_socket_start start lease media bridge) s"
  shows "list_all sent_ok (so_sent s) \<and> Close \<notin> set (butlast (so_sent s)) \<and> length (so_control s) \<le> 4 \<and>
    length (queue_contents (br_uplink (so_bridge s))) \<le> bq_capacity (br_uplink (so_bridge s)) \<and>
    length (queue_contents (br_downlink (so_bridge s))) \<le> bq_capacity (br_downlink (so_bridge s))"
  using inv_run [OF assms(3) inv_start [OF assms(1,2)]] audio_queue.within_room by (simp add: socket_inv_def)

theorem socket_sends_valid_witness:
  "\<exists>s. socket_run (\<lambda>_. False) [AwaitMessage, Receive (Some (Ping [7])), AwaitSend, SendControl, SendDone]
       (media_socket_start (Ok sample_live) 0 (socket_grant False) sample_bridge) s \<and>
     so_sent s = [Pong [7]] \<and> list_all sent_ok (so_sent s)"
proof -
  let ?s0 = "open_socket (socket_grant False)"
  let ?s1 = "?s0\<lparr>so_receiving := True\<rparr>" and ?s2 = "?s0\<lparr>so_control := [Pong [7]]\<rparr>"
  let ?s3 = "?s2\<lparr>so_sending := Waiting\<rparr>" and ?s4 = "?s0\<lparr>so_sending := Sending ThenCheck, so_sent := [Pong [7]]\<rparr>"
  let ?s5 = "?s4\<lparr>so_open := False\<rparr>"
  note defs = open_socket_def lease_active_def socket_grant_def MediaSessionLease_is_active_def
    MediaSessionGrant_lease_is_active_def receive_message_def send_control_def send_message_to_def finish_send_def
  have steps: "socket_step (\<lambda>_. False) AwaitMessage ?s0 ?s1"
    "socket_step (\<lambda>_. False) (Receive (Some (Ping [7]))) ?s1 ?s2"
    "socket_step (\<lambda>_. False) AwaitSend ?s2 ?s3" "socket_step (\<lambda>_. False) SendControl ?s3 ?s4"
    "socket_step (\<lambda>_. False) SendDone ?s4 ?s5"
    using await_message [of ?s0] receive [of ?s1 "Some (Ping [7])"] await_send [of ?s2] control [of ?s3 "\<lambda>_. False"]
      send_done [of ?s4 ThenCheck "\<lambda>_. False"]
    by (simp_all add: defs)
  then have run: "socket_run (\<lambda>_. False) [AwaitMessage, Receive (Some (Ping [7])), AwaitSend, SendControl, SendDone]
      (media_socket_start (Ok sample_live) 0 (socket_grant False) sample_bridge) ?s5"
    by (auto simp: start_open intro!: socket_run.intros)
  show ?thesis
    using socket_sends_valid [OF sample_bridge(1,2) run] run by (intro exI [of _ ?s5]) simp
qed

end
