(* ===== verification/Api_Pages.thy ===== *)
theory Api_Pages
  imports Auth Contact_Store Conversations
begin

text \<open>
  The reading half of the HTTP interface in \<open>crates/analogconnectd/src/lib.rs\<close>: status codes,
  access control, and the three paged listings (\<open>contact_page\<close>, \<open>conversation_page\<close>,
  \<open>conversation_messages\<close>). A handler is given the request it parsed; reading the JSON of a body
  (\<open>serde_json\<close>) is a parameter. \<open>cursor_pager\<close> is the contract of a paged listing: from it
  follows that a client that follows the cursors reads every row exactly once.
\<close>

datatype StatusCode =
    OK | CREATED | ACCEPTED | BAD_REQUEST | UNAUTHORIZED | CONFLICT | GONE | PAYLOAD_TOO_LARGE
  | UNPROCESSABLE_ENTITY | TOO_MANY_REQUESTS | INTERNAL_SERVER_ERROR | BAD_GATEWAY | SERVICE_UNAVAILABLE
  | METHOD_NOT_ALLOWED | UPGRADE_REQUIRED

text \<open>The text of a header, if the request has it and its bytes are visible ASCII (\<open>to_str\<close>).\<close>

type_synonym HeaderMap = "string \<rightharpoonup> string"

section \<open>Access\<close>

definition bearer :: "HeaderMap \<Rightarrow> string option" where
  "bearer headers = Option.bind (headers ''authorization'') (strip_prefix ''Bearer '')"

definition authorize :: "char ct_eq \<Rightarrow> AuthTokens \<Rightarrow> HeaderMap \<Rightarrow> (unit, StatusCode) result" where
  "authorize ct_eq tokens headers =
     (case bearer headers of
        None \<Rightarrow> Err UNAUTHORIZED
      | Some candidate \<Rightarrow> if AuthTokens_matches ct_eq tokens candidate then Ok () else Err UNAUTHORIZED)"

definition authorize_mutation :: "nat \<Rightarrow> MutationLimiter \<Rightarrow> (unit, StatusCode) result \<times> MutationLimiter" where
  "authorize_mutation now limiter =
     (case MutationLimiter_allow_at limiter now of
        (Inr True, limiter) \<Rightarrow> (Ok (), limiter)
      | (Inr False, limiter) \<Rightarrow> (Err TOO_MANY_REQUESTS, limiter)
      | (Inl _, limiter) \<Rightarrow> (Err SERVICE_UNAVAILABLE, limiter))"

fun conversation_status :: "ConversationError \<Rightarrow> StatusCode" where
  "conversation_status InvalidCursor = UNPROCESSABLE_ENTITY"
| "conversation_status Expired = GONE"
| "conversation_status ConversationError.Unavailable = SERVICE_UNAVAILABLE"
| "conversation_status ConversationError.RandomUnavailable = SERVICE_UNAVAILABLE"

definition page_limit :: "nat option \<Rightarrow> (nat, StatusCode) result" where
  "page_limit requested =
     (let limit = (case requested of None \<Rightarrow> DEFAULT_PAGE_SIZE | Some n \<Rightarrow> n)
      in if 1 \<le> limit \<and> limit \<le> MAX_PAGE_SIZE then Ok limit else Err UNPROCESSABLE_ENTITY)"

definition private_response_headers :: HeaderMap where
  "private_response_headers = [''cache-control'' \<mapsto> ''no-store'', ''pragma'' \<mapsto> ''no-cache'']"

text \<open>\<open>u16::try_from\<close>.\<close>

definition try_u16 :: "nat \<Rightarrow> 'e \<Rightarrow> (u16, 'e) result" where
  "try_u16 n e = (if n < 2 ^ 16 then Ok (word_of_nat n) else Err e)"

section \<open>Contacts\<close>

record ContactItem =
  it_display_name :: "string option"
  it_phone_numbers :: "string list"

definition ContactItem_from :: "Contact \<Rightarrow> ContactItem" where
  "ContactItem_from contact =
     \<lparr>it_display_name = display_name contact, it_phone_numbers = map ph_display (phones contact)\<rparr>"

record ContactPage =
  gp_items :: "ContactItem list"
  gp_next_cursor :: "string option"

record ContactPageRequest =
  pq_query :: "string option"
  pq_cursor :: "string option"
  pq_limit :: "nat option"

definition query_refused :: "string \<Rightarrow> bool" where
  "query_refused query \<longleftrightarrow> 100 < length (utf8_chars query) \<or>
     list_ex (\<lambda>c. c = CHR 0x0D \<or> c = CHR 0x0A \<or> c = CHR 0x00) query"

definition next_page :: "PageCursor \<Rightarrow> bool \<Rightarrow> nat \<Rightarrow> string option" where
  "next_page cursor has_more count = (if has_more then Some (PageCursor_encode (PageCursor_advance cursor count)) else None)"

text \<open>\<open>contact_page\<close> after the body is parsed; \<open>joins\<close>: the blocking task did not panic; \<open>fails\<close>: the database does.\<close>

definition contact_page_of ::
  "bool \<Rightarrow> bool \<Rightarrow> ContactStore \<Rightarrow> ContactPageRequest \<Rightarrow> (ContactPage, StatusCode) result" where
  "contact_page_of joins fails store request =
     (let query = (case pq_query request of None \<Rightarrow> [] | Some q \<Rightarrow> q) in
      if query_refused query then Err UNPROCESSABLE_ENTITY
      else result_bind (map_err conversation_status (PageCursor_parse (pq_cursor request))) (\<lambda>cursor.
           result_bind (page_limit (pq_limit request)) (\<lambda>limit.
           result_bind (try_u16 (limit + 1) UNPROCESSABLE_ENTITY) (\<lambda>fetch_limit.
           result_bind (try_u16 (cursor_offset cursor) UNPROCESSABLE_ENTITY) (\<lambda>offset.
           result_bind (if joins then Ok () else Err SERVICE_UNAVAILABLE) (\<lambda>_.
           result_bind (map_err (\<lambda>_. SERVICE_UNAVAILABLE)
               (ContactStore_search_names_page fails query fetch_limit offset store)) (\<lambda>contacts.
             let has_more = limit < length contacts;
                 items = map ContactItem_from (take limit contacts)
             in Ok \<lparr>gp_items = items, gp_next_cursor = next_page cursor has_more (length items)\<rparr>)))))))"

definition contact_page ::
  "char ct_eq \<Rightarrow> AuthTokens \<Rightarrow> (string \<Rightarrow> ContactPageRequest option) \<Rightarrow> bool \<Rightarrow> bool \<Rightarrow> ContactStore \<Rightarrow>
   HeaderMap \<Rightarrow> string \<Rightarrow> (HeaderMap \<times> ContactPage, StatusCode) result" where
  "contact_page ct_eq tokens json joins fails store headers body =
     result_bind (authorize ct_eq tokens headers) (\<lambda>_.
       if 1024 < length body then Err PAYLOAD_TOO_LARGE
       else result_bind (ok_or (json body) BAD_REQUEST) (\<lambda>request.
            result_bind (contact_page_of joins fails store request) (\<lambda>page.
              Ok (private_response_headers, page))))"

section \<open>Conversations\<close>

record ConversationPageQuery =
  qq_cursor :: "string option"
  qq_limit :: "nat option"

definition conversation_start :: "StoredConversation list \<Rightarrow> PageCursor \<Rightarrow> nat" where
  "conversation_start rows cursor = min (cursor_offset cursor) (length rows)"

definition conversation_stop :: "StoredConversation list \<Rightarrow> PageCursor \<Rightarrow> nat \<Rightarrow> nat" where
  "conversation_stop rows cursor limit = min (conversation_start rows cursor + limit) (length rows)"

text \<open>\<open>rows[start..end]\<close>.\<close>

definition conversation_slice :: "StoredConversation list \<Rightarrow> PageCursor \<Rightarrow> nat \<Rightarrow> StoredConversation list" where
  "conversation_slice rows cursor limit =
     take (conversation_stop rows cursor limit - conversation_start rows cursor)
       (drop (conversation_start rows cursor) rows)"

text \<open>The display names of the page's rows, looked up one after another; \<open>fails n\<close>: the \<open>n\<close>-th does.\<close>

fun display_names ::
  "bool \<Rightarrow> (nat \<Rightarrow> bool) \<Rightarrow> ContactStore \<Rightarrow> nat \<Rightarrow> StoredConversation list \<Rightarrow> (string option list, StatusCode) result" where
  "display_names joins fails store n [] = Ok []"
| "display_names joins fails store n (row # rows) =
     result_bind
       (if sv_participant_count row \<le> 1 \<and> \<not> sv_is_ancs_group row
        then if \<not> joins then Err SERVICE_UNAVAILABLE
             else map_err (\<lambda>_. SERVICE_UNAVAILABLE)
                    (ContactStore_lookup_display_name (fails n) (sv_display_address row) store)
        else Ok None) (\<lambda>name.
     result_bind (display_names joins fails store (Suc n) rows) (\<lambda>names. Ok (name # names)))"

definition conversation_kind :: "StoredConversation \<Rightarrow> ConversationKindResponse" where
  "conversation_kind row =
     (if sv_identity_conflict row then Ambiguous
      else if sv_is_ancs_group row \<or> 1 < sv_participant_count row then Group else Private)"

definition conversation_item :: "string \<Rightarrow> StoredConversation \<Rightarrow> string option \<Rightarrow> ConversationItem" where
  "conversation_item ident row name =
     (let is_group = sv_is_ancs_group row \<or> 1 < sv_participant_count row;
          can_reply = \<not> is_group \<and> \<not> sv_identity_conflict row
      in \<lparr>ci_conversation_id = ident, ci_display_address = sv_display_address row, ci_display_name = name,
          ci_is_group = is_group, ci_reply_supported = can_reply,
          ci_latest_unix_millis = sv_latest_unix_millis row, ci_message_count = sv_message_count row,
          ci_unread_count = sv_unread_count row, ci_latest_outgoing_state = sv_latest_outgoing_state row,
          ci_latest_preview = sv_latest_preview row, ci_latest_sender = sv_latest_sender row,
          ci_latest_sent = sv_latest_sent row, ci_kind = conversation_kind row,
          ci_title = (case sv_group_title row of Some title \<Rightarrow> title
                      | None \<Rightarrow> (case name of Some n \<Rightarrow> n | None \<Rightarrow> sv_display_address row)),
          ci_can_reply = can_reply, ci_identity_conflict = sv_identity_conflict row\<rparr>)"

text \<open>How a row is named to the client: a group by its stable key, another conversation by a random identifier.\<close>

definition alias_for :: "StoredConversation \<Rightarrow> alias_request" where
  "alias_for row = (if sv_is_ancs_group row then ExposeStable (sv_conversation_key row) else IdFor (sv_conversation_key row))"

fun conversation_items ::
  "('r, 'e) random_source \<Rightarrow> (StoredConversation \<times> string option) list \<Rightarrow> 'r \<times> ConversationAliases \<Rightarrow>
   (ConversationItem list, StatusCode) result \<times> 'r \<times> ConversationAliases" where
  "conversation_items fill [] s = (Ok [], s)"
| "conversation_items fill ((row, name) # rows) s =
     (case alias_request_run fill (alias_for row) s of
        (Inl e, s) \<Rightarrow> (Err (conversation_status e), s)
      | (Inr ident, s) \<Rightarrow>
          (case conversation_items fill rows s of
             (Inl e, s) \<Rightarrow> (Err e, s)
           | (Inr items, s) \<Rightarrow> (Ok (conversation_item ident row name # items), s)))"

definition conversation_page_of ::
  "('r, 'e) random_source \<Rightarrow> bool \<Rightarrow> (nat \<Rightarrow> bool) \<Rightarrow> ContactStore \<Rightarrow> ThreadRow list db \<Rightarrow> ConversationRepository \<Rightarrow>
   ConversationPageQuery \<Rightarrow> 'r \<Rightarrow> ConversationAliases mutex \<Rightarrow>
   (ConversationPage, StatusCode) result \<times> 'r \<times> ConversationAliases mutex" where
  "conversation_page_of fill joins fails store threads repository query random aliases =
     (case result_bind (map_err conversation_status (PageCursor_parse (qq_cursor query))) (\<lambda>cursor.
           result_bind (page_limit (qq_limit query)) (\<lambda>limit.
           result_bind (map_err conversation_status (ConversationRepository_conversations threads repository)) (\<lambda>rows.
           result_bind (display_names joins fails store 0 (conversation_slice rows cursor limit)) (\<lambda>names.
           result_bind (lock aliases SERVICE_UNAVAILABLE) (\<lambda>locked.
             Ok (cursor, limit, rows, names, locked)))))) of
        Inl e \<Rightarrow> (Err e, random, aliases)
      | Inr (cursor, limit, rows, names, locked) \<Rightarrow>
          (case conversation_items fill (zip (conversation_slice rows cursor limit) names) (random, locked) of
             (r, random, locked) \<Rightarrow>
               (result_bind r (\<lambda>items. Ok \<lparr>vp_items = items,
                  vp_next_cursor = next_page cursor (conversation_stop rows cursor limit < length rows) (length items)\<rparr>),
                random, unlock_with aliases locked)))"

definition conversation_page where
  "conversation_page ct_eq tokens fill joins fails store threads repository headers query random aliases =
     (case authorize ct_eq tokens headers of
        Inl e \<Rightarrow> (Err e, random, aliases)
      | Inr _ \<Rightarrow>
          (case conversation_page_of fill joins fails store threads repository query random aliases of
             (r, s) \<Rightarrow> (result_bind r (\<lambda>page. Ok (private_response_headers, page)), s)))"

section \<open>Messages of a conversation\<close>

record ConversationMessagesRequest =
  mq_conversation_id :: string
  mq_cursor :: "string option"
  mq_limit :: "nat option"

definition message_item :: "StoredMessage \<Rightarrow> MessageItem" where
  "message_item row =
     \<lparr>mi_message_id = hex_digits 16 (unat (sm_local_id row)),
      mi_timestamp_unix_millis = sm_timestamp_unix_millis row,
      mi_direction = (case sm_direction row of MessageDirection.Received \<Rightarrow> MessageDirectionResponse.Received
                      | MessageDirection.Sent \<Rightarrow> MessageDirectionResponse.Sent),
      mi_peer_address = sm_address row, mi_body = sm_body row, mi_read = sm_read row,
      mi_outgoing_state = sm_outgoing_state row\<rparr>"

definition conversation_messages_of ::
  "ConversationRepository \<Rightarrow> ConversationAliases mutex \<Rightarrow> ConversationMessagesRequest \<Rightarrow>
   (MessagePage, StatusCode) result" where
  "conversation_messages_of repository aliases request =
     result_bind (map_err conversation_status (PageCursor_parse (mq_cursor request))) (\<lambda>cursor.
     result_bind (page_limit (mq_limit request)) (\<lambda>limit.
     result_bind (lock aliases SERVICE_UNAVAILABLE) (\<lambda>locked.
     result_bind (ok_or (ConversationAliases_key_for locked (mq_conversation_id request)) GONE) (\<lambda>conversation_key.
     result_bind (try_u16 (cursor_offset cursor) UNPROCESSABLE_ENTITY) (\<lambda>offset.
     result_bind (try_u16 (limit + 1) UNPROCESSABLE_ENTITY) (\<lambda>fetch_limit.
     result_bind (map_err conversation_status
         (ConversationRepository_messages_for repository conversation_key fetch_limit offset)) (\<lambda>rows.
       let has_more = limit < length rows;
           items = map message_item (take limit rows)
       in Ok \<lparr>mp_items = items, mp_next_cursor = next_page cursor has_more (length items)\<rparr>)))))))"

definition conversation_messages ::
  "char ct_eq \<Rightarrow> AuthTokens \<Rightarrow> (string \<Rightarrow> ConversationMessagesRequest option) \<Rightarrow> ConversationRepository \<Rightarrow>
   ConversationAliases mutex \<Rightarrow> HeaderMap \<Rightarrow> string \<Rightarrow> (HeaderMap \<times> MessagePage, StatusCode) result" where
  "conversation_messages ct_eq tokens json repository aliases headers body =
     result_bind (authorize ct_eq tokens headers) (\<lambda>_.
       if 4096 < length body then Err PAYLOAD_TOO_LARGE
       else result_bind (ok_or (json body) BAD_REQUEST) (\<lambda>request.
            result_bind (conversation_messages_of repository aliases request) (\<lambda>page.
              Ok (private_response_headers, page))))"

section \<open>Following cursors\<close>

text \<open>A client that asks for page after page; \<open>None\<close> when the fuel is used up first.\<close>

fun follow_pages ::
  "(string option \<Rightarrow> ('a list \<times> string option, StatusCode) result) \<Rightarrow> nat \<Rightarrow> string option \<Rightarrow>
   ('a list, StatusCode) result option" where
  "follow_pages page 0 cursor = None"
| "follow_pages page (Suc n) cursor =
     (case page cursor of
        Inl e \<Rightarrow> Some (Err e)
      | Inr (items, None) \<Rightarrow> Some (Ok items)
      | Inr (items, Some next_cursor) \<Rightarrow>
          map_option (\<lambda>r. result_bind r (\<lambda>others. Ok (items @ others))) (follow_pages page n (Some next_cursor)))"

text \<open>
  A paged listing of \<open>rows\<close>, given the limit and the cursor; \<open>admitted\<close>: the rest of the request
  is in order and the rows can be read. Offsets beyond \<open>reach\<close> are refused.
\<close>

locale cursor_pager =
  fixes page :: "nat \<Rightarrow> string option \<Rightarrow> ('a list \<times> string option, StatusCode) result"
    and rows :: "'a list" and reach :: nat and admitted :: bool
  assumes reach_bound: "reach \<le> MAX_CURSOR_OFFSET"
    and page_within: "admitted \<Longrightarrow> page_limit (Some limit) = Ok limit \<Longrightarrow> PageCursor_parse cursor = Ok c \<Longrightarrow>
      cursor_offset c \<le> reach \<Longrightarrow> page limit cursor = Ok (take limit (drop (cursor_offset c) rows),
        next_page c (cursor_offset c + limit < length rows) (length (take limit (drop (cursor_offset c) rows))))"
    and page_beyond: "admitted \<Longrightarrow> page_limit (Some limit) = Ok limit \<Longrightarrow> PageCursor_parse cursor = Ok c \<Longrightarrow>
      reach < cursor_offset c \<Longrightarrow> page limit cursor = Err UNPROCESSABLE_ENTITY"
begin

lemma follow_from:
  assumes "admitted" and "page_limit (Some limit) = Ok limit" and "length rows \<le> reach + 1"
    and "PageCursor_parse cursor = Ok c" and "cursor_offset c \<le> reach" and "length rows - cursor_offset c < n"
  shows "follow_pages (page limit) n cursor = Some (Ok (drop (cursor_offset c) rows))"
  using assms(4-6)
proof (induction n arbitrary: cursor c)
  case 0
  then show ?case by simp
next
  case (Suc n)
  let ?o = "cursor_offset c"
  note page = page_within [OF assms(1,2) Suc.prems(1,2)]
  show ?case
  proof (cases "?o + limit < length rows")
    case False
    then show ?thesis using page by (simp add: next_page_def)
  next
    case True
    let ?c = "PageCursor (?o + limit)"
    have c: "cursor_offset ?c \<le> reach" "?o + limit \<le> MAX_CURSOR_OFFSET"
      using True assms(3) reach_bound by simp_all
    then have parse: "PageCursor_parse (Some (PageCursor_encode ?c)) = Ok ?c" by simp
    have "0 < limit" using assms(2) by (simp add: page_limit_def split: if_splits)
    then have "follow_pages (page limit) n (Some (PageCursor_encode ?c)) = Some (Ok (drop (?o + limit) rows))"
      using Suc.IH [OF parse c(1)] Suc.prems(3) True by simp
    moreover have "take limit (drop ?o rows) @ drop (?o + limit) rows = drop ?o rows"
      by (metis add.commute append_take_drop_id drop_drop)
    ultimately show ?thesis
      using page True c(2) by (simp add: next_page_def PageCursor_advance_def)
  qed
qed

lemma follow_all:
  assumes "admitted" and "page_limit (Some limit) = Ok limit" and "length rows \<le> reach + 1"
  shows "follow_pages (page limit) (Suc (length rows)) None = Some (Ok rows)"
  using follow_from [OF assms, of None "PageCursor 0" "Suc (length rows)"] by (simp add: PageCursor_parse_def)

text \<open>The last reachable page of a longer listing names a cursor that is refused.\<close>

lemma dead_end:
  assumes "admitted" and "page_limit (Some limit) = Ok limit" and "PageCursor_parse cursor = Ok c"
    and "cursor_offset c \<le> reach" and "reach < cursor_offset c + limit" and "cursor_offset c + limit < length rows"
    and "reach < MAX_CURSOR_OFFSET"
  shows "\<exists>items next_cursor. page limit cursor = Ok (items, Some next_cursor) \<and>
    page limit (Some next_cursor) = Err UNPROCESSABLE_ENTITY"
proof -
  let ?c = "PageCursor_advance c limit"
  have c: "reach < cursor_offset ?c" "cursor_offset ?c \<le> MAX_CURSOR_OFFSET"
    using assms(5,7) by (simp_all add: PageCursor_advance_def)
  then have "page limit (Some (PageCursor_encode ?c)) = Err UNPROCESSABLE_ENTITY"
    by (intro page_beyond [OF assms(1,2)]) simp_all
  then show ?thesis using page_within [OF assms(1-4)] assms(6) by (simp add: next_page_def)
qed

end

lemma page_limitD: "page_limit (Some limit) = Ok limit \<Longrightarrow> 1 \<le> limit \<and> limit \<le> 100"
  by (simp add: page_limit_def MAX_PAGE_SIZE_def split: if_splits)

lemma fetched_more:
  "limit < length (take (limit + 1) (drop n xs)) \<longleftrightarrow> n + limit < length xs"
  "take limit (take (limit + 1) (drop n xs)) = take limit (drop n xs)"
  by (auto simp: min_def)

lemma try_u16_small [simp]: "n < 65536 \<Longrightarrow> try_u16 n e = Ok (word_of_nat n)"
  "65536 \<le> n \<Longrightarrow> try_u16 n e = Err e"
  by (simp_all add: try_u16_def)

lemma unat_u16 [simp]: "n < 65536 \<Longrightarrow> unat (word_of_nat n :: u16) = n"
  by (simp add: unat_of_nat)

lemma fetch_limit_unat: "limit \<le> 100 \<Longrightarrow> unat (word_of_nat (limit + 1) :: u16) = limit + 1"
  by (rule unat_u16) simp

definition contact_rows :: "ContactDb \<Rightarrow> string \<Rightarrow> ContactItem list" where
  "contact_rows db query = map (\<lambda>row. ContactItem_from (row_contact db row)) (matching_rows query db)"

definition contact_listing ::
  "ContactDb \<Rightarrow> string \<Rightarrow> nat \<Rightarrow> string option \<Rightarrow> (ContactItem list \<times> string option, StatusCode) result" where
  "contact_listing db query limit cursor =
     result_bind (contact_page_of True False (Mutex False db)
       \<lparr>pq_query = Some query, pq_cursor = cursor, pq_limit = Some limit\<rparr>) (\<lambda>p. Ok (gp_items p, gp_next_cursor p))"

interpretation contact_pages: cursor_pager "contact_listing db query" "contact_rows db query" 65535 "\<not> query_refused query"
  for db query
proof
  show "65535 \<le> MAX_CURSOR_OFFSET" by (simp add: MAX_CURSOR_OFFSET_def)
next
  fix limit cursor c
  assume a: "\<not> query_refused query" "page_limit (Some limit) = Ok limit" "PageCursor_parse cursor = Ok c" "cursor_offset c \<le> 65535"
  have l: "1 \<le> limit" "limit \<le> 100" using page_limitD [OF a(2)] by simp_all
  have "unat (min (word_of_nat (limit + 1)) (101 :: u16)) = limit + 1"
    using fetch_limit_unat [OF l(2)] l by (simp add: min_def word_le_nat_alt)
  then show "contact_listing db query limit cursor = Ok (take limit (drop (cursor_offset c) (contact_rows db query)),
      next_page c (cursor_offset c + limit < length (contact_rows db query))
        (length (take limit (drop (cursor_offset c) (contact_rows db query)))))"
    using a l fetched_more(1) [of limit "cursor_offset c" "matching_rows query db"]
      fetched_more(2) [of limit "cursor_offset c" "matching_rows query db"]
    by (simp add: contact_listing_def contact_page_of_def ContactStore_search_names_page_def db_read_def lock_def
        contact_rows_def take_map drop_map comp_def del: length_take length_drop)
next
  fix limit cursor c
  assume a: "\<not> query_refused query" "page_limit (Some limit) = Ok limit" "PageCursor_parse cursor = Ok c" "65535 < cursor_offset c"
  then show "contact_listing db query limit cursor = Err UNPROCESSABLE_ENTITY"
    using page_limitD [OF a(2)] by (simp add: contact_listing_def contact_page_of_def)
qed

text \<open>
  Following the cursors of a contact search returns every matching contact exactly once, in
  the listing's order, whatever page size the client asks for; one request per contact is more
  than enough.
\<close>

theorem contact_pages_complete:
  assumes "\<not> query_refused query" and "page_limit (Some limit) = Ok limit" and "length (matching_rows query db) \<le> 65536"
  shows "follow_pages (contact_listing db query limit) (Suc (length (matching_rows query db))) None =
    Some (Ok (map (\<lambda>row. ContactItem_from (row_contact db row)) (matching_rows query db)))"
  using contact_pages.follow_all [OF assms(1,2), of db] assms(3) by (simp add: contact_rows_def)

definition two_contacts :: ContactDb where
  "two_contacts = \<lparr>db_contacts = [\<lparr>cr_id = 1, cr_display_name = Some ''b''\<rparr>, \<lparr>cr_id = 2, cr_display_name = Some ''a''\<rparr>],
     db_phones = []\<rparr>"

theorem contact_pages_complete_witness:
  "follow_pages (contact_listing two_contacts [] 1) (Suc (length (matching_rows [] two_contacts))) None =
     Some (Ok (map (\<lambda>row. ContactItem_from (row_contact two_contacts row)) (matching_rows [] two_contacts))) \<and>
   matching_rows [] two_contacts = [\<lparr>cr_id = 2, cr_display_name = Some ''a''\<rparr>, \<lparr>cr_id = 1, cr_display_name = Some ''b''\<rparr>]"
proof -
  have m: "matching_rows [] two_contacts = [\<lparr>cr_id = 2, cr_display_name = Some ''a''\<rparr>, \<lparr>cr_id = 1, cr_display_name = Some ''b''\<rparr>]"
    by code_simp
  show ?thesis
    using contact_pages_complete [of "[]" 1 two_contacts] m
    by (simp add: query_refused_def page_limit_def MAX_PAGE_SIZE_def)
qed

text \<open>A repository that holds exactly \<open>rows\<close> for a conversation.\<close>

definition repository_lists :: "ConversationRepository \<Rightarrow> string \<Rightarrow> StoredMessage list \<Rightarrow> bool" where
  "repository_lists repository key rows \<longleftrightarrow>
     (\<forall>limit offset. ConversationRepository_messages_for repository key limit offset =
        Ok (take (unat limit) (drop (unat offset) rows)))"

definition in_memory_rows :: "InMemoryConversationRepository \<Rightarrow> string \<Rightarrow> StoredMessage list" where
  "in_memory_rows self key =
     sort_key message_order (filter (\<lambda>m. sm_conversation_key m = key) (mutex_data (im_messages self)))"

lemma in_memory_lists:
  assumes "\<not> poisoned (im_messages self)"
  shows "repository_lists (InMemory self) key (in_memory_rows self key)"
proof -
  have "take (min (min o' (length xs) + l) (length xs) - min o' (length xs)) (drop (min o' (length xs)) xs) =
      take l (drop o' xs)" for o' l and xs :: "StoredMessage list"
    by (cases "o' \<le> length xs"; cases "o' + l \<le> length xs") (auto simp: min_def)
  then show ?thesis
    using assms by (simp add: repository_lists_def ConversationRepository_messages_for_def InMemory_messages_for_def
        in_memory_rows_def lock_def Let_def)
qed

definition stored_message :: "MessageRow \<Rightarrow> StoredMessage" where
  "stored_message row = (case message_of_row row of Inr m \<Rightarrow> m)"

definition store_rows :: "Store \<Rightarrow> string \<Rightarrow> MessageRow list" where
  "store_rows s key = sort_key (\<lambda>m. - m_timestamp_ms m) (sort_key (\<lambda>m. - m_rowid m)
     (filter (\<lambda>m. m_conversation_key m = key \<and> m_folder m \<in> set visible_folders) (st_messages s)))"

lemma collect_messages:
  "\<forall>m \<in> set rows. 0 \<le> m_rowid m \<Longrightarrow> collect_results (map message_of_row rows) = Ok (map stored_message rows)"
  by (induction rows) (auto simp: stored_message_def message_of_row_def try_unsigned_def)

lemma store_lists:
  assumes "st_up s" and "\<forall>m \<in> set (st_messages s). 0 \<le> m_rowid m"
  shows "repository_lists (Imsg (Some s)) key (map stored_message (store_rows s key))"
proof -
  have "\<forall>m \<in> set (take l (drop o' (store_rows s key))). 0 \<le> m_rowid m" for l o'
    using assms(2) by (auto simp: store_rows_def dest!: in_set_takeD in_set_dropD)
  then show ?thesis
    using assms(1) by (simp add: repository_lists_def ConversationRepository_messages_for_def
        Store_list_conversation_messages_def call_def collect_messages store_rows_def take_map drop_map)
qed

definition message_listing ::
  "ConversationRepository \<Rightarrow> ConversationAliases mutex \<Rightarrow> string \<Rightarrow> nat \<Rightarrow> string option \<Rightarrow>
   (MessageItem list \<times> string option, StatusCode) result" where
  "message_listing repository aliases ident limit cursor =
     result_bind (conversation_messages_of repository aliases
       \<lparr>mq_conversation_id = ident, mq_cursor = cursor, mq_limit = Some limit\<rparr>) (\<lambda>p. Ok (mp_items p, mp_next_cursor p))"

definition message_request_ok ::
  "ConversationRepository \<Rightarrow> ConversationAliases mutex \<Rightarrow> string \<Rightarrow> StoredMessage list \<Rightarrow> bool" where
  "message_request_ok repository aliases ident rows \<longleftrightarrow> \<not> poisoned aliases \<and>
     (\<exists>key. ConversationAliases_key_for (mutex_data aliases) ident = Some key \<and> repository_lists repository key rows)"

interpretation message_pages: cursor_pager "message_listing repository aliases ident" "map message_item rows" 65535
  "message_request_ok repository aliases ident rows" for repository aliases ident rows
proof
  show "65535 \<le> MAX_CURSOR_OFFSET" by (simp add: MAX_CURSOR_OFFSET_def)
next
  fix limit cursor c
  assume a: "message_request_ok repository aliases ident rows" "page_limit (Some limit) = Ok limit"
    "PageCursor_parse cursor = Ok c" "cursor_offset c \<le> 65535"
  have l: "1 \<le> limit" "limit \<le> 100" using page_limitD [OF a(2)] by simp_all
  show "message_listing repository aliases ident limit cursor = Ok (take limit (drop (cursor_offset c) (map message_item rows)),
      next_page c (cursor_offset c + limit < length (map message_item rows))
        (length (take limit (drop (cursor_offset c) (map message_item rows)))))"
    using a l fetch_limit_unat [OF l(2)] fetched_more(1) [of limit "cursor_offset c" rows]
      fetched_more(2) [of limit "cursor_offset c" rows]
    by (auto simp: message_listing_def conversation_messages_of_def message_request_ok_def repository_lists_def lock_def
        take_map drop_map comp_def simp del: length_take length_drop)
next
  fix limit cursor c
  assume "message_request_ok repository aliases ident rows" "page_limit (Some limit) = Ok limit"
    "PageCursor_parse cursor = Ok c" "65535 < cursor_offset c"
  then show "message_listing repository aliases ident limit cursor = Err UNPROCESSABLE_ENTITY"
    by (auto simp: message_listing_def conversation_messages_of_def message_request_ok_def lock_def)
qed

lemma store_request_ok:
  assumes "st_up s" and "\<forall>m \<in> set (st_messages s). 0 \<le> m_rowid m"
    and "ConversationAliases_key_for aliases ident = Some key"
  shows "message_request_ok (Imsg (Some s)) (Mutex False aliases) ident (map stored_message (store_rows s key))"
  using assms(3) store_lists [OF assms(1,2)] by (auto simp: message_request_ok_def)

text \<open>
  C22: Following the cursors of a conversation returns every stored message of it exactly once,
  newest first, as long as it has at most 65536 messages.
\<close>

theorem message_pages_complete:
  assumes "st_up s" and "\<forall>m \<in> set (st_messages s). 0 \<le> m_rowid m"
    and "ConversationAliases_key_for aliases ident = Some key"
    and "page_limit (Some limit) = Ok limit" and "length (store_rows s key) \<le> 65536"
  shows "follow_pages (message_listing (Imsg (Some s)) (Mutex False aliases) ident limit) (Suc (length (store_rows s key))) None =
    Some (Ok (map (\<lambda>row. message_item (stored_message row)) (store_rows s key)))"
  using message_pages.follow_all [OF store_request_ok [OF assms(1-3)] assms(4)] assms(5) by (simp add: comp_def)

text \<open>
  C39: A longer conversation has a tail that cannot be read: the page that reaches past offset
  65535 still answers with a cursor for the next page, and the request with that cursor is
  refused, because the offset no longer fits the sixteen bits the store is asked with.
\<close>

theorem long_conversation_dead_end:
  assumes "st_up s" and "\<forall>m \<in> set (st_messages s). 0 \<le> m_rowid m"
    and "ConversationAliases_key_for aliases ident = Some key" and "page_limit (Some limit) = Ok limit"
    and "offset \<le> 65535" and "65535 < offset + limit" and "offset + limit < length (store_rows s key)"
  shows "\<exists>items next_cursor.
    message_listing (Imsg (Some s)) (Mutex False aliases) ident limit (Some (PageCursor_encode (PageCursor offset))) =
      Ok (items, Some next_cursor) \<and>
    message_listing (Imsg (Some s)) (Mutex False aliases) ident limit (Some next_cursor) = Err UNPROCESSABLE_ENTITY"
proof -
  have small: "offset \<le> MAX_CURSOR_OFFSET" using assms(5) by (simp add: MAX_CURSOR_OFFSET_def)
  show ?thesis
    by (rule message_pages.dead_end [OF store_request_ok [OF assms(1-3)] assms(4), where c = "PageCursor offset"])
      (use assms(5-7) small in \<open>simp_all add: MAX_CURSOR_OFFSET_def\<close>)
qed

definition busy_store :: "nat \<Rightarrow> Store" where
  "busy_store n = empty_store\<lparr>st_messages := map (\<lambda>i.
     NewMessage.extend (sample_message (decimal i)) (MessageRow.fields (int i))) [0..<n]\<rparr>"

lemma busy_store:
  "st_up (busy_store n)" "\<forall>m \<in> set (st_messages (busy_store n)). 0 \<le> m_rowid m"
  "length (store_rows (busy_store n) ''k'') = n"
  by (simp_all add: busy_store_def empty_store_def store_rows_def sample_message_def NewMessage.extend_def
      MessageRow.fields_def visible_folders_def filter_map comp_def del: upt_rec_numeral)

definition one_alias :: ConversationAliases where
  "one_alias = record_alias ''k'' ''id'' ConversationAliases_default"

lemma one_alias: "ConversationAliases_key_for one_alias ''id'' = Some ''k''"
  by (simp add: one_alias_def record_alias_def ConversationAliases_key_for_def)

theorem message_pages_complete_witness:
  "follow_pages (message_listing (Imsg (Some (busy_store 300))) (Mutex False one_alias) ''id'' 100)
     (Suc (length (store_rows (busy_store 300) ''k''))) None =
   Some (Ok (map (\<lambda>row. message_item (stored_message row)) (store_rows (busy_store 300) ''k'')))"
  by (rule message_pages_complete [OF busy_store(1,2) one_alias])
    (simp_all add: busy_store(3) page_limit_def MAX_PAGE_SIZE_def)

theorem long_conversation_dead_end_witness:
  "\<exists>items next_cursor.
    message_listing (Imsg (Some (busy_store 70000))) (Mutex False one_alias) ''id'' 50
      (Some (PageCursor_encode (PageCursor 65500))) = Ok (items, Some next_cursor) \<and>
    message_listing (Imsg (Some (busy_store 70000))) (Mutex False one_alias) ''id'' 50 (Some next_cursor) =
      Err UNPROCESSABLE_ENTITY"
  by (rule long_conversation_dead_end [OF busy_store(1,2) one_alias])
    (simp_all add: busy_store(3) page_limit_def MAX_PAGE_SIZE_def)

section \<open>The conversation list\<close>

definition conversation_listing ::
  "StoredConversation list \<Rightarrow> nat \<Rightarrow> string option \<Rightarrow> (StoredConversation list \<times> string option, StatusCode) result" where
  "conversation_listing rows limit cursor =
     result_bind (map_err conversation_status (PageCursor_parse cursor)) (\<lambda>c.
       let items = conversation_slice rows c limit
       in Ok (items, next_page c (conversation_stop rows c limit < length rows) (length items)))"

lemma conversation_slice_rows:
  "conversation_slice rows c limit = take limit (drop (cursor_offset c) rows)"
  "conversation_stop rows c limit < length rows \<longleftrightarrow> cursor_offset c + limit < length rows"
proof -
  let ?o = "cursor_offset c"
  show "conversation_slice rows c limit = take limit (drop ?o rows)"
    by (cases "?o \<le> length rows"; cases "?o + limit \<le> length rows")
      (auto simp: conversation_slice_def conversation_stop_def conversation_start_def min_def)
  show "conversation_stop rows c limit < length rows \<longleftrightarrow> ?o + limit < length rows"
    by (auto simp: conversation_stop_def conversation_start_def min_def)
qed

interpretation conversation_pages: cursor_pager "conversation_listing rows" rows MAX_CURSOR_OFFSET True for rows
  by unfold_locales
    (auto simp: conversation_listing_def conversation_slice_rows Let_def dest: parse_cursor_Ok)

text \<open>What is shown of a row under its identifier.\<close>

definition shows_row :: "ConversationAliases \<Rightarrow> StoredConversation \<Rightarrow> ConversationItem \<Rightarrow> bool" where
  "shows_row aliases row item \<longleftrightarrow>
     ConversationAliases_key_for aliases (ci_conversation_id item) = Some (sv_conversation_key row) \<and>
     (ci_can_reply item \<longleftrightarrow> sv_participant_count row \<le> 1 \<and> \<not> sv_is_ancs_group row \<and> \<not> sv_identity_conflict row) \<and>
     (ci_kind item = Private \<longleftrightarrow> ci_can_reply item) \<and> ci_reply_supported item = ci_can_reply item \<and>
     ci_display_address item = sv_display_address row \<and> ci_message_count item = sv_message_count row"

lemma shows_row_item:
  "al_id_to_key a ident = Some (sv_conversation_key row) \<Longrightarrow> shows_row a row (conversation_item ident row name)"
  by (auto simp: shows_row_def conversation_item_def conversation_kind_def ConversationAliases_key_for_def Let_def)

lemma alias_request_key_for [simp]: "alias_request_key (alias_for row) = sv_conversation_key row"
  by (simp add: alias_for_def)

lemma conversation_items_show:
  assumes "alias_ok (snd s)" and "conversation_items fill rows s = (Ok items, s')"
  shows "alias_ok (snd s') \<and> alias_le (snd s) (snd s') \<and> list_all2 (shows_row (snd s')) (map fst rows) items"
  using assms
proof (induction fill rows s arbitrary: items s' rule: conversation_items.induct)
  case (1 fill s)
  then show ?case by simp
next
  case (2 fill row name rows s)
  obtain ident s1 where a: "alias_request_run fill (alias_for row) s = (Ok ident, s1)"
    using "2.prems"(2) by (auto split: prod.splits sum.splits)
  obtain rest where r: "conversation_items fill rows s1 = (Ok rest, s')" "items = conversation_item ident row name # rest"
    using "2.prems"(2) a by (auto split: prod.splits sum.splits)
  have 1: "alias_ok (snd s1)" "alias_le (snd s) (snd s1)" "al_id_to_key (snd s1) ident = Some (sv_conversation_key row)"
    using alias_request_answer [OF "2.prems"(1) a] by (simp_all add: alias_answer_def)
  have 2: "alias_ok (snd s')" "alias_le (snd s1) (snd s')" "list_all2 (shows_row (snd s')) (map fst rows) rest"
    using "2.IH" [OF a [symmetric] refl 1(1) r(1)] by simp_all
  have "al_id_to_key (snd s') ident = Some (sv_conversation_key row)"
    using 1(3) 2(2) by (force simp: alias_le_def map_le_def)
  then show ?case using 1 2 r(2) shows_row_item alias_le_trans by auto
qed

lemma length_display_names: "display_names joins fails store n rows = Ok names \<Longrightarrow> length names = length rows"
  by (induction rows arbitrary: n names) (auto simp: result_bind_Ok_iff)

text \<open>
  A page of the conversation list shows exactly its rows, in order, each under an identifier
  that the message route resolves to that row's conversation; a reply is offered only in a
  conversation with one other participant that is neither a group nor in conflict; and there is
  a next cursor exactly when rows remain.
\<close>

theorem conversation_page_shows_rows:
  assumes "alias_ok (mutex_data aliases)"
    and "conversation_page_of fill joins fails store threads repository query random aliases = (Ok page, random', aliases')"
  shows "\<exists>rows c limit. ConversationRepository_conversations threads repository = Ok rows \<and>
    PageCursor_parse (qq_cursor query) = Ok c \<and> page_limit (qq_limit query) = Ok limit \<and>
    list_all2 (shows_row (mutex_data aliases')) (take limit (drop (cursor_offset c) rows)) (vp_items page) \<and>
    (vp_next_cursor page = None \<longleftrightarrow> length rows \<le> cursor_offset c + limit)"
proof -
  obtain c limit rows names where ok: "PageCursor_parse (qq_cursor query) = Ok c" "page_limit (qq_limit query) = Ok limit"
      "ConversationRepository_conversations threads repository = Ok rows"
      "display_names joins fails store 0 (conversation_slice rows c limit) = Ok names"
      "lock aliases SERVICE_UNAVAILABLE = Ok (mutex_data aliases)"
    and items: "case conversation_items fill (zip (conversation_slice rows c limit) names) (random, mutex_data aliases) of
      (r, s, locked) \<Rightarrow> (\<exists>items. r = Ok items \<and> vp_items page = items) \<and> aliases' = unlock_with aliases locked \<and>
        vp_next_cursor page = next_page c (conversation_stop rows c limit < length rows) (length (vp_items page))"
    using assms(2)
    by (auto simp: conversation_page_of_def result_bind_Ok_iff map_err_Ok_iff lock_def
        split: sum.splits prod.splits if_splits)
  obtain items random1 locked where run:
    "conversation_items fill (zip (conversation_slice rows c limit) names) (random, mutex_data aliases) = (Ok items, random1, locked)"
    using items by (auto split: prod.splits)
  have "list_all2 (shows_row locked) (conversation_slice rows c limit) items"
    using conversation_items_show [OF _ run] assms(1) length_display_names [OF ok(4)] by simp
  then show ?thesis
    using ok run items conversation_slice_rows [of rows c limit]
    by (intro exI [of _ rows] exI [of _ c] exI [of _ limit]) (auto simp: next_page_def unlock_with_def)
qed

definition sample_conversation :: StoredConversation where
  "sample_conversation = \<lparr>sv_conversation_key = ''k'', sv_display_address = ''5550'', sv_participant_count = 2,
     sv_latest_unix_millis = 1, sv_message_count = 3, sv_unread_count = 0, sv_latest_outgoing_state = None,
     sv_latest_preview = ''x'', sv_latest_sender = ''5550'', sv_latest_sent = False, sv_group_title = Some ''Club'',
     sv_is_ancs_group = True, sv_identity_conflict = False\<rparr>"

definition sample_repository :: ConversationRepository where
  "sample_repository = InMemory \<lparr>im_conversations = Mutex False [sample_conversation], im_messages = Mutex False []\<rparr>"

theorem conversation_page_shows_rows_witness:
  "\<exists>page r aliases. conversation_page_of zero_random True (\<lambda>_. False) ContactStore_in_memory (\<lambda>s. (Ok [], s))
       sample_repository \<lparr>qq_cursor = None, qq_limit = None\<rparr> 0 (Mutex False ConversationAliases_default) =
       (Ok page, r, aliases) \<and> list_all2 (shows_row (mutex_data aliases)) [sample_conversation] (vp_items page)"
proof -
  obtain page r aliases where run: "conversation_page_of zero_random True (\<lambda>_. False) ContactStore_in_memory
      (\<lambda>s. (Ok [], s)) sample_repository \<lparr>qq_cursor = None, qq_limit = None\<rparr> 0
      (Mutex False ConversationAliases_default) = (Ok page, r, aliases)"
    by (simp add: conversation_page_of_def PageCursor_parse_def page_limit_def DEFAULT_PAGE_SIZE_def MAX_PAGE_SIZE_def
        sample_repository_def ConversationRepository_conversations_def InMemory_conversations_def lock_def
        conversation_slice_rows sample_conversation_def alias_for_def ConversationAliases_expose_stable_id_def
        ConversationAliases_default_def)
  have "alias_ok (mutex_data (Mutex False ConversationAliases_default))"
    by (simp add: alias_ok_def ConversationAliases_default_def)
  from conversation_page_shows_rows [OF this run] show ?thesis
    using run by (auto simp: sample_repository_def ConversationRepository_conversations_def InMemory_conversations_def
        lock_def PageCursor_parse_def page_limit_def DEFAULT_PAGE_SIZE_def MAX_PAGE_SIZE_def)
qed

end
