(* ===== verification/Api_Commands.thy ===== *)
theory Api_Commands
  imports Api_Pages Messages Hfp_Backends Media_Stream
begin

text \<open>
  The acting half of the HTTP interface in \<open>crates/analogconnectd/src/lib.rs\<close>: the daemon's
  state, sending a message, call commands, the observed runtime status, and the issue and claim
  of media sessions. What a request meets outside the daemon (helper processes, busctl, PipeWire,
  the OS's randomness, the clock, whether a blocking task panics) is its \<open>DaemonEnv\<close>; what the
  daemon does there is logged in its state.
\<close>

section \<open>State and environment\<close>

text \<open>The hand-over to ANCS correlation (\<open>Ancs_Ingest\<close>) keeps its own part of the state.\<close>

record 'r AppState =
  ap_status :: SystemStatus
  ap_contact_summary :: ContactSummary
  ap_contact_store :: ContactStore
  ap_message_summary :: MessageSyncSummary
  ap_message_sync_coordinator :: "MessageSyncCoordinator option"
  ap_audio_bridge :: AudioBridge
  ap_auth_tokens :: AuthTokens
  ap_message_operations :: "MessageOperationRegistry mutex"
  ap_conversation_repository :: ConversationRepository
  ap_conversation_aliases :: "ConversationAliases mutex"
  ap_sco_teardown_watchdog :: "ScoTeardownWatchdog mutex"
  ap_mutation_limiter :: MutationLimiter
  ap_media_sessions :: MediaSystem
  ap_started_at :: nat
  ap_random :: 'r
  ap_helper_log :: "string list list"
  ap_bus_log :: "string list list"

record ('r, 'e, 'v) DaemonEnv =
  de_ct_eq :: "char ct_eq"
  de_ct_eq_bytes :: "u8 ct_eq"
  de_fill :: "('r, 'e) random_source"
  de_now :: nat
  de_helper :: helper_env
  de_bus :: bus_env
  de_bus_json :: json_reply
  de_observes_hfp :: bool
  de_observes_audio :: bool
  de_pw_dump :: "(string, unit) result"
  de_json :: "'v json_api"
  de_joins :: bool
  de_lookup_fails :: "nat \<Rightarrow> bool"
  de_threads :: "ThreadRow list db"

section \<open>Messages\<close>

record SendMessageRequest =
  sr_recipient :: string
  sr_body :: string
  sr_operation_id :: "string option"

record SendMessageResponse =
  sp_accepted :: bool
  sp_duplicate :: bool

text \<open>\<open>operation_id.map(MessageOperationId::new).transpose()\<close>.\<close>

definition operation_id_of :: "SendMessageRequest \<Rightarrow> (MessageOperationId option, StatusCode) result" where
  "operation_id_of request =
     (case sr_operation_id request of
        None \<Rightarrow> Ok None
      | Some v \<Rightarrow> result_bind (map_err (\<lambda>_. UNPROCESSABLE_ENTITY) (MessageOperationId_new v)) (\<lambda>i. Ok (Some i)))"

text \<open>
  The handler up to its await: \<open>Inr\<close> what it goes on to send, \<open>Inl\<close> the answer it gives at once.
  Another request may run before the handler goes on, or the client may go away, in which case
  the rest of the handler never runs.
\<close>

definition send_message_begin ::
  "SendMessageRequest \<Rightarrow> 'r AppState \<Rightarrow>
   (OutboundMessage \<times> MessageOperationId option, (StatusCode \<times> SendMessageResponse, StatusCode) result) result \<times> 'r AppState" where
  "send_message_begin request st =
     (case result_bind (map_err (\<lambda>_. UNPROCESSABLE_ENTITY) (OutboundMessage_new (sr_recipient request) (sr_body request)))
             (\<lambda>message. result_bind (operation_id_of request) (\<lambda>operation_id. Ok (message, operation_id))) of
        Inl e \<Rightarrow> (Err (Err e), st)
      | Inr (message, None) \<Rightarrow> (Ok (message, None), st)
      | Inr (message, Some operation_id) \<Rightarrow>
          (case lock (ap_message_operations st) INTERNAL_SERVER_ERROR of
             Inl e \<Rightarrow> (Err (Err e), st)
           | Inr operations \<Rightarrow>
               (case MessageOperationRegistry_begin operation_id operations of
                  (start, operations) \<Rightarrow>
                    let st = st\<lparr>ap_message_operations := unlock_with (ap_message_operations st) operations\<rparr>
                    in case start of
                         AcceptedDuplicate \<Rightarrow> (Err (Ok (ACCEPTED, \<lparr>sp_accepted = True, sp_duplicate = True\<rparr>)), st)
                       | InFlight \<Rightarrow> (Err (Err CONFLICT), st)
                       | MessageOperationStart.New \<Rightarrow> (Ok (message, Some operation_id), st))))"

text \<open>The blocking send; a task that panics is an internal error.\<close>

definition send_message_transport ::
  "('r, 'e, 'v) DaemonEnv \<Rightarrow> OutboundMessage \<Rightarrow> 'r AppState \<Rightarrow> (unit, StatusCode) result \<times> 'r AppState" where
  "send_message_transport env message st =
     (case ImsgMapBackend_send (de_helper env) message (ap_helper_log st) of
        (r, log) \<Rightarrow>
          (if de_joins env then map_err (\<lambda>_. BAD_GATEWAY) r else Err INTERNAL_SERVER_ERROR, st\<lparr>ap_helper_log := log\<rparr>))"

definition send_message_finish ::
  "(unit, StatusCode) result \<Rightarrow> MessageOperationId option \<Rightarrow> 'r AppState \<Rightarrow>
   (StatusCode \<times> SendMessageResponse, StatusCode) result \<times> 'r AppState" where
  "send_message_finish result operation_id st =
     (let answer = result_bind result (\<lambda>_. Ok (ACCEPTED, \<lparr>sp_accepted = True, sp_duplicate = False\<rparr>)) in
      case operation_id of
        None \<Rightarrow> (answer, st)
      | Some operation_id \<Rightarrow>
          (case lock (ap_message_operations st) INTERNAL_SERVER_ERROR of
             Inl e \<Rightarrow> (Err e, st)
           | Inr operations \<Rightarrow>
               let operations = (if is_ok result then MessageOperationRegistry_accepted operation_id operations
                                 else MessageOperationRegistry_failed operation_id operations)
               in (answer, st\<lparr>ap_message_operations := unlock_with (ap_message_operations st) operations\<rparr>)))"

definition send_message_of ::
  "('r, 'e, 'v) DaemonEnv \<Rightarrow> SendMessageRequest \<Rightarrow> 'r AppState \<Rightarrow>
   (StatusCode \<times> SendMessageResponse, StatusCode) result \<times> 'r AppState" where
  "send_message_of env request st =
     (case send_message_begin request st of
        (Inl answer, st) \<Rightarrow> (answer, st)
      | (Inr (message, operation_id), st) \<Rightarrow>
          (case send_message_transport env message st of
             (result, st) \<Rightarrow> send_message_finish result operation_id st))"

text \<open>What the two mutating JSON routes check before they act: the token, the limiter, the size, the JSON.\<close>

definition mutation_request ::
  "('r, 'e, 'v) DaemonEnv \<Rightarrow> nat \<Rightarrow> (string \<Rightarrow> 'q option) \<Rightarrow> HeaderMap \<Rightarrow> string \<Rightarrow> 'r AppState \<Rightarrow>
   ('q, StatusCode) result \<times> 'r AppState" where
  "mutation_request env max_bytes json headers body st =
     (case authorize (de_ct_eq env) (ap_auth_tokens st) headers of
        Inl e \<Rightarrow> (Err e, st)
      | Inr _ \<Rightarrow>
          (case authorize_mutation (de_now env) (ap_mutation_limiter st) of
             (allowed, limiter) \<Rightarrow>
               (result_bind allowed (\<lambda>_.
                  if max_bytes < length body then Err PAYLOAD_TOO_LARGE else ok_or (json body) BAD_REQUEST),
                st\<lparr>ap_mutation_limiter := limiter\<rparr>)))"

definition send_message ::
  "('r, 'e, 'v) DaemonEnv \<Rightarrow> (string \<Rightarrow> SendMessageRequest option) \<Rightarrow> HeaderMap \<Rightarrow> string \<Rightarrow> 'r AppState \<Rightarrow>
   (StatusCode \<times> SendMessageResponse, StatusCode) result \<times> 'r AppState" where
  "send_message env json headers body st =
     (case mutation_request env 4096 json headers body st of
        (Inl e, st) \<Rightarrow> (Err e, st)
      | (Inr request, st) \<Rightarrow> send_message_of env request st)"

definition message_summary ::
  "('r, 'e, 'v) DaemonEnv \<Rightarrow> HeaderMap \<Rightarrow> 'r AppState \<Rightarrow> (MessageSyncSummary, StatusCode) result" where
  "message_summary env headers st =
     result_bind (authorize (de_ct_eq env) (ap_auth_tokens st) headers) (\<lambda>_.
       case ap_message_sync_coordinator st of
         Some coordinator \<Rightarrow> map_err (\<lambda>_. SERVICE_UNAVAILABLE) (MessageSyncCoordinator_summary coordinator)
       | None \<Rightarrow> Ok (ap_message_summary st))"

definition contact_summary ::
  "('r, 'e, 'v) DaemonEnv \<Rightarrow> HeaderMap \<Rightarrow> 'r AppState \<Rightarrow> (ContactSummary, StatusCode) result" where
  "contact_summary env headers st =
     result_bind (authorize (de_ct_eq env) (ap_auth_tokens st) headers) (\<lambda>_. Ok (ap_contact_summary st))"

definition audio_summary ::
  "('r, 'e, 'v) DaemonEnv \<Rightarrow> HeaderMap \<Rightarrow> 'r AppState \<Rightarrow> (AudioBridgeSummary, StatusCode) result" where
  "audio_summary env headers st =
     result_bind (authorize (de_ct_eq env) (ap_auth_tokens st) headers) (\<lambda>_.
       map_err (\<lambda>_. SERVICE_UNAVAILABLE) (AudioBridge_summary (ap_audio_bridge st)))"

section \<open>Call commands\<close>

datatype CallCommandRequest = Answer | Reject | HangUp | Dial string | SendDtmf string

fun CallCommandRequest_validate :: "CallCommandRequest \<Rightarrow> (CallCommand, StatusCode) result" where
  "CallCommandRequest_validate Answer = Ok CallCommand.Answer"
| "CallCommandRequest_validate Reject = Ok CallCommand.Reject"
| "CallCommandRequest_validate HangUp = Ok CallCommand.HangUp"
| "CallCommandRequest_validate (Dial target) =
     map_err (\<lambda>_. UNPROCESSABLE_ENTITY) (result_bind (DialTarget_parse target) (\<lambda>t. Ok (CallCommand.Dial t)))"
| "CallCommandRequest_validate (SendDtmf tone) =
     (case utf8_chars tone of
        [] \<Rightarrow> Err UNPROCESSABLE_ENTITY
      | v # characters \<Rightarrow>
          if characters \<noteq> [] then Err UNPROCESSABLE_ENTITY
          else map_err (\<lambda>_. UNPROCESSABLE_ENTITY) (result_bind (DtmfTone_parse v) (\<lambda>t. Ok (CallCommand.SendDtmf t))))"

definition execute_call_command_of ::
  "('r, 'e, 'v) DaemonEnv \<Rightarrow> CallCommandRequest \<Rightarrow> 'r AppState \<Rightarrow> (StatusCode \<times> bool, StatusCode) result \<times> 'r AppState" where
  "execute_call_command_of env request st =
     (case CallCommandRequest_validate request of
        Inl e \<Rightarrow> (Err e, st)
      | Inr command \<Rightarrow>
          (case WirePlumberBackend_execute (de_bus_json env) (de_bus env) command (ap_bus_log st) of
             (r, log) \<Rightarrow>
               (if \<not> de_joins env then Err INTERNAL_SERVER_ERROR
                else result_bind (map_err (\<lambda>_. BAD_GATEWAY) r) (\<lambda>_. Ok (ACCEPTED, True)),
                st\<lparr>ap_bus_log := log\<rparr>)))"

definition execute_call_command ::
  "('r, 'e, 'v) DaemonEnv \<Rightarrow> (string \<Rightarrow> CallCommandRequest option) \<Rightarrow> HeaderMap \<Rightarrow> string \<Rightarrow> 'r AppState \<Rightarrow>
   (StatusCode \<times> bool, StatusCode) result \<times> 'r AppState" where
  "execute_call_command env json headers body st =
     (case mutation_request env 1024 json headers body st of
        (Inl e, st) \<Rightarrow> (Err e, st)
      | (Inr request, st) \<Rightarrow> execute_call_command_of env request st)"

section \<open>The runtime status\<close>

text \<open>A snapshot of a backend that is observed: a task that panics is an error without a cause.\<close>

definition joined :: "bool \<Rightarrow> ('a, 'e) result \<Rightarrow> ('a, 'e option) result" where
  "joined joins r = (if joins then map_err Some r else Err None)"

definition observe_hfp ::
  "(HfpStatusSnapshot, WirePlumberBackendError option) result \<Rightarrow> SystemStatus \<Rightarrow> AudioTransportState \<times> SystemStatus" where
  "observe_hfp snapshot status =
     (case snapshot of
        Inr s \<Rightarrow> (hs_transport s, status\<lparr>st_hfp_control := hs_control s, st_call := hs_call s\<rparr>)
      | Inl (Some WirePlumberBackendError.Unavailable) \<Rightarrow>
          (AudioTransportState.Inactive,
           status\<lparr>st_hfp_control := HfpControlState.Disconnected, st_call := CallState.Idle\<rparr>)
      | Inl _ \<Rightarrow>
          (AudioTransportState.Error,
           status\<lparr>st_hfp_control := HfpControlState.Error, st_call := CallState.Error\<rparr>))"

definition observed_audio :: "AudioTransportState \<Rightarrow> AudioTransportState option \<Rightarrow> AudioTransportState" where
  "observed_audio nodes hfp_transport =
     (if nodes = AudioTransportState.Inactive then AudioTransportState.Inactive
      else if hfp_transport = Some AudioTransportState.Inactive then AudioTransportState.Inactive
      else if nodes = AudioTransportState.ScoActive
              \<and> (hfp_transport = Some AudioTransportState.ScoActive \<or> hfp_transport = None)
      then AudioTransportState.ScoActive
      else AudioTransportState.Error)"

definition sco_stalled :: RedactedError where
  "sco_stalled = \<lparr>err_code = ''sco_teardown_stalled'', err_summary = ''call audio did not stop after the call ended''\<rparr>"

definition observe_teardown ::
  "nat \<Rightarrow> ScoTeardownWatchdog mutex \<Rightarrow> SystemStatus \<Rightarrow> SystemStatus \<times> ScoTeardownWatchdog mutex" where
  "observe_teardown now watchdog status =
     (case lock watchdog () of
        Inl _ \<Rightarrow> (status\<lparr>st_audio := AudioTransportState.Error\<rparr>, watchdog)
      | Inr w \<Rightarrow>
          (case ScoTeardownWatchdog_observe (st_call status) (st_audio status) now w of
             (observation, w) \<Rightarrow>
               let status = status\<lparr>st_audio := ob_state observation\<rparr>;
                   status = (if ob_stalled observation then status\<lparr>st_last_error := Some sco_stalled\<rparr>
                             else if (case st_last_error status of None \<Rightarrow> False
                                      | Some error \<Rightarrow> err_code error = ''sco_teardown_stalled'')
                             then status\<lparr>st_last_error := None\<rparr>
                             else status)
               in (status, unlock_with watchdog w)))"

text \<open>
  The two parts of \<open>refresh_runtime_status\<close>: the backends are observed without a lock, then what was
  observed is recorded under the write lock of the status. Other requests may run in between.
\<close>

type_synonym observation =
  "(HfpStatusSnapshot, WirePlumberBackendError option) result option \<times> (AudioTransportState, ScoNodeError option) result option"

definition observe_runtime :: "('r, 'e, 'v) DaemonEnv \<Rightarrow> 'r AppState \<Rightarrow> observation \<times> 'r AppState" where
  "observe_runtime env st =
     (let (hfp_snapshot, log) =
            (if de_observes_hfp env
             then (case WirePlumberBackend_snapshot (de_bus_json env) (de_bus env) (ap_bus_log st) of
                     (r, log) \<Rightarrow> (Some (joined (de_joins env) r), log))
             else (None, ap_bus_log st));
          audio_snapshot =
            (if de_observes_audio env
             then Some (joined (de_joins env) (PipeWireAudioStateBackend_snapshot (de_json env) (de_pw_dump env)))
             else None)
      in ((hfp_snapshot, audio_snapshot), st\<lparr>ap_bus_log := log\<rparr>))"

definition record_runtime :: "nat \<Rightarrow> observation \<Rightarrow> 'r AppState \<Rightarrow> 'r AppState" where
  "record_runtime now observation st =
     (let (hfp_snapshot, audio_snapshot) = observation;
          (hfp_transport, status) =
            (case hfp_snapshot of
               None \<Rightarrow> (None, ap_status st)
             | Some snapshot \<Rightarrow> (case observe_hfp snapshot (ap_status st) of (t, status) \<Rightarrow> (Some t, status)));
          status =
            (case audio_snapshot of
               None \<Rightarrow> status
             | Some (Inr nodes) \<Rightarrow> status\<lparr>st_audio := observed_audio nodes hfp_transport\<rparr>
             | Some (Inl _) \<Rightarrow> status\<lparr>st_audio := AudioTransportState.Error\<rparr>);
          (status, watchdog) = observe_teardown now (ap_sco_teardown_watchdog st) status
      in st\<lparr>ap_status := status, ap_sco_teardown_watchdog := watchdog\<rparr>)"

definition refresh_runtime_status :: "('r, 'e, 'v) DaemonEnv \<Rightarrow> 'r AppState \<Rightarrow> 'r AppState" where
  "refresh_runtime_status env st =
     (case observe_runtime env st of (observation, st) \<Rightarrow> record_runtime (de_now env) observation st)"

definition status_route ::
  "('r, 'e, 'v) DaemonEnv \<Rightarrow> HeaderMap \<Rightarrow> 'r AppState \<Rightarrow> (SystemStatus, StatusCode) result \<times> 'r AppState" where
  "status_route env headers st =
     (case authorize (de_ct_eq env) (ap_auth_tokens st) headers of
        Inl e \<Rightarrow> (Err e, st)
      | Inr _ \<Rightarrow> let st = refresh_runtime_status env st in (Ok (ap_status st), st))"

section \<open>Media sessions\<close>

record MediaSessionResponse =
  rs_session_id :: string
  rs_token :: string
  rs_lifetime_seconds :: nat
  rs_audio_format :: string

text \<open>
  The handler in its sections: the checks and the observation; the recording (\<open>record_runtime\<close>); and,
  after the write lock was released, the reading of the status and the issue. Other requests may
  run between them.
\<close>

definition create_audio_session_begin ::
  "('r, 'e, 'v) DaemonEnv \<Rightarrow> HeaderMap \<Rightarrow> 'r AppState \<Rightarrow> (observation, StatusCode) result \<times> 'r AppState" where
  "create_audio_session_begin env headers st =
     (case authorize (de_ct_eq env) (ap_auth_tokens st) headers of
        Inl e \<Rightarrow> (Err e, st)
      | Inr _ \<Rightarrow>
          (case authorize_mutation (de_now env) (ap_mutation_limiter st) of
             (Inl e, limiter) \<Rightarrow> (Err e, st\<lparr>ap_mutation_limiter := limiter\<rparr>)
           | (Inr _, limiter) \<Rightarrow>
               (case observe_runtime env (st\<lparr>ap_mutation_limiter := limiter\<rparr>) of (observation, st) \<Rightarrow> (Ok observation, st))))"

definition create_audio_session_finish ::
  "('r, 'e, 'v) DaemonEnv \<Rightarrow> 'r AppState \<Rightarrow>
   (StatusCode \<times> HeaderMap \<times> MediaSessionResponse, StatusCode) result \<times> 'r AppState" where
  "create_audio_session_finish env st =
     (let status = ap_status st
      in if st_call status \<noteq> CallState.Active \<or> st_audio status \<noteq> AudioTransportState.ScoActive
         then (Err CONFLICT, st)
         else case MediaSessionRegistry_issue (de_fill env) (ap_random st) (from_secs 60) (de_now env)
                     (ap_media_sessions st) of
           (r, random, media) \<Rightarrow>
             (result_bind (map_err (\<lambda>_. SERVICE_UNAVAILABLE) r) (\<lambda>enrollment.
                Ok (CREATED, private_response_headers,
                  \<lparr>rs_session_id = en_session_id enrollment, rs_token = en_token enrollment,
                   rs_lifetime_seconds = en_lifetime_seconds enrollment,
                   rs_audio_format = ''hfp_wideband''\<rparr>)),
              st\<lparr>ap_random := random, ap_media_sessions := media\<rparr>))"

definition create_audio_session ::
  "('r, 'e, 'v) DaemonEnv \<Rightarrow> HeaderMap \<Rightarrow> 'r AppState \<Rightarrow>
   (StatusCode \<times> HeaderMap \<times> MediaSessionResponse, StatusCode) result \<times> 'r AppState" where
  "create_audio_session env headers st =
     (case create_audio_session_begin env headers st of
        (Inl e, st) \<Rightarrow> (Err e, st)
      | (Inr observation, st) \<Rightarrow> create_audio_session_finish env (record_runtime (de_now env) observation st))"

definition MEDIA_SESSION_HEADER :: string where "MEDIA_SESSION_HEADER = ''x-analogconnect-session''"

definition claim_media_session ::
  "('r, 'e, 'v) DaemonEnv \<Rightarrow> HeaderMap \<Rightarrow> 'r AppState \<Rightarrow> (addr, StatusCode) result \<times> 'r AppState" where
  "claim_media_session env headers st =
     (case headers MEDIA_SESSION_HEADER of
        None \<Rightarrow> (Err UNAUTHORIZED, st)
      | Some session_id \<Rightarrow>
          (case bearer headers of
             None \<Rightarrow> (Err UNAUTHORIZED, st)
           | Some token \<Rightarrow>
               (case MediaSessionRegistry_claim (de_ct_eq_bytes env) session_id token (de_now env) (ap_media_sessions st) of
                  (r, media) \<Rightarrow> (map_err (\<lambda>_. UNAUTHORIZED) r, st\<lparr>ap_media_sessions := media\<rparr>))))"

text \<open>\<open>open_audio_stream\<close>: the claimed lease goes to the socket that runs after the upgrade.\<close>

definition open_audio_stream ::
  "('r, 'e, 'v) DaemonEnv \<Rightarrow> (LiveAudioBridge, unit) result \<Rightarrow> HeaderMap \<Rightarrow> 'r AppState \<Rightarrow>
   (MediaSocket, StatusCode) result \<times> 'r AppState" where
  "open_audio_stream env start headers st =
     (case claim_media_session env headers st of
        (r, st) \<Rightarrow>
          (result_bind r (\<lambda>lease. Ok (media_socket_start start lease (ap_media_sessions st) (ap_audio_bridge st))), st))"

section \<open>What a media session takes\<close>

lemma observe_teardown_active:
  assumes "observe_teardown now watchdog status = (status', watchdog')"
  shows "st_call status' = st_call status \<and> st_hfp_control status' = st_hfp_control status \<and>
    (st_audio status' = AudioTransportState.ScoActive \<longrightarrow> st_audio status = AudioTransportState.ScoActive \<and>
       \<not> (st_call status = CallState.Idle \<or> st_call status = CallState.Ended))"
  using assms
  by (auto simp: observe_teardown_def ScoTeardownWatchdog_observe_def sco_inconsistent_def Let_def
      split: sum.splits if_splits option.splits)

text \<open>An observation of both backends that shows a live call.\<close>

definition observed_both :: "observation \<Rightarrow> bool" where
  "observed_both ob \<longleftrightarrow> fst ob \<noteq> None \<and> snd ob \<noteq> None"

definition observed_live :: "observation \<Rightarrow> bool" where
  "observed_live ob \<longleftrightarrow> (\<exists>s. fst ob = Some (Ok s) \<and> hs_call s = CallState.Active \<and>
     hs_transport s = AudioTransportState.ScoActive) \<and> snd ob = Some (Ok AudioTransportState.ScoActive)"

lemma observed_audio_active:
  "observed_audio nodes (Some t) = AudioTransportState.ScoActive \<longleftrightarrow>
     nodes = AudioTransportState.ScoActive \<and> t = AudioTransportState.ScoActive"
  by (auto simp: observed_audio_def)

lemma recorded_status:
  "ap_status (record_runtime now (Some hfp, Some nodes) st) = fst (observe_teardown now (ap_sco_teardown_watchdog st)
    (case observe_hfp hfp (ap_status st) of (t, status) \<Rightarrow>
       status\<lparr>st_audio := (case nodes of Inr nodes \<Rightarrow> observed_audio nodes (Some t) | Inl _ \<Rightarrow> AudioTransportState.Error)\<rparr>))"
  by (cases nodes) (simp_all add: record_runtime_def case_prod_unfold Let_def)

lemma recorded_active:
  assumes "observed_both ob"
    and "st_call (ap_status (record_runtime now ob st)) = CallState.Active"
    and "st_audio (ap_status (record_runtime now ob st)) = AudioTransportState.ScoActive"
  shows "observed_live ob"
proof -
  obtain hfp nodes where ob: "ob = (Some hfp, Some nodes)" using assms(1) by (cases ob) (auto simp: observed_both_def)
  obtain t status where t: "observe_hfp hfp (ap_status st) = (t, status)" by (rule prod.exhaust)
  let ?status = "status\<lparr>st_audio := (case nodes of Inr nodes \<Rightarrow> observed_audio nodes (Some t) | Inl _ \<Rightarrow> AudioTransportState.Error)\<rparr>"
  obtain status' w where o: "observe_teardown now (ap_sco_teardown_watchdog st) ?status = (status', w)" by (rule prod.exhaust)
  have s: "ap_status (record_runtime now ob st) = status'" using recorded_status [of now hfp nodes st] t o ob by simp
  then have c: "st_call status = CallState.Active" and a: "st_audio ?status = AudioTransportState.ScoActive"
    using observe_teardown_active [OF o] assms(2,3) by simp_all
  moreover have "nodes = Ok AudioTransportState.ScoActive" "t = AudioTransportState.ScoActive"
    using a by (auto simp: observed_audio_active split: sum.splits)
  moreover from this t c have "\<exists>s. hfp = Ok s \<and> hs_transport s = t \<and> hs_call s = CallState.Active"
    by (auto simp: observe_hfp_def split: sum.splits option.splits WirePlumberBackendError.splits)
  ultimately show ?thesis using ob by (auto simp: observed_live_def)
qed

lemma joined_Ok: "joined j r = Ok a \<longleftrightarrow> j \<and> r = Ok a"
  by (auto simp: joined_def map_err_Ok_iff)

lemma observed_live_now:
  assumes "observe_runtime env st = (ob, st')" and "observed_live ob"
  shows "(\<exists>s log. WirePlumberBackend_snapshot (de_bus_json env) (de_bus env) (ap_bus_log st) = (Ok s, log) \<and>
      hs_call s = CallState.Active \<and> hs_transport s = AudioTransportState.ScoActive) \<and>
    (\<exists>pair. ScoNodeLocator_locate (de_json env) (de_pw_dump env) = Ok pair)"
  using assms
  by (auto simp: observe_runtime_def observed_live_def joined_Ok PipeWireAudioStateBackend_snapshot_def
      split: prod.splits if_splits sum.splits ScoNodeError.splits)

text \<open>
  What other requests and tasks do meanwhile: of the status they change nothing but by recording
  what they have observed, at whatever time; the list holds these observations.
\<close>

inductive meanwhile :: "'r AppState \<Rightarrow> observation list \<Rightarrow> 'r AppState \<Rightarrow> bool" where
  nothing: "meanwhile st [] st"
| other: "meanwhile st obs st' \<Longrightarrow> ap_status st'' = ap_status st' \<Longrightarrow> meanwhile st obs st''"
| recorded: "meanwhile st obs st' \<Longrightarrow> meanwhile st (obs @ [ob]) (record_runtime now ob st')"

lemma meanwhile_live:
  assumes "meanwhile st obs st'" and "\<forall>ob \<in> set obs. observed_both ob"
    and "st_call (ap_status st') = CallState.Active" and "st_audio (ap_status st') = AudioTransportState.ScoActive"
    and "st = record_runtime now ob st0" and "observed_both ob"
  shows "observed_live (last (ob # obs))"
  using assms
proof (induction rule: meanwhile.induct)
  case (nothing st)
  then show ?case using recorded_active [of ob now st0] by simp
next
  case (recorded st obs st' ob now)
  then show ?case using recorded_active [of ob now st'] by simp
qed simp

text \<open>The new session of an issue: its identifier and token are the bytes just drawn.\<close>

lemma issued_fresh:
  assumes "MediaSessionRegistry_issue fill random (from_secs 60) now s = (Ok en, random', s')" and "fills_buffer fill"
  shows "\<exists>entropy. fill random ENTROPY_BYTES = (Ok entropy, random') \<and> length entropy = ENTROPY_BYTES \<and>
    en_session_id en = encode_hex (take SESSION_ID_BYTES entropy) \<and> en_token en = encode_hex (drop SESSION_ID_BYTES entropy) \<and>
    en_lifetime_seconds en = 60 \<and>
    mutex_data (ms_active s') = Some \<lparr>as_session_id = take SESSION_ID_BYTES entropy, as_grant = length (ms_heap s)\<rparr> \<and>
    length (ms_heap s') = length (ms_heap s) + 1 \<and>
    (\<forall>x. mutex_data (ms_active s) = Some x \<and> as_grant x < length (ms_heap s) \<longrightarrow> gr_revoked (ms_heap s' ! as_grant x)) \<and>
    ((\<forall>x. mutex_data (ms_active s) = Some x \<longrightarrow> as_grant x < length (ms_heap s)) \<longrightarrow>
       ms_heap s' ! length (ms_heap s) = \<lparr>gr_token = drop SESSION_ID_BYTES entropy, gr_expires_at = now + from_secs 60,
         gr_revoked = False, gr_claimed = False\<rparr>)"
proof -
  obtain entropy where e: "fill random ENTROPY_BYTES = (Ok entropy, random')"
    using assms(1) by (auto simp: MediaSessionRegistry_issue_def MediaSessionGrant_issue_def Let_def
        split: sum.splits prod.splits if_splits)
  have len: "length entropy = ENTROPY_BYTES" using assms(2) e unfolding fills_buffer_def by blast
  then have "decode_hex SESSION_ID_BYTES (encode_hex (take SESSION_ID_BYTES entropy)) = (take SESSION_ID_BYTES entropy, True)"
    by (intro decode_encode_hex) (simp add: ENTROPY_BYTES_def)
  then show ?thesis
    using assms(1) e len
    by (auto simp: MediaSessionRegistry_issue_def MediaSessionGrant_issue_def MediaSessionGrant_revoke_def update_grant_def
        lock_def unlock_with_def as_secs_def from_secs_def nth_append nth_list_update Let_def split: if_splits option.splits)
qed

text \<open>
  C6: A media session is issued only for a call that was observed live. The handler checks the bearer
  token and the limiter, observes the backends, records what it saw, and reads the status again
  after it released its lock; whatever other requests and tasks do in between, a session is issued only when the
  last observation recorded up to that reading, which is the request's own unless another one was recorded
  after it, saw WirePlumber report the call active with its transport active and the SCO audio nodes
  active. When it is the request's own, the bus gave that answer in this request and PipeWire showed
  exactly one SCO source and a different SCO sink. Anything else, a failing or panicking observer
  included, is refused. What is answered is fresh: identifier and token are the bytes drawn in
  this request, they name a new unclaimed grant of 60 seconds, and the previous one is revoked.
\<close>

theorem media_session_requires_live_call:
  assumes "de_observes_hfp env" and "de_observes_audio env" and "fills_buffer (de_fill env')"
    and "\<forall>x. mutex_data (ms_active (ap_media_sessions st3)) = Some x \<longrightarrow> as_grant x < length (ms_heap (ap_media_sessions st3))"
    and "create_audio_session_begin env headers st = (Ok ob, st1)"
    and "meanwhile st1 earlier st2"
    and "meanwhile (record_runtime now ob st2) later st3" and "\<forall>ob \<in> set later. observed_both ob"
    and "create_audio_session_finish env' st3 = (Ok (code, private, response), st4)"
  shows "authorize (de_ct_eq env) (ap_auth_tokens st) headers = Ok () \<and>
    fst (authorize_mutation (de_now env) (ap_mutation_limiter st)) = Ok () \<and>
    observed_live (last (ob # later)) \<and>
    (later = [] \<longrightarrow>
       (\<exists>s log. WirePlumberBackend_snapshot (de_bus_json env) (de_bus env) (ap_bus_log st) = (Ok s, log) \<and>
          hs_call s = CallState.Active \<and> hs_transport s = AudioTransportState.ScoActive) \<and>
       (\<exists>pair. ScoNodeLocator_locate (de_json env) (de_pw_dump env) = Ok pair)) \<and>
    code = CREATED \<and> rs_lifetime_seconds response = 60 \<and> private = private_response_headers \<and>
    (\<exists>entropy. de_fill env' (ap_random st3) ENTROPY_BYTES = (Ok entropy, ap_random st4) \<and>
       rs_session_id response = encode_hex (take SESSION_ID_BYTES entropy) \<and>
       rs_token response = encode_hex (drop SESSION_ID_BYTES entropy) \<and>
       mutex_data (ms_active (ap_media_sessions st4)) =
         Some \<lparr>as_session_id = take SESSION_ID_BYTES entropy, as_grant = length (ms_heap (ap_media_sessions st3))\<rparr> \<and>
       ms_heap (ap_media_sessions st4) ! length (ms_heap (ap_media_sessions st3)) =
         \<lparr>gr_token = drop SESSION_ID_BYTES entropy, gr_expires_at = de_now env' + from_secs 60,
          gr_revoked = False, gr_claimed = False\<rparr>) \<and>
    (\<forall>x. mutex_data (ms_active (ap_media_sessions st3)) = Some x \<longrightarrow>
       gr_revoked (ms_heap (ap_media_sessions st4) ! as_grant x))"
proof -
  obtain limiter where l: "authorize_mutation (de_now env) (ap_mutation_limiter st) = (Ok (), limiter)"
    and auth: "authorize (de_ct_eq env) (ap_auth_tokens st) headers = Ok ()"
    using assms(5) by (auto simp: create_audio_session_begin_def split: sum.splits prod.splits)
  have ob: "observe_runtime env (st\<lparr>ap_mutation_limiter := limiter\<rparr>) = (ob, st1)"
    using assms(5) l auth by (auto simp: create_audio_session_begin_def split: prod.splits)
  then have "observed_both ob" using assms(1,2) by (auto simp: observe_runtime_def observed_both_def split: prod.splits)
  moreover have status: "st_call (ap_status st3) = CallState.Active" "st_audio (ap_status st3) = AudioTransportState.ScoActive"
    using assms(9) by (auto simp: create_audio_session_finish_def Let_def split: if_splits)
  ultimately have live: "observed_live (last (ob # later))"
    using meanwhile_live [OF assms(7,8) _ _ refl] by blast
  obtain en random media where issued: "MediaSessionRegistry_issue (de_fill env') (ap_random st3) (from_secs 60) (de_now env')
      (ap_media_sessions st3) = (Ok en, random, media)" "st4 = st3\<lparr>ap_random := random, ap_media_sessions := media\<rparr>"
    and res: "code = CREATED" "private = private_response_headers" "rs_lifetime_seconds response = en_lifetime_seconds en"
      "rs_session_id response = en_session_id en" "rs_token response = en_token en"
    using assms(9) status
    by (auto simp: create_audio_session_finish_def Let_def result_bind_Ok_iff map_err_Ok_iff split: prod.splits)
  note fresh = issued_fresh [OF issued(1) assms(3)]
  have own: "later = [] \<Longrightarrow> observed_live ob" using live by simp
  show ?thesis
    using auth l live observed_live_now [OF ob] own res fresh assms(4) issued(2) by auto
qed

definition active_bus :: bus_env where
  "active_bus log args = (if args = objects_request then Ok ''objects''
     else if hd args = ''--json=short'' then Ok ''calls'' else Ok ''s \"active\"'')"

definition sample_env :: "(unit, unit, sample_value) DaemonEnv" where
  "sample_env = \<lparr>de_ct_eq = (\<lambda>a b. a = b), de_ct_eq_bytes = (\<lambda>a b. a = b), de_fill = zero_fill, de_now = 0,
     de_helper = (\<lambda>_ _. Some True), de_bus = active_bus, de_bus_json = sample_json,
     de_observes_hfp = True, de_observes_audio = True, de_pw_dump = Ok [], de_json = sample_json_api,
     de_joins = True, de_lookup_fails = (\<lambda>_. False), de_threads = (\<lambda>s. (Ok [], s))\<rparr>"

definition sample_token :: string where "sample_token = replicate 32 CHR ''k''"

definition sample_headers :: HeaderMap where
  "sample_headers = [''authorization'' \<mapsto> ''Bearer '' @ sample_token]"

definition sample_state :: "unit AppState" where
  "sample_state = \<lparr>ap_status = SystemStatus_default,
     ap_contact_summary = \<lparr>cs_contact_count = 0, cs_phone_count = 0, cs_last_sync_unix_seconds = None\<rparr>,
     ap_contact_store = ContactStore_in_memory, ap_message_summary = MessageSyncSummary_default,
     ap_message_sync_coordinator = None, ap_audio_bridge = sample_bridge,
     ap_auth_tokens = AuthTokens_new (AuthToken sample_token),
     ap_message_operations = Mutex False (MessageOperationRegistry_new 256),
     ap_conversation_repository = sample_repository,
     ap_conversation_aliases = Mutex False ConversationAliases_default,
     ap_sco_teardown_watchdog = Mutex False (ScoTeardownWatchdog_new (from_secs 10)),
     ap_mutation_limiter = MutationLimiter_new 10 (from_secs 60) 0, ap_media_sessions = MediaSystem_new,
     ap_started_at = 0, ap_random = (), ap_helper_log = [], ap_bus_log = []\<rparr>"

lemma sample_authorized: "authorize (de_ct_eq sample_env) (ap_auth_tokens sample_state) sample_headers = Ok ()"
  by (simp add: authorize_def bearer_def sample_headers_def sample_env_def sample_state_def strip_prefix_def
      AuthTokens_matches_def AuthTokens_new_def AuthToken_matches_def Let_def)

lemma sample_allowed:
  obtains l where "authorize_mutation (de_now sample_env) (ap_mutation_limiter sample_state) = (Ok (), l)"
  by (simp add: authorize_mutation_def sample_env_def sample_state_def MutationLimiter_new_def
      MutationLimiter_allow_at_def from_secs_def Let_def)

lemma sample_snapshot_active:
  "fst (WirePlumberBackend_snapshot sample_json active_bus []) =
     Ok \<lparr>hs_control = HfpControlState.SlcReady, hs_call = CallState.Active, hs_transport = AudioTransportState.ScoActive\<rparr>"
  by code_simp

lemma sample_fields:
  "ap_status sample_state = SystemStatus_default" "ap_bus_log sample_state = []"
  "ap_sco_teardown_watchdog sample_state = Mutex False (ScoTeardownWatchdog_new (from_secs 10))"
  "de_observes_hfp sample_env" "de_observes_audio sample_env" "de_joins sample_env" "de_now sample_env = 0"
  "de_bus sample_env = active_bus" "de_bus_json sample_env = sample_json" "de_pw_dump sample_env = Ok []"
  "de_json sample_env = sample_json_api"
  by (simp_all add: sample_state_def sample_env_def)

lemma sample_observed:
  "observe_runtime sample_env (sample_state\<lparr>ap_mutation_limiter := l\<rparr>) =
     ((Some (Ok \<lparr>hs_control = HfpControlState.SlcReady, hs_call = CallState.Active, hs_transport = AudioTransportState.ScoActive\<rparr>),
       Some (Ok AudioTransportState.ScoActive)),
      sample_state\<lparr>ap_mutation_limiter := l, ap_bus_log := snd (WirePlumberBackend_snapshot sample_json active_bus [])\<rparr>)"
  using sample_snapshot_active sample_locate
  by (cases "WirePlumberBackend_snapshot sample_json active_bus []")
    (simp add: observe_runtime_def sample_fields joined_def PipeWireAudioStateBackend_snapshot_def)

theorem media_session_requires_live_call_witness:
  "\<exists>ob st1 response st4. create_audio_session_begin sample_env sample_headers sample_state = (Ok ob, st1) \<and>
     create_audio_session_finish sample_env (record_runtime 0 ob st1) = (Ok (CREATED, private_response_headers, response), st4) \<and>
     rs_token response = encode_hex (replicate TOKEN_BYTES 0) \<and> rs_lifetime_seconds response = 60"
proof -
  obtain l where l: "authorize_mutation (de_now sample_env) (ap_mutation_limiter sample_state) = (Ok (), l)"
    by (rule sample_allowed)
  obtain ob st1 where ob: "observe_runtime sample_env (sample_state\<lparr>ap_mutation_limiter := l\<rparr>) = (ob, st1)"
    by (rule prod.exhaust)
  have started: "create_audio_session_begin sample_env sample_headers sample_state = (Ok ob, st1)"
    using sample_authorized l ob by (simp add: create_audio_session_begin_def)
  let ?st = "record_runtime 0 ob st1"
  have same: "ap_media_sessions ?st = MediaSystem_new" "ap_random ?st = ()"
    using ob sample_observed [of l] by (auto simp: record_runtime_def sample_state_def Let_def split: prod.splits)
  have status: "st_call (ap_status ?st) = CallState.Active" "st_audio (ap_status ?st) = AudioTransportState.ScoActive"
    using ob sample_observed [of l]
    by (auto simp: recorded_status sample_fields observe_hfp_def observed_audio_def observe_teardown_def
        ScoTeardownWatchdog_observe_def sco_inconsistent_def Let_def)
  have env: "de_fill sample_env = zero_fill" "de_now sample_env = 0" by (simp_all add: sample_env_def)
  obtain en s' where "MediaSessionRegistry_issue zero_fill () (from_secs 60) 0 MediaSystem_new = (Ok en, (), s')"
    by (rule zero_issue)
  then obtain response st4 where fin: "create_audio_session_finish sample_env ?st =
      (Ok (CREATED, private_response_headers, response), st4)"
    using same status env by (simp add: create_audio_session_finish_def)
  have "de_observes_hfp sample_env" "de_observes_audio sample_env" "fills_buffer (de_fill sample_env)"
    using zero_fill_ok by (simp_all add: sample_env_def)
  from media_session_requires_live_call [OF this _ started meanwhile.nothing meanwhile.nothing _ fin]
  obtain entropy where "zero_fill () ENTROPY_BYTES = (Ok entropy, ap_random st4)"
    "rs_token response = encode_hex (drop SESSION_ID_BYTES entropy)" "rs_lifetime_seconds response = 60"
    using same env by (auto simp: MediaSystem_new_def)
  moreover from this(1) have "drop SESSION_ID_BYTES entropy = replicate TOKEN_BYTES 0"
    by (auto simp: zero_fill_def ENTROPY_BYTES_def)
  ultimately show ?thesis
    using started fin by (intro exI [of _ ob] exI [of _ st1] exI [of _ response] exI [of _ st4]) simp
qed

section \<open>Sending once\<close>

definition operations_of :: "'r AppState \<Rightarrow> MessageOperationRegistry" where
  "operations_of st = mutex_data (ap_message_operations st)"

definition operations_ok :: "'r AppState \<Rightarrow> bool" where
  "operations_ok st \<longleftrightarrow> \<not> poisoned (ap_message_operations st) \<and> registry_inv (operations_of st)"

lemma lock_operations: "operations_ok st \<Longrightarrow> lock (ap_message_operations st) e = Ok (operations_of st)"
  by (simp add: operations_ok_def operations_of_def lock_def)

text \<open>A request as the registry sees it.\<close>

lemma send_message_registry:
  assumes "operations_ok st" and "send_message_of env request st = (r, st')"
  shows "\<exists>es. operations_of st' = fold registry_step es (operations_of st) \<and> \<not> poisoned (ap_message_operations st') \<and>
    (\<forall>i. i \<in> or_in_flight (operations_of st) \<longrightarrow> Accepted i \<notin> set es \<and> Fail i \<notin> set es)"
proof (cases "send_message_begin request st")
  case (Pair b st1)
  have p: "\<not> poisoned (ap_message_operations st)" using assms(1) by (simp add: operations_ok_def)
  show ?thesis
  proof (cases b)
    case (Inl answer)
    then have "operations_of st' = operations_of st \<and> ap_message_operations st' = ap_message_operations st1"
      and "\<not> poisoned (ap_message_operations st1)"
      using assms Pair p
      by (auto simp: send_message_of_def send_message_begin_def MessageOperationRegistry_begin_def operations_of_def
          lock_def unlock_with_def Let_def split: sum.splits prod.splits option.splits if_splits)
    then show ?thesis by (intro exI [of _ "[]"]) simp
  next
    case (Inr m)
    obtain message operation_id where m: "m = (message, operation_id)" by (rule prod.exhaust)
    obtain result st2 where t: "send_message_transport env message st1 = (result, st2)" by (rule prod.exhaust)
    have ops: "ap_message_operations st2 = ap_message_operations st1"
      using t by (auto simp: send_message_transport_def split: prod.splits)
    have fin: "send_message_finish result operation_id st2 = (r, st')"
      using assms(2) Pair Inr m t by (simp add: send_message_of_def)
    show ?thesis
    proof (cases operation_id)
      case None
      then have "ap_message_operations st' = ap_message_operations st"
        using Pair Inr m fin ops
        by (auto simp: send_message_begin_def send_message_finish_def Let_def
            split: sum.splits prod.splits option.splits if_splits MessageOperationStart.splits)
      then show ?thesis using p by (intro exI [of _ "[]"]) (simp add: operations_of_def)
    next
      case (Some i)
      have new: "fst (MessageOperationRegistry_begin i (operations_of st)) = MessageOperationStart.New"
        "ap_message_operations st1 = Mutex False (snd (MessageOperationRegistry_begin i (operations_of st)))"
        using Pair Inr m Some p
        by (auto simp: send_message_begin_def Let_def lock_def unlock_with_def operations_of_def
            split: sum.splits prod.splits option.splits if_splits MessageOperationStart.splits)
      have "i \<notin> or_in_flight (operations_of st)"
        using new(1) by (auto simp: MessageOperationRegistry_begin_def split: if_splits)
      moreover have "operations_of st' =
          fold registry_step [Begin i, if is_ok result then Accepted i else Fail i] (operations_of st) \<and>
          \<not> poisoned (ap_message_operations st')"
        using fin Some ops new(2)
        by (auto simp: send_message_finish_def operations_of_def lock_def unlock_with_def Let_def)
      ultimately show ?thesis
        by (intro exI [of _ "[Begin i, if is_ok result then Accepted i else Fail i]"]) auto
    qed
  qed
qed

lemma send_message_operations_ok:
  "operations_ok st \<Longrightarrow> send_message_of env request st = (r, st') \<Longrightarrow> operations_ok st'"
  using send_message_registry [of st env request r st'] registry.run_inv
  by (auto simp: operations_ok_def)

definition send_all :: "(('r, 'e, 'v) DaemonEnv \<times> SendMessageRequest) list \<Rightarrow> 'r AppState \<Rightarrow> 'r AppState" where
  "send_all requests st = fold (\<lambda>(env, request) st. snd (send_message_of env request st)) requests st"

lemma in_flight_stays:
  assumes "operations_ok st" and "i \<in> or_in_flight (operations_of st)"
  shows "operations_ok (send_all requests st) \<and> i \<in> or_in_flight (operations_of (send_all requests st))"
  using assms
proof (induction requests arbitrary: st)
  case Nil
  then show ?case by (simp add: send_all_def)
next
  case (Cons q requests)
  obtain env request where q: "q = (env, request)" by (rule prod.exhaust)
  obtain r st' where s: "send_message_of env request st = (r, st')" by (rule prod.exhaust)
  obtain es where es: "operations_of st' = fold registry_step es (operations_of st)"
      "Accepted i \<notin> set es" "Fail i \<notin> set es"
    using send_message_registry [OF Cons.prems(1) s] Cons.prems(2) by blast
  have "i \<in> or_in_flight (operations_of st')"
    unfolding es(1) using Cons.prems es(2,3) by (intro in_flight_kept) (simp_all add: operations_ok_def)
  then show ?case
    using Cons.IH [OF send_message_operations_ok [OF Cons.prems(1) s]] q s by (simp add: send_all_def)
qed

lemma in_flight_refused:
  assumes "operations_ok st" and "i \<in> or_in_flight (operations_of st)"
    and "OutboundMessage_new (sr_recipient request) (sr_body request) = Ok message"
    and "operation_id_of request = Ok (Some i)"
  shows "send_message_of env request st = (Err CONFLICT, st)"
proof -
  have "i \<notin> or_accepted (operations_of st)" using assms(1,2) by (auto simp: operations_ok_def registry_inv_def)
  then have "MessageOperationRegistry_begin i (operations_of st) = (InFlight, operations_of st)"
    using assms(2) by (simp add: MessageOperationRegistry_begin_def)
  moreover have "unlock_with (ap_message_operations st) (operations_of st) = ap_message_operations st"
    using assms(1) by (cases "ap_message_operations st") (simp add: operations_ok_def operations_of_def unlock_with_def)
  ultimately show ?thesis
    using assms(3,4) lock_operations [OF assms(1), of INTERNAL_SERVER_ERROR]
    by (simp add: send_message_of_def send_message_begin_def Let_def)
qed

text \<open>
  C38: A send whose handler is dropped at its await (the client disconnects) blocks its operation
  for good: the operation stays in flight, and whatever is sent later, every retry with the same
  identifier is answered with a conflict and changes nothing, although nothing is in flight.
\<close>

theorem dropped_send_blocks_retry:
  assumes "operations_ok st" and "send_message_begin request st = (Ok (message, Some i), dropped)"
    and "OutboundMessage_new (sr_recipient retry) (sr_body retry) = Ok message'"
    and "operation_id_of retry = Ok (Some i)"
  shows "send_message_of env retry (send_all later dropped) = (Err CONFLICT, send_all later dropped)"
proof -
  have ops: "ap_message_operations dropped = Mutex False (snd (MessageOperationRegistry_begin i (operations_of st)))"
    and new: "fst (MessageOperationRegistry_begin i (operations_of st)) = MessageOperationStart.New"
    using assms(1,2)
    by (auto simp: send_message_begin_def Let_def lock_def unlock_with_def operations_ok_def operations_of_def
        split: sum.splits prod.splits option.splits if_splits MessageOperationStart.splits)
  then have "i \<in> or_in_flight (operations_of dropped)"
    by (auto simp: operations_of_def MessageOperationRegistry_begin_def split: if_splits)
  moreover have "operations_ok dropped"
    using ops registry_step_inv [of "operations_of st" "Begin i"] assms(1) by (simp add: operations_ok_def operations_of_def)
  ultimately show ?thesis using in_flight_stays in_flight_refused [OF _ _ assms(3,4)] by blast
qed

definition sample_send :: SendMessageRequest where
  "sample_send = \<lparr>sr_recipient = ''5550100'', sr_body = ''hello'', sr_operation_id = Some (replicate 32 CHR ''a'')\<rparr>"

lemma sample_send_ok:
  "OutboundMessage_new (sr_recipient sample_send) (sr_body sample_send) =
     Ok \<lparr>om_recipient = ''5550100'', om_body = ''hello''\<rparr>"
  "operation_id_of sample_send = Ok (Some (MessageOperationId (replicate 32 CHR ''a'')))"
proof -
  show "OutboundMessage_new (sr_recipient sample_send) (sr_body sample_send) = Ok \<lparr>om_recipient = ''5550100'', om_body = ''hello''\<rparr>"
    by code_simp
  have "is_ascii_hexdigit (CHR ''a'')" "to_ascii_lowercase (CHR ''a'') = CHR ''a''" by code_simp+
  then show "operation_id_of sample_send = Ok (Some (MessageOperationId (replicate 32 CHR ''a'')))"
    by (simp add: operation_id_of_def sample_send_def MessageOperationId_new_def list_all_iff)
qed

lemma sample_operations: "operations_ok sample_state"
  by (simp add: operations_ok_def operations_of_def sample_state_def registry_new_inv)

lemma sample_begin:
  obtains dropped where "send_message_begin sample_send sample_state =
    (Ok (\<lparr>om_recipient = ''5550100'', om_body = ''hello''\<rparr>, Some (MessageOperationId (replicate 32 CHR ''a''))), dropped)"
  using sample_send_ok
  by (simp add: send_message_begin_def sample_state_def lock_def MessageOperationRegistry_new_def
      MessageOperationRegistry_begin_def Let_def)

theorem dropped_send_blocks_retry_witness:
  "\<exists>dropped. fst (send_message_begin sample_send sample_state) =
       Ok (\<lparr>om_recipient = ''5550100'', om_body = ''hello''\<rparr>, Some (MessageOperationId (replicate 32 CHR ''a''))) \<and>
     send_message_of sample_env sample_send (send_all [(sample_env, sample_send)] dropped) =
       (Err CONFLICT, send_all [(sample_env, sample_send)] dropped)"
proof -
  obtain dropped where d: "send_message_begin sample_send sample_state =
    (Ok (\<lparr>om_recipient = ''5550100'', om_body = ''hello''\<rparr>, Some (MessageOperationId (replicate 32 CHR ''a''))), dropped)"
    by (rule sample_begin)
  then show ?thesis
    using dropped_send_blocks_retry [OF sample_operations d sample_send_ok] by (intro exI [of _ dropped]) simp
qed

lemma fresh_send:
  assumes "operations_ok st" and "i \<notin> or_accepted (operations_of st)" and "i \<notin> or_in_flight (operations_of st)"
    and "OutboundMessage_new (sr_recipient request) (sr_body request) = Ok message"
    and "operation_id_of request = Ok (Some i)" and "send_message_of env request st = (r, st1)"
  shows "ap_helper_log st1 = ap_helper_log st @ [[''send'', om_recipient message, om_body message]] \<and>
    operations_of st1 = fold registry_step [Begin i, if is_ok r then Accepted i else Fail i] (operations_of st)"
proof -
  obtain ops where b: "MessageOperationRegistry_begin i (operations_of st) = (MessageOperationStart.New, ops)"
    using assms(2,3) by (simp add: MessageOperationRegistry_begin_def)
  then have ops: "ops = registry_step (Begin i) (operations_of st)" by simp
  obtain st0 where s0: "send_message_begin request st = (Ok (message, Some i), st0)"
    "st0 = st\<lparr>ap_message_operations := Mutex False ops\<rparr>"
    using assms(1,4,5) b lock_operations [OF assms(1), of INTERNAL_SERVER_ERROR]
    by (cases "ap_message_operations st") (auto simp: send_message_begin_def operations_ok_def unlock_with_def Let_def)
  obtain result st2 where t: "send_message_transport env message st0 = (result, st2)" by (rule prod.exhaust)
  have st2: "st2 = st0\<lparr>ap_helper_log := ap_helper_log st0 @ [[''send'', om_recipient message, om_body message]]\<rparr>"
    using t by (auto simp: send_message_transport_def ImsgMapBackend_send_def Let_def)
  have fin: "send_message_finish result (Some i) st2 = (r, st1)" using assms(6) s0 t by (simp add: send_message_of_def)
  have "is_ok r = is_ok result"
    using fin s0(2) st2 by (cases result) (auto simp: send_message_finish_def lock_def Let_def)
  then show ?thesis
    using fin s0(2) st2 ops by (auto simp: send_message_finish_def lock_def unlock_with_def operations_of_def Let_def)
qed

lemma just_accepted:
  assumes "registry_inv r" and "i \<notin> or_accepted r"
  shows "i \<in> or_accepted (registry_step (Accepted i) r)"
proof -
  have "0 < or_capacity r" using assms(1) by (simp add: registry_inv_def)
  moreover have "registry_inv (registry_step (Accepted i) r)" by (rule registry_step_inv [OF assms(1)])
  moreover have "i \<in> set (evict (or_capacity r) (or_accepted_order r @ [i]))"
    using \<open>0 < or_capacity r\<close> by (auto simp: evict_drop drop_append)
  ultimately show ?thesis
    using registry_accepted_state [OF assms(1), of i] assms(2) by (simp add: registry_inv_def Let_def)
qed

text \<open>
  C16: The outcome of a send decides its retry: a new operation runs the helper once, with the
  message of the request; when it was accepted, the retry is answered as a duplicate and neither
  runs the helper nor changes anything; when it failed, in whatever way, the retry runs it again.
\<close>

theorem outcome_decides_retry:
  assumes "operations_ok st" and "i \<notin> or_accepted (operations_of st)" and "i \<notin> or_in_flight (operations_of st)"
    and "OutboundMessage_new (sr_recipient request) (sr_body request) = Ok message"
    and "operation_id_of request = Ok (Some i)" and "send_message_of env request st = (r, st1)"
  shows "ap_helper_log st1 = ap_helper_log st @ [[''send'', om_recipient message, om_body message]] \<and>
    (if is_ok r
     then send_message_of env' request st1 = (Ok (ACCEPTED, \<lparr>sp_accepted = True, sp_duplicate = True\<rparr>), st1)
     else ap_helper_log (snd (send_message_of env' request st1)) =
       ap_helper_log st1 @ [[''send'', om_recipient message, om_body message]])"
proof -
  note 1 = fresh_send [OF assms]
  let ?r0 = "registry_step (Begin i) (operations_of st)"
  have ok: "operations_ok st1" by (rule send_message_operations_ok [OF assms(1,6)])
  have r0: "registry_inv ?r0" "i \<notin> or_accepted ?r0"
    using registry_step_inv [of "operations_of st" "Begin i"] assms(1-3)
    by (auto simp: operations_ok_def MessageOperationRegistry_begin_def)
  show ?thesis
  proof (cases "is_ok r")
    case True
    then have "i \<in> or_accepted (operations_of st1)" using just_accepted [OF r0] 1 by simp
    moreover have "unlock_with (ap_message_operations st1) (operations_of st1) = ap_message_operations st1"
      using ok by (cases "ap_message_operations st1") (simp add: operations_ok_def operations_of_def unlock_with_def)
    ultimately show ?thesis
      using True 1 assms(4,5) lock_operations [OF ok, of INTERNAL_SERVER_ERROR]
      by (simp add: send_message_of_def send_message_begin_def MessageOperationRegistry_begin_def Let_def)
  next
    case False
    then have "i \<notin> or_accepted (operations_of st1)" "i \<notin> or_in_flight (operations_of st1)"
      using 1 r0(2) by (simp_all add: MessageOperationRegistry_failed_def)
    moreover obtain r' st2 where s2: "send_message_of env' request st1 = (r', st2)" by (rule prod.exhaust)
    ultimately show ?thesis
      using False 1 fresh_send [OF ok _ _ assms(4,5) s2] by simp
  qed
qed

theorem outcome_decides_retry_witness:
  "\<exists>st1. send_message_of sample_env sample_send sample_state =
       (Ok (ACCEPTED, \<lparr>sp_accepted = True, sp_duplicate = False\<rparr>), st1) \<and>
     send_message_of sample_env sample_send st1 = (Ok (ACCEPTED, \<lparr>sp_accepted = True, sp_duplicate = True\<rparr>), st1)"
proof -
  obtain st1 where s: "send_message_of sample_env sample_send sample_state =
      (Ok (ACCEPTED, \<lparr>sp_accepted = True, sp_duplicate = False\<rparr>), st1)"
    using sample_send_ok
    by (simp add: send_message_of_def send_message_begin_def send_message_transport_def send_message_finish_def
        sample_state_def sample_env_def ImsgMapBackend_send_def lock_def unlock_with_def MessageOperationRegistry_new_def
        MessageOperationRegistry_begin_def Let_def)
  have "MessageOperationId (replicate 32 CHR ''a'') \<notin> or_accepted (operations_of sample_state)"
    "MessageOperationId (replicate 32 CHR ''a'') \<notin> or_in_flight (operations_of sample_state)"
    by (simp_all add: operations_of_def sample_state_def MessageOperationRegistry_new_def)
  from outcome_decides_retry [OF sample_operations this sample_send_ok s, of sample_env] show ?thesis using s by auto
qed

end
