(* ===== verification/Ancs_Ingest.thy ===== *)
theory Ancs_Ingest
  imports Ancs_Groups Messages Contact_Store Conversations
begin

text \<open>
  From an ANCS notification to the message store (\<open>ingest_ancs_metadata\<close>,
  \<open>correlate_recent_map_messages\<close> and \<open>apply_ancs_result\<close> in
  \<open>crates/analogconnectd/src/lib.rs\<close>): the notification goes to the correlator, new messages are
  fetched, and every recent received message that was not looked at before is correlated and the
  result applied. What the synchronisation writes into the store is a parameter.
\<close>

record IngestState =
  ig_correlator :: AncsMapCorrelator
  ig_seen_map_handles :: "string list"
  ig_coordinator :: "MessageSyncCoordinator option"
  ig_repository :: ConversationRepository

text \<open>
  What the ingestion meets: Unicode and hashing, the contact store and which lookups fail, the
  elapsed time, whether the blocking task joins, the helper's synchronisation succeeds, and what
  it stores.
\<close>

record IngestEnv =
  ie_hash :: unicode_hash
  ie_contacts :: ContactStore
  ie_lookup_fails :: "string \<Rightarrow> bool"
  ie_elapsed :: nat
  ie_joins :: bool
  ie_sync_succeeds :: bool
  ie_unix_seconds :: "u64 option"
  ie_synced :: "Store \<Rightarrow> Store"

definition apply_ancs_result :: "CorrelationResult \<Rightarrow> IngestState \<Rightarrow> (unit, unit) result \<times> IngestState" where
  "apply_ancs_result result st =
     (case ig_repository st of
        Imsg None \<Rightarrow> (Err (), st)
      | Imsg (Some store) \<Rightarrow>
          (case apply_correlation result store of
             (r, store) \<Rightarrow> (result_bind (map_err (\<lambda>_. ()) r) (\<lambda>_. Ok ()), st\<lparr>ig_repository := Imsg (Some store)\<rparr>))
      | _ \<Rightarrow> (Ok (), st))"

text \<open>\<open>synced_at.abs_diff(observed) > 30_000\<close>.\<close>

definition looked_at :: "int \<Rightarrow> MessageRow \<Rightarrow> bool" where
  "looked_at observed m \<longleftrightarrow> m_direction m = Direction.Received \<and> \<bar>m_synced_at m - observed\<bar> \<le> 30000"

definition remember_handle :: "string \<Rightarrow> string list \<Rightarrow> string list" where
  "remember_handle h seen = evict 256 (seen @ [h])"

text \<open>The loop over the messages; an error leaves it.\<close>

fun correlate_messages ::
  "IngestEnv \<Rightarrow> int \<Rightarrow> MessageRow list \<Rightarrow> IngestState \<Rightarrow> (unit, unit) result \<times> IngestState" where
  "correlate_messages env observed [] st = (Ok (), st)"
| "correlate_messages env observed (m # ms) st =
     (if \<not> looked_at observed m then correlate_messages env observed ms st
      else if m_map_handle m \<in> set (ig_seen_map_handles st) then correlate_messages env observed ms st
      else let st = st\<lparr>ig_seen_map_handles := remember_handle (m_map_handle m) (ig_seen_map_handles st)\<rparr> in
        case ContactStore_lookup_display_name (ie_lookup_fails env (m_address m)) (m_address m) (ie_contacts env) of
          Inl _ \<Rightarrow> (Err (), st)
        | Inr name \<Rightarrow>
            (case AncsMapCorrelator_correlate_map (ie_hash env)
                    \<lparr>pm_map_handle = m_map_handle m, pm_sender = m_address m,
                     pm_sender_display_name = name, pm_observed_unix_millis = m_synced_at m\<rparr>
                    (ig_correlator st) of
               (result, correlator) \<Rightarrow>
                 (case apply_ancs_result result (st\<lparr>ig_correlator := correlator\<rparr>) of
                    (Inl e, st) \<Rightarrow> (Err e, st)
                  | (Inr _, st) \<Rightarrow> correlate_messages env observed ms st)))"

definition correlate_recent_map_messages ::
  "IngestEnv \<Rightarrow> int \<Rightarrow> IngestState \<Rightarrow> (unit, unit) result \<times> IngestState" where
  "correlate_recent_map_messages env observed st =
     (case ig_repository st of
        Imsg None \<Rightarrow> (Err (), st)
      | Imsg (Some store) \<Rightarrow>
          (case Store_list_messages None False None None 64 0 store of
             (Inl _, _) \<Rightarrow> (Err (), st)
           | (Inr messages, _) \<Rightarrow> correlate_messages env observed messages st)
      | _ \<Rightarrow> (Ok (), st))"

text \<open>The store after the helper ran: it writes to the same database.\<close>

definition after_sync :: "IngestEnv \<Rightarrow> IngestState \<Rightarrow> IngestState" where
  "after_sync env st =
     (case ig_repository st of
        Imsg (Some store) \<Rightarrow> st\<lparr>ig_repository := Imsg (Some (ie_synced env store))\<rparr>
      | _ \<Rightarrow> st)"

definition notify_coordinator :: "IngestEnv \<Rightarrow> IngestState \<Rightarrow> (unit, unit) result \<times> IngestState" where
  "notify_coordinator env st =
     (case ig_coordinator st of
        None \<Rightarrow> (Ok (), st)
      | Some coordinator \<Rightarrow>
          (case MessageSyncCoordinator_notification (ie_elapsed env) ''NewMessage'' (ie_sync_succeeds env)
                  (ie_unix_seconds env) coordinator of
             (r, coordinator) \<Rightarrow>
               (if ie_joins env then map_err (\<lambda>_. ()) r else Err (),
                after_sync env (st\<lparr>ig_coordinator := Some coordinator\<rparr>))))"

definition ingest_ancs_metadata ::
  "IngestEnv \<Rightarrow> int \<Rightarrow> AncsNotificationMetadata \<Rightarrow> IngestState \<Rightarrow> (unit, unit) result \<times> IngestState" where
  "ingest_ancs_metadata env observed metadata st =
     (case AncsMapCorrelator_observe_ancs (ie_hash env)
             \<lparr>pn_notification_uid = md_uid metadata, pn_title = md_title metadata,
              pn_subtitle = md_subtitle metadata, pn_observed_unix_millis = observed\<rparr> (ig_correlator st) of
        (result, correlator) \<Rightarrow>
          let st = st\<lparr>ig_correlator := correlator\<rparr> in
          case (case result of None \<Rightarrow> (Ok (), st) | Some result \<Rightarrow> apply_ancs_result result st) of
            (Inl e, st) \<Rightarrow> (Err e, st)
          | (Inr _, st) \<Rightarrow>
              (case notify_coordinator env st of
                 (Inl e, st) \<Rightarrow> (Err e, st)
               | (Inr _, st) \<Rightarrow> correlate_recent_map_messages env observed st))"

section \<open>What ingestion keeps\<close>

definition ingest_inv :: "IngestState \<Rightarrow> bool" where
  "ingest_inv st \<longleftrightarrow> correlator_inv (ig_correlator st) \<and> length (ig_seen_map_handles st) \<le> 256 \<and>
     distinct (ig_seen_map_handles st)"

lemma apply_ancs_keeps [simp]:
  "ig_correlator (snd (apply_ancs_result r st)) = ig_correlator st"
  "ig_seen_map_handles (snd (apply_ancs_result r st)) = ig_seen_map_handles st"
  by (auto simp: apply_ancs_result_def split: ConversationRepository.splits option.splits prod.splits)

lemma notify_keeps [simp]:
  "ig_correlator (snd (notify_coordinator env st)) = ig_correlator st"
  "ig_seen_map_handles (snd (notify_coordinator env st)) = ig_seen_map_handles st"
  by (auto simp: notify_coordinator_def after_sync_def split: ConversationRepository.splits option.splits prod.splits)

lemma remember_handle:
  "h \<notin> set seen \<Longrightarrow> distinct seen \<Longrightarrow> distinct (remember_handle h seen)"
  "length (remember_handle h seen) \<le> 256"
  "h \<in> set (remember_handle h seen)"
  "length seen < 256 \<Longrightarrow> remember_handle h seen = seen @ [h]"
  by (simp_all add: remember_handle_def distinct_evict evict_last)

text \<open>One turn of the loop that correlates its message, if it goes on at all.\<close>

definition correlated :: "IngestEnv \<Rightarrow> MessageRow \<Rightarrow> IngestState \<Rightarrow> (unit, unit) result \<times> IngestState" where
  "correlated env m st =
     (let st = st\<lparr>ig_seen_map_handles := remember_handle (m_map_handle m) (ig_seen_map_handles st)\<rparr> in
        case ContactStore_lookup_display_name (ie_lookup_fails env (m_address m)) (m_address m) (ie_contacts env) of
          Inl _ \<Rightarrow> (Err (), st)
        | Inr name \<Rightarrow>
            (case AncsMapCorrelator_correlate_map (ie_hash env)
                    \<lparr>pm_map_handle = m_map_handle m, pm_sender = m_address m,
                     pm_sender_display_name = name, pm_observed_unix_millis = m_synced_at m\<rparr>
                    (ig_correlator st) of
               (result, correlator) \<Rightarrow> apply_ancs_result result (st\<lparr>ig_correlator := correlator\<rparr>)))"

lemma correlate_messages_Cons:
  "correlate_messages env observed (m # ms) st =
     (if \<not> looked_at observed m \<or> m_map_handle m \<in> set (ig_seen_map_handles st) then correlate_messages env observed ms st
      else case correlated env m st of (Inl e, st) \<Rightarrow> (Err e, st) | (Inr _, st) \<Rightarrow> correlate_messages env observed ms st)"
  by (auto simp: correlated_def Let_def split: sum.splits prod.splits)

declare correlate_messages.simps(2) [simp del]

lemma correlated_keeps:
  "ig_seen_map_handles (snd (correlated env m st)) = remember_handle (m_map_handle m) (ig_seen_map_handles st)"
  "correlator_inv (ig_correlator st) \<Longrightarrow> correlator_inv (ig_correlator (snd (correlated env m st)))"
proof -
  show "ig_seen_map_handles (snd (correlated env m st)) = remember_handle (m_map_handle m) (ig_seen_map_handles st)"
    by (auto simp: correlated_def Let_def split: sum.splits prod.splits)
  show "correlator_inv (ig_correlator st) \<Longrightarrow> correlator_inv (ig_correlator (snd (correlated env m st)))"
    using correlate_inv [of "ig_correlator st" "ie_hash env"]
    by (auto simp: correlated_def Let_def split: sum.splits prod.splits dest: arg_cong [where f = snd])
      (metis snd_conv)
qed

lemma correlated_inv:
  "ingest_inv st \<Longrightarrow> m_map_handle m \<notin> set (ig_seen_map_handles st) \<Longrightarrow> ingest_inv (snd (correlated env m st))"
  by (simp add: ingest_inv_def correlated_keeps remember_handle)

lemma correlate_messages_inv: "ingest_inv st \<Longrightarrow> ingest_inv (snd (correlate_messages env observed ms st))"
proof (induction ms arbitrary: st)
  case Nil
  then show ?case by simp
next
  case (Cons m ms)
  obtain r st1 where c: "correlated env m st = (r, st1)" by (rule prod.exhaust)
  show ?case
    using Cons c correlated_inv [OF Cons.prems, of m env] unfolding correlate_messages_Cons by (cases r) auto
qed

lemma recent_inv: "ingest_inv st \<Longrightarrow> ingest_inv (snd (correlate_recent_map_messages env observed st))"
  by (auto simp: correlate_recent_map_messages_def correlate_messages_inv
      split: ConversationRepository.splits option.splits prod.splits sum.splits)

lemma ingest_step_inv: "ingest_inv st \<Longrightarrow> ingest_inv (snd (ingest_ancs_metadata env observed metadata st))"
proof -
  assume inv: "ingest_inv st"
  let ?n = "\<lparr>pn_notification_uid = md_uid metadata, pn_title = md_title metadata,
      pn_subtitle = md_subtitle metadata, pn_observed_unix_millis = observed\<rparr>"
  obtain result c where o: "AncsMapCorrelator_observe_ancs (ie_hash env) ?n (ig_correlator st) = (result, c)"
    by (rule prod.exhaust)
  let ?st = "st\<lparr>ig_correlator := c\<rparr>"
  have 1: "ingest_inv ?st"
    using inv observe_inv [of "ig_correlator st" "ie_hash env" ?n] o by (simp add: ingest_inv_def)
  obtain r st1 where a: "(case result of None \<Rightarrow> (Ok (), ?st) | Some result \<Rightarrow> apply_ancs_result result ?st) = (r, st1)"
    by (rule prod.exhaust)
  then have "ig_correlator st1 = c \<and> ig_seen_map_handles st1 = ig_seen_map_handles st"
    using apply_ancs_keeps [of "the result" ?st] by (cases result) auto
  then have 2: "ingest_inv st1" using 1 by (simp add: ingest_inv_def)
  obtain r2 st2 where n: "notify_coordinator env st1 = (r2, st2)" by (rule prod.exhaust)
  then have 3: "ingest_inv st2" using 2 notify_keeps [of env st1] by (simp add: ingest_inv_def)
  show ?thesis
    using o a n 2 3 recent_inv [OF 3] by (cases r; cases r2) (auto simp: ingest_ancs_metadata_def Let_def)
qed

interpretation ingestion: step_machine
  "\<lambda>(env, observed, metadata) st. snd (ingest_ancs_metadata env observed metadata st)" ingest_inv
  by unfold_locales (auto intro: ingest_step_inv)

text \<open>
  However many notifications are ingested, with whatever failures in between, the correlator
  stays bounded and consistent (at most 32 notifications and 32 messages wait, none twice, and no
  completed notification waits again) and at most 256 distinct message handles are remembered.
\<close>

theorem ingestion_bounded:
  assumes "ig_correlator st = AncsMapCorrelator_new 15000" and "ig_seen_map_handles st = []"
  shows "case fold (\<lambda>(env, observed, metadata) st. snd (ingest_ancs_metadata env observed metadata st)) arrivals st of st' \<Rightarrow>
    length (co_notifications (ig_correlator st')) \<le> 32 \<and> length (co_messages (ig_correlator st')) \<le> 32 \<and>
    distinct (map pn_notification_uid (co_notifications (ig_correlator st'))) \<and>
    pn_notification_uid ` set (co_notifications (ig_correlator st')) \<inter> set (co_completed_uids (ig_correlator st')) = {} \<and>
    length (ig_seen_map_handles st') \<le> 256 \<and> distinct (ig_seen_map_handles st')"
proof -
  have "ingest_inv st" using assms correlator_inv_new by (simp add: ingest_inv_def)
  from ingestion.run_inv [OF this, of arrivals] show ?thesis by (simp add: ingest_inv_def correlator_inv_def)
qed

section \<open>No message is correlated twice\<close>

lemma seen_after:
  assumes "correlate_messages env observed ms st = (Ok (), st')" and "length (ig_seen_map_handles st) + length ms \<le> 256"
  shows "set (ig_seen_map_handles st) \<subseteq> set (ig_seen_map_handles st') \<and>
    (\<forall>m \<in> set ms. looked_at observed m \<longrightarrow> m_map_handle m \<in> set (ig_seen_map_handles st'))"
  using assms
proof (induction ms arbitrary: st)
  case Nil
  then show ?case by simp
next
  case (Cons m ms)
  show ?case
  proof (cases "\<not> looked_at observed m \<or> m_map_handle m \<in> set (ig_seen_map_handles st)")
    case True
    then have "correlate_messages env observed ms st = (Ok (), st')"
      using Cons.prems(1) by (simp add: correlate_messages_Cons)
    from Cons.IH [OF this] True Cons.prems(2) show ?thesis by auto
  next
    case False
    obtain r st1 where c: "correlated env m st = (r, st1)" by (rule prod.exhaust)
    then have run: "correlate_messages env observed ms st1 = (Ok (), st')"
      using Cons.prems(1) False by (cases r) (simp_all add: correlate_messages_Cons)
    have seen: "ig_seen_map_handles st1 = ig_seen_map_handles st @ [m_map_handle m]"
      using correlated_keeps(1) [of env m st] c remember_handle(4) [of "ig_seen_map_handles st"] Cons.prems(2) by simp
    from Cons.IH [OF run] Cons.prems(2) show ?thesis unfolding seen by auto
  qed
qed

lemma nothing_to_correlate:
  "\<forall>m \<in> set ms. looked_at observed m \<longrightarrow> m_map_handle m \<in> set (ig_seen_map_handles st) \<Longrightarrow>
     correlate_messages env observed ms st = (Ok (), st)"
  by (induction ms) (auto simp: correlate_messages_Cons)

text \<open>
  Correlation is idempotent: a batch of messages that was gone through without an error is
  not correlated again, whatever the contacts say by then, as long as the batch fits the 256
  remembered handles beside those remembered before; every recent received message of the batch
  is remembered, and no handle is forgotten.
\<close>

theorem correlation_idempotent:
  assumes "correlate_messages env observed ms st = (Ok (), st')"
    and "length (ig_seen_map_handles st) + length ms \<le> 256"
  shows "correlate_messages env' observed ms st' = (Ok (), st') \<and>
    (\<forall>m \<in> set ms. looked_at observed m \<longrightarrow> m_map_handle m \<in> set (ig_seen_map_handles st')) \<and>
    set (ig_seen_map_handles st) \<subseteq> set (ig_seen_map_handles st')"
  using seen_after [OF assms] nothing_to_correlate by blast

text \<open>
  A message is remembered before it is correlated, so one failed contact lookup loses its
  correlation: the message is neither correlated nor marked ambiguous, the notification keeps
  waiting, and no later round looks at the message again while it is remembered.
\<close>

theorem failed_lookup_loses_correlation:
  assumes "looked_at observed m" and "m_map_handle m \<notin> set (ig_seen_map_handles st)"
    and "ContactStore_lookup_display_name (ie_lookup_fails env (m_address m)) (m_address m) (ie_contacts env) = Err e"
  shows "\<exists>st'. correlate_messages env observed (m # ms) st = (Err (), st') \<and>
    ig_repository st' = ig_repository st \<and> ig_correlator st' = ig_correlator st \<and>
    (\<forall>env' observed' ms'. correlate_messages env' observed' (m # ms') st' = correlate_messages env' observed' ms' st')"
  using assms remember_handle(3)
  by (auto simp: correlate_messages_Cons [of _ _ m] correlated_def Let_def)

definition sample_ingest :: IngestState where
  "sample_ingest = \<lparr>ig_correlator = AncsMapCorrelator_new 15000, ig_seen_map_handles = [], ig_coordinator = None,
     ig_repository = Imsg (Some empty_store)\<rparr>"

definition sample_ingest_env :: IngestEnv where
  "sample_ingest_env = \<lparr>ie_hash = identity_env, ie_contacts = ContactStore_in_memory, ie_lookup_fails = (\<lambda>_. False),
     ie_elapsed = 0, ie_joins = True, ie_sync_succeeds = True, ie_unix_seconds = None, ie_synced = (\<lambda>s. s)\<rparr>"

definition sample_row :: MessageRow where
  "sample_row = NewMessage.extend (sample_message ''h'') (MessageRow.fields 1)"

theorem ingestion_bounded_witness:
  "length (ig_seen_map_handles (fold (\<lambda>(env, observed, metadata) st. snd (ingest_ancs_metadata env observed metadata st))
     [(sample_ingest_env, 0, \<lparr>md_uid = (0, 0, 0, 1), md_title = ''Ada'', md_subtitle = ''Club'',
        md_positive_action_label = [], md_negative_action_label = []\<rparr>)] sample_ingest)) \<le> 256"
  using ingestion_bounded [of sample_ingest "[(sample_ingest_env, 0, \<lparr>md_uid = (0, 0, 0, 1), md_title = ''Ada'', md_subtitle = ''Club'',
        md_positive_action_label = [], md_negative_action_label = []\<rparr>)]"]
  by (simp add: sample_ingest_def)

theorem correlation_idempotent_witness:
  "\<exists>st'. correlate_messages sample_ingest_env 1 [sample_row] sample_ingest = (Ok (), st') \<and>
     ig_seen_map_handles st' = [''h''] \<and> correlate_messages sample_ingest_env 1 [sample_row] st' = (Ok (), st')"
proof -
  have name: "ContactStore_lookup_display_name False ''a'' ContactStore_in_memory = Ok None" by code_simp
  obtain st' where c: "correlate_messages sample_ingest_env 1 [sample_row] sample_ingest = (Ok (), st')"
    "ig_seen_map_handles st' = [''h'']"
    by (simp add: correlate_messages_Cons correlated_def sample_row_def sample_message_def NewMessage.defs MessageRow.defs looked_at_def sample_ingest_def
        sample_ingest_env_def name AncsMapCorrelator_correlate_map_def AncsMapCorrelator_new_def candidate_indices_def
        apply_ancs_result_def remember_handle_def Let_def split: prod.splits)
  have "length (ig_seen_map_handles sample_ingest) + length [sample_row] \<le> 256" by (simp add: sample_ingest_def)
  from correlation_idempotent [OF c(1) this] show ?thesis using c by blast
qed

end
