(* ===== verification/Daemon.thy ===== *)
theory Daemon
  imports Api_Commands Ancs_Ingest
begin

text \<open>
  The daemon as a whole (\<open>app\<close>, \<open>AppState\<close> and the background tasks of
  \<open>crates/analogconnectd/src/lib.rs\<close>): the routes over one state, served one request after
  another, and what holds across them: no route but the health check acts or answers with anything but
  a refusal without a token, and mutations are limited whatever their kind.
\<close>

definition PROTOCOL_VERSION :: u16 where "PROTOCOL_VERSION = 1"

section \<open>Routes\<close>

record HealthResponse =
  he_status :: string
  he_protocol_version :: u16
  he_daemon_version :: string
  he_uptime_seconds :: nat

text \<open>The version is that of the package the daemon is built from.\<close>

definition health :: "string \<Rightarrow> nat \<Rightarrow> 'r AppState \<Rightarrow> HealthResponse" where
  "health daemon_version now st =
     \<lparr>he_status = ''ok'', he_protocol_version = PROTOCOL_VERSION, he_daemon_version = daemon_version,
      he_uptime_seconds = as_secs (now - ap_started_at st)\<rparr>"

text \<open>
  How a request is read. \<open>axum\<close>'s extractors run before the handler, in the order of its arguments, and
  answer a request they reject themselves: \<open>Bytes\<close> the body that is too large for its default limit or
  cannot be read, \<open>Query\<close> the query that does not deserialise, \<open>WebSocketUpgrade\<close> the request that asks for no
  upgrade. The handlers read the four JSON bodies with \<open>serde_json\<close>.
\<close>

record JsonBodies =
  jb_bytes :: "string \<Rightarrow> (string, StatusCode) result"
  jb_conversation_query :: "string \<Rightarrow> (ConversationPageQuery, StatusCode) result"
  jb_upgrade :: "HeaderMap \<Rightarrow> (unit, StatusCode) result"
  jb_contact_page :: "string \<Rightarrow> ContactPageRequest option"
  jb_send_message :: "string \<Rightarrow> SendMessageRequest option"
  jb_conversation_messages :: "string \<Rightarrow> ConversationMessagesRequest option"
  jb_call_command :: "string \<Rightarrow> CallCommandRequest option"

text \<open>The routes of \<open>app\<close>, with the body or query as it arrives; the audio stream comes with the media backend's answer.\<close>

datatype ApiRequest =
    GetHealth
  | GetStatus
  | GetContactSummary
  | PostContactSearch string
  | GetMessageSummary
  | PostMessage string
  | GetConversations string
  | PostConversationMessages string
  | PostCallCommand string
  | GetAudioSummary
  | PostAudioSession
  | GetAudioStream "(LiveAudioBridge, unit) result"

datatype ApiBody =
    HealthBody HealthResponse
  | StatusBody SystemStatus
  | ContactSummaryBody ContactSummary
  | ContactPageBody ContactPage
  | MessageSummaryBody MessageSyncSummary
  | SendMessageBody SendMessageResponse
  | ConversationPageBody ConversationPage
  | MessagePageBody MessagePage
  | CallCommandBody bool
  | AudioSummaryBody AudioBridgeSummary
  | MediaSessionBody MediaSessionResponse
  | UpgradeBody MediaSocket

type_synonym ApiResponse = "(StatusCode \<times> HeaderMap \<times> ApiBody, StatusCode) result"

definition answer :: "StatusCode \<Rightarrow> HeaderMap \<Rightarrow> ('a \<Rightarrow> ApiBody) \<Rightarrow> ('a, StatusCode) result \<Rightarrow> ApiResponse" where
  "answer code headers body r = result_bind r (\<lambda>a. Ok (code, headers, body a))"

fun serve ::
  "string \<Rightarrow> JsonBodies \<Rightarrow> ('r, 'e, 'v) DaemonEnv \<Rightarrow> HeaderMap \<Rightarrow> ApiRequest \<Rightarrow> 'r AppState \<Rightarrow>
   ApiResponse \<times> 'r AppState" where
  "serve version json env headers GetHealth st =
     (Ok (OK, Map.empty, HealthBody (health version (de_now env) st)), st)"
| "serve version json env headers GetStatus st =
     (case status_route env headers st of (r, st) \<Rightarrow> (answer OK Map.empty StatusBody r, st))"
| "serve version json env headers GetContactSummary st =
     (answer OK Map.empty ContactSummaryBody (contact_summary env headers st), st)"
| "serve version json env headers (PostContactSearch raw) st =
     (case jb_bytes json raw of
        Inl e \<Rightarrow> (Err e, st)
      | Inr body \<Rightarrow>
          (result_bind (contact_page (de_ct_eq env) (ap_auth_tokens st) (jb_contact_page json) (de_joins env)
             (de_lookup_fails env 0) (ap_contact_store st) headers body) (\<lambda>(private, page). Ok (OK, private, ContactPageBody page)), st))"
| "serve version json env headers GetMessageSummary st =
     (answer OK Map.empty MessageSummaryBody (message_summary env headers st), st)"
| "serve version json env headers (PostMessage raw) st =
     (case jb_bytes json raw of
        Inl e \<Rightarrow> (Err e, st)
      | Inr body \<Rightarrow>
          (case send_message env (jb_send_message json) headers body st of
             (r, st) \<Rightarrow> (result_bind r (\<lambda>(code, response). Ok (code, Map.empty, SendMessageBody response)), st)))"
| "serve version json env headers (GetConversations raw) st =
     (case jb_conversation_query json raw of
        Inl e \<Rightarrow> (Err e, st)
      | Inr query \<Rightarrow>
          (case conversation_page (de_ct_eq env) (ap_auth_tokens st) (de_fill env) (de_joins env) (de_lookup_fails env)
                  (ap_contact_store st) (de_threads env) (ap_conversation_repository st) headers query (ap_random st)
                  (ap_conversation_aliases st) of
             (r, random, aliases) \<Rightarrow>
               (result_bind r (\<lambda>(private, page). Ok (OK, private, ConversationPageBody page)),
                st\<lparr>ap_random := random, ap_conversation_aliases := aliases\<rparr>)))"
| "serve version json env headers (PostConversationMessages raw) st =
     (case jb_bytes json raw of
        Inl e \<Rightarrow> (Err e, st)
      | Inr body \<Rightarrow>
          (result_bind (conversation_messages (de_ct_eq env) (ap_auth_tokens st) (jb_conversation_messages json)
             (ap_conversation_repository st) (ap_conversation_aliases st) headers body)
             (\<lambda>(private, page). Ok (OK, private, MessagePageBody page)), st))"
| "serve version json env headers (PostCallCommand raw) st =
     (case jb_bytes json raw of
        Inl e \<Rightarrow> (Err e, st)
      | Inr body \<Rightarrow>
          (case execute_call_command env (jb_call_command json) headers body st of
             (r, st) \<Rightarrow> (result_bind r (\<lambda>(code, accepted). Ok (code, Map.empty, CallCommandBody accepted)), st)))"
| "serve version json env headers GetAudioSummary st =
     (answer OK Map.empty AudioSummaryBody (audio_summary env headers st), st)"
| "serve version json env headers PostAudioSession st =
     (case create_audio_session env headers st of
        (r, st) \<Rightarrow> (result_bind r (\<lambda>(code, private, response). Ok (code, private, MediaSessionBody response)), st))"
| "serve version json env headers (GetAudioStream start) st =
     (case jb_upgrade json headers of
        Inl e \<Rightarrow> (Err e, st)
      | Inr _ \<Rightarrow> (case open_audio_stream env start headers st of (r, st) \<Rightarrow> (answer OK Map.empty UpgradeBody r, st)))"

section \<open>The initial state and the background tasks\<close>

text \<open>\<open>AppState::with_backends_and_observer\<close>: 64 frames per direction, 256 operations, 10 mutations a minute.\<close>

definition AppState_new :: "SystemStatus \<Rightarrow> AuthTokens \<Rightarrow> nat \<Rightarrow> 'r \<Rightarrow> ('r AppState, AudioQueueError) result" where
  "AppState_new status tokens now random =
     result_bind (AudioBridge_new 64) (\<lambda>bridge.
       Ok \<lparr>ap_status = status,
           ap_contact_summary = \<lparr>cs_contact_count = 0, cs_phone_count = 0, cs_last_sync_unix_seconds = None\<rparr>,
           ap_contact_store = ContactStore_in_memory, ap_message_summary = MessageSyncSummary_default,
           ap_message_sync_coordinator = None, ap_audio_bridge = bridge, ap_auth_tokens = tokens,
           ap_message_operations = Mutex False (MessageOperationRegistry_new 256),
           ap_conversation_repository = ConversationRepository.Unavailable,
           ap_conversation_aliases = Mutex False ConversationAliases_default,
           ap_sco_teardown_watchdog = Mutex False (ScoTeardownWatchdog_new (from_secs 10)),
           ap_mutation_limiter = MutationLimiter_new 10 (from_secs 60) now,
           ap_media_sessions = MediaSystem_new, ap_started_at = now, ap_random = random,
           ap_helper_log = [], ap_bus_log = []\<rparr>)"

definition with_conversation_repository :: "ConversationRepository \<Rightarrow> 'r AppState \<Rightarrow> 'r AppState" where
  "with_conversation_repository repository st = st\<lparr>ap_conversation_repository := repository\<rparr>"

definition with_contact_store :: "ContactStore \<Rightarrow> 'r AppState \<Rightarrow> 'r AppState" where
  "with_contact_store store st = st\<lparr>ap_contact_store := store\<rparr>"

definition with_message_sync_coordinator :: "'r AppState \<Rightarrow> 'r AppState" where
  "with_message_sync_coordinator st = st\<lparr>ap_message_sync_coordinator :=
     Some (MessageSyncCoordinator_new (MessageSyncScheduler_new (from_secs 30) (from_secs 90)))\<rparr>"

text \<open>One round of \<open>start_message_sync_task\<close>; a failure is only logged.\<close>

definition message_sync_round :: "nat \<Rightarrow> bool \<Rightarrow> u64 option \<Rightarrow> 'r AppState \<Rightarrow> 'r AppState" where
  "message_sync_round elapsed succeeds unix_seconds st =
     (case ap_message_sync_coordinator st of
        None \<Rightarrow> st
      | Some coordinator \<Rightarrow> st\<lparr>ap_message_sync_coordinator :=
          Some (snd (MessageSyncCoordinator_tick elapsed succeeds unix_seconds coordinator))\<rparr>)"

text \<open>One round of \<open>start_contact_sync_task\<close>: the helper's outcome, the failing statements, whether the task joins.\<close>

definition contact_sync_round ::
  "(bool \<times> u8 list) option \<Rightarrow> (nat \<Rightarrow> bool) \<Rightarrow> bool \<Rightarrow> u64 option \<Rightarrow> 'r AppState \<Rightarrow> 'r AppState" where
  "contact_sync_round outcome fails joins unix_seconds st =
     (case ImsgContactSource_pull_all outcome of
        Inl _ \<Rightarrow> st
      | Inr contacts \<Rightarrow>
          (case ContactStore_replace_all fails contacts (ap_contact_store st) of
             (Inl _, store) \<Rightarrow> st\<lparr>ap_contact_store := store\<rparr>
           | (Inr summary, store) \<Rightarrow>
               let st = st\<lparr>ap_contact_store := store\<rparr>
               in if joins then st\<lparr>ap_contact_summary := summary\<lparr>cs_last_sync_unix_seconds := unix_seconds\<rparr>\<rparr>
                  else st))"

section \<open>Without a token\<close>

definition has_token :: "AuthTokens \<Rightarrow> HeaderMap \<Rightarrow> bool" where
  "has_token tokens headers \<longleftrightarrow> headers ''authorization'' = Some (''Bearer '' @ token_bytes (tk_current tokens)) \<or>
     (\<exists>p. tk_previous tokens = Some p \<and> headers ''authorization'' = Some (''Bearer '' @ token_bytes p))"

lemma bearer_authorized_iff:
  assumes "ct_eq_spec ct"
  shows "authorize ct tokens headers = (if has_token tokens headers then Ok () else Err UNAUTHORIZED)"
proof -
  have b: "bearer headers = Some c \<longleftrightarrow> headers ''authorization'' = Some (''Bearer '' @ c)" for c
    by (cases "headers ''authorization''") (auto simp: bearer_def strip_prefix_Some_iff)
  show ?thesis
  proof (cases "bearer headers")
    case None
    then have "headers ''authorization'' \<noteq> Some (''Bearer '' @ c)" for c using b [of c] by simp
    then show ?thesis using None by (simp add: authorize_def has_token_def)
  next
    case (Some c)
    then show ?thesis
      using b [of c] AuthTokens_matches_iff [OF assms, of tokens c] by (auto simp: authorize_def has_token_def)
  qed
qed

fun needs_token :: "ApiRequest \<Rightarrow> bool" where
  "needs_token GetHealth = False"
| "needs_token (GetAudioStream _) = False"
| "needs_token _ = True"

definition err_of :: "('a, 'e) result \<Rightarrow> 'e option" where
  "err_of r = (case r of Inl e \<Rightarrow> Some e | Inr _ \<Rightarrow> None)"

text \<open>The status the extractors answer a request with that they reject.\<close>

fun rejection :: "JsonBodies \<Rightarrow> ApiRequest \<Rightarrow> StatusCode option" where
  "rejection json (PostContactSearch raw) = err_of (jb_bytes json raw)"
| "rejection json (PostMessage raw) = err_of (jb_bytes json raw)"
| "rejection json (GetConversations raw) = err_of (jb_conversation_query json raw)"
| "rejection json (PostConversationMessages raw) = err_of (jb_bytes json raw)"
| "rejection json (PostCallCommand raw) = err_of (jb_bytes json raw)"
| "rejection json _ = None"

text \<open>What a request without a token is answered with.\<close>

definition refused_with :: "JsonBodies \<Rightarrow> ApiRequest \<Rightarrow> StatusCode" where
  "refused_with json request = (case rejection json request of None \<Rightarrow> UNAUTHORIZED | Some code \<Rightarrow> code)"

lemma routes_unauthorized:
  assumes "authorize (de_ct_eq env) (ap_auth_tokens st) headers = Err UNAUTHORIZED" and "needs_token request"
  shows "serve version json env headers request st = (Err (refused_with json request), st)"
  using assms
  by (cases request)
    (simp_all add: answer_def status_route_def contact_summary_def contact_page_def message_summary_def send_message_def
      mutation_request_def conversation_page_def conversation_messages_def execute_call_command_def audio_summary_def
      create_audio_session_def create_audio_session_begin_def refused_with_def err_of_def split: sum.splits)

text \<open>
  C2: Without the bearer token (the current one or the previous one kept for rotation) every
  route except the health check and the audio stream, which asks for a media session instead,
  only refuses and leaves the daemon as it was: no limiter slot is used, no helper or bus command
  is run, no alias is made and no randomness is drawn. The answer is 401, for every request that
  reaches its handler; a body (of the four routes that take one) or a query (of the conversation list) that
  the extractors of the web framework reject is answered with their status, whether or not there is a token.
\<close>

theorem routes_require_token:
  assumes "ct_eq_spec (de_ct_eq env)" and "\<not> has_token (ap_auth_tokens st) headers" and "needs_token request"
  shows "serve version json env headers request st =
    (case rejection json request of
       None \<Rightarrow> (Err UNAUTHORIZED, st)
     | Some code \<Rightarrow> (Err code, st))"
  using assms by (simp add: routes_unauthorized bearer_authorized_iff refused_with_def split: option.splits)

text \<open>\<open>axum\<close>'s documented defaults: bodies up to 2 MiB, 413 beyond; a query that does not parse is 400.\<close>

definition sample_bodies :: JsonBodies where
  "sample_bodies = \<lparr>jb_bytes = (\<lambda>raw. if 2097152 < length raw then Err PAYLOAD_TOO_LARGE else Ok raw),
     jb_conversation_query = (\<lambda>raw. if raw = [] then Ok \<lparr>qq_cursor = None, qq_limit = None\<rparr> else Err BAD_REQUEST),
     jb_upgrade = (\<lambda>headers. if headers ''upgrade'' = Some ''websocket'' then Ok () else Err BAD_REQUEST),
     jb_contact_page = (\<lambda>_. None), jb_send_message = (\<lambda>_. Some sample_send),
     jb_conversation_messages = (\<lambda>_. None), jb_call_command = (\<lambda>_. Some Answer)\<rparr>"

theorem routes_require_token_witness:
  "serve ''0.1.0'' sample_bodies sample_env [''authorization'' \<mapsto> ''Bearer guess''] (PostMessage []) sample_state =
     (Err UNAUTHORIZED, sample_state) \<and>
   serve ''0.1.0'' sample_bodies sample_env [''authorization'' \<mapsto> ''Bearer guess''] (GetConversations ''limit=x'') sample_state =
     (Err BAD_REQUEST, sample_state)"
proof -
  have "\<not> has_token (ap_auth_tokens sample_state) [''authorization'' \<mapsto> ''Bearer guess'']"
    by (simp add: has_token_def sample_state_def AuthTokens_new_def sample_token_def numeral_eq_Suc)
  moreover have "ct_eq_spec (de_ct_eq sample_env)" by (simp add: sample_env_def ct_eq_spec_def)
  moreover have "rejection sample_bodies (PostMessage []) = None"
    "rejection sample_bodies (GetConversations ''limit=x'') = Some BAD_REQUEST"
    by (simp_all add: sample_bodies_def err_of_def)
  ultimately show ?thesis
    using routes_require_token [of sample_env sample_state "[''authorization'' \<mapsto> ''Bearer guess'']" "PostMessage []"]
      routes_require_token [of sample_env sample_state "[''authorization'' \<mapsto> ''Bearer guess'']" "GetConversations ''limit=x''"]
    by (simp del: serve.simps rejection.simps)
qed

section \<open>Requests between the sections of another one\<close>

text \<open>Serving a request changes the status only by recording an observation.\<close>

lemma observe_keeps_status: "observe_runtime env st = (ob, st') \<Longrightarrow> ap_status st' = ap_status st"
  by (auto simp: observe_runtime_def split: prod.splits if_splits)

lemma meanwhile_same: "ap_status st' = ap_status st \<Longrightarrow> meanwhile st [] st'"
  using meanwhile.other [OF meanwhile.nothing] by blast

lemma meanwhile_record:
  fixes st st1 st' :: "'r AppState"
  assumes "ap_status st1 = ap_status st" and "ap_status st' = ap_status (record_runtime now ob st1)"
  shows "meanwhile st [ob] st'"
  using meanwhile.other [OF meanwhile.recorded [OF meanwhile_same [OF assms(1)]] assms(2)] by simp

lemma finish_keeps_status: "ap_status (snd (create_audio_session_finish env st)) = ap_status st"
  by (auto simp: create_audio_session_finish_def Let_def split: prod.splits)

lemma send_message_keeps_status: "ap_status (snd (send_message_of env request st)) = ap_status st"
  by (auto simp: send_message_of_def send_message_begin_def send_message_transport_def send_message_finish_def Let_def
      split: prod.splits sum.splits option.splits MessageOperationStart.splits if_splits)

lemma mutation_request_keeps_status:
  "mutation_request env n json headers body st = (r, st') \<Longrightarrow> ap_status st' = ap_status st"
  by (auto simp: mutation_request_def split: sum.splits prod.splits)

lemma serve_meanwhile: "\<exists>obs. meanwhile st obs (snd (serve version json env headers request st))"
proof -
  have same: "ap_status (snd (serve version json env headers request st)) = ap_status st \<Longrightarrow> ?thesis"
    using meanwhile_same by blast
  show ?thesis
  proof (cases request)
    case GetStatus
    obtain ob st1 where ob: "observe_runtime env st = (ob, st1)" by (rule prod.exhaust)
    have "meanwhile st [ob] (record_runtime (de_now env) ob st1)"
      by (rule meanwhile_record [OF observe_keeps_status [OF ob] refl])
    then show ?thesis
      using same GetStatus ob
      by (cases "authorize (de_ct_eq env) (ap_auth_tokens st) headers")
        (auto simp: status_route_def refresh_runtime_status_def Let_def)
  next
    case PostAudioSession
    obtain b st1 where b: "create_audio_session_begin env headers st = (b, st1)" by (rule prod.exhaust)
    then have st1: "ap_status st1 = ap_status st"
      by (auto simp: create_audio_session_begin_def dest!: observe_keeps_status split: sum.splits prod.splits)
    show ?thesis
    proof (cases b)
      case (Inl e)
      then show ?thesis using PostAudioSession b st1 by (intro same) (simp add: create_audio_session_def)
    next
      case (Inr ob)
      have "meanwhile st [ob] (snd (create_audio_session_finish env (record_runtime (de_now env) ob st1)))"
        by (rule meanwhile_record [OF st1]) (rule finish_keeps_status)
      then show ?thesis
        using PostAudioSession b Inr by (auto simp: create_audio_session_def case_prod_unfold)
    qed
  next
    case (PostMessage raw)
    have sent: "ap_status (snd (send_message env json' headers body st)) = ap_status st" for json' body
    proof -
      obtain r st1 where m: "mutation_request env 4096 json' headers body st = (r, st1)" by (rule prod.exhaust)
      show ?thesis
        using m mutation_request_keeps_status [OF m]
        by (cases r) (simp_all add: send_message_def send_message_keeps_status)
    qed
    then show ?thesis using PostMessage by (intro same) (simp add: case_prod_unfold split: sum.splits)
  next
    case (PostCallCommand raw)
    then show ?thesis
      using mutation_request_keeps_status
      by (intro same) (auto simp: execute_call_command_def execute_call_command_of_def split: sum.splits prod.splits)
  next
    case (GetAudioStream start)
    then show ?thesis
      by (intro same) (auto simp: open_audio_stream_def claim_media_session_def split: sum.splits prod.splits option.splits)
  qed (auto intro!: exI [of _ "[]"] meanwhile_same split: sum.splits prod.splits)
qed

section \<open>At most so many mutations\<close>

text \<open>What the daemon did outside itself, or issued: messages sent, telephony operations, media sessions.\<close>

definition effects :: "'r AppState \<Rightarrow> nat" where
  "effects st = length (ap_helper_log st) + length (bus_mutations (ap_bus_log st)) + length (ms_heap (ap_media_sessions st))"

definition limiter_run :: "MutationLimiter \<Rightarrow> nat list \<Rightarrow> MutationLimiter" where
  "limiter_run l ts = fold (\<lambda>t l. snd (MutationLimiter_allow_at l t)) ts l"

lemma allowed_count_append:
  "allowed_count l (ts @ us) = allowed_count l ts + allowed_count (limiter_run l ts) us"
  by (induction ts arbitrary: l) (simp_all add: limiter_run_def case_prod_unfold Let_def)

text \<open>One request: the limiter is asked at most once, and each effect has its permission.\<close>

definition paid_for :: "nat \<Rightarrow> 'r AppState \<Rightarrow> 'r AppState \<Rightarrow> bool" where
  "paid_for now st st' \<longleftrightarrow> (\<exists>ts. set ts \<subseteq> {now} \<and>
     ap_mutation_limiter st' = limiter_run (ap_mutation_limiter st) ts \<and>
     effects st' \<le> effects st + allowed_count (ap_mutation_limiter st) ts)"

lemma paid_for_nothing:
  "ap_mutation_limiter st' = ap_mutation_limiter st \<Longrightarrow> effects st' \<le> effects st \<Longrightarrow> paid_for now st st'"
  unfolding paid_for_def by (rule exI [of _ "[]"]) (simp add: limiter_run_def)

lemma paid_for_one:
  assumes "authorize_mutation now (ap_mutation_limiter st) = (r, l)" and "ap_mutation_limiter st' = l"
    and "effects st' \<le> effects st + (if r = Ok () then 1 else 0)"
  shows "paid_for now st st'"
proof -
  have "l = snd (MutationLimiter_allow_at (ap_mutation_limiter st) now)"
    "r = Ok () \<longleftrightarrow> fst (MutationLimiter_allow_at (ap_mutation_limiter st) now) = Ok True"
    using assms(1) by (auto simp: authorize_mutation_def split: prod.splits sum.splits bool.splits)
  then show ?thesis
    using assms(2,3) unfolding paid_for_def
    by (intro exI [of _ "[now]"]) (simp add: limiter_run_def case_prod_unfold Let_def)
qed

lemma send_effects:
  assumes "send_message_of env request st = (r, st')"
  shows "effects st' \<le> effects st + 1 \<and> ap_mutation_limiter st' = ap_mutation_limiter st"
proof -
  obtain b st1 where b: "send_message_begin request st = (b, st1)" by (rule prod.exhaust)
  then have 1: "effects st1 = effects st" "ap_mutation_limiter st1 = ap_mutation_limiter st"
    by (auto simp: send_message_begin_def effects_def Let_def
        split: sum.splits prod.splits option.splits MessageOperationStart.splits)
  show ?thesis
  proof (cases b)
    case (Inl a)
    then show ?thesis using assms b 1 by (simp add: send_message_of_def)
  next
    case (Inr m)
    obtain message i where m: "m = (message, i)" by (rule prod.exhaust)
    obtain result st2 where t: "send_message_transport env message st1 = (result, st2)" by (rule prod.exhaust)
    then have 2: "effects st2 = effects st1 + 1" "ap_mutation_limiter st2 = ap_mutation_limiter st1"
      by (auto simp: send_message_transport_def ImsgMapBackend_send_def effects_def Let_def)
    have "send_message_finish result i st2 = (r, st')" using assms b Inr m t by (simp add: send_message_of_def)
    then have "effects st' = effects st2" "ap_mutation_limiter st' = ap_mutation_limiter st2"
      by (auto simp: send_message_finish_def effects_def Let_def split: option.splits sum.splits)
    then show ?thesis using 1 2 by simp
  qed
qed

lemma call_effects:
  assumes "execute_call_command_of env request st = (r, st')"
  shows "effects st' \<le> effects st + 1 \<and> ap_mutation_limiter st' = ap_mutation_limiter st"
proof (cases "CallCommandRequest_validate request")
  case (Inl e)
  then show ?thesis using assms by (simp add: execute_call_command_of_def)
next
  case (Inr command)
  obtain b log where b: "WirePlumberBackend_execute (de_bus_json env) (de_bus env) command (ap_bus_log st) = (b, log)"
    by (rule prod.exhaust)
  obtain ms where "bus_mutations log = bus_mutations (ap_bus_log st) @ ms" "length ms \<le> 1"
    using wp_backend.at_most_one [of "de_bus_json env" "de_bus env" command "ap_bus_log st"] b by auto
  then show ?thesis
    using assms Inr b by (auto simp: execute_call_command_of_def effects_def)
qed

text \<open>A snapshot only reads.\<close>

definition only_reads :: "'a bus \<Rightarrow> bool" where
  "only_reads m \<longleftrightarrow> (\<forall>log. bus_mutations (snd (m log)) = bus_mutations log)"

lemma only_reads_bind: "only_reads m \<Longrightarrow> (\<And>a. only_reads (f a)) \<Longrightarrow> only_reads (bus_bind m f)"
  by (auto simp: only_reads_def bus_bind_def split: prod.splits sum.splits) (metis snd_conv)+

lemma only_reads_result: "only_reads (bus_result r)"
  by (simp add: only_reads_def bus_result_def)

lemma only_reads_run: "\<not> is_mutation args \<Longrightarrow> only_reads (bus_run env e args)"
  by (simp add: only_reads_def bus_run_def)

lemmas reading = only_reads_bind only_reads_result only_reads_run

lemma only_reads_call_states: "only_reads (call_states env calls)"
  by (induction calls) (auto simp: WirePlumberBackend_call_state_def intro!: reading)

lemma only_reads_snapshot: "only_reads (WirePlumberBackend_snapshot json env)"
  unfolding WirePlumberBackend_snapshot_def WirePlumberBackend_paths_def WirePlumberBackend_transport_state_def
  by (intro reading only_reads_call_states) simp_all

lemma observe_effects:
  "effects (snd (observe_runtime env st)) = effects st \<and>
   ap_mutation_limiter (snd (observe_runtime env st)) = ap_mutation_limiter st"
  using only_reads_snapshot [of "de_bus_json env" "de_bus env"]
  by (auto simp: observe_runtime_def effects_def only_reads_def case_prod_unfold Let_def)

lemma record_effects:
  "effects (record_runtime now ob st) = effects st \<and>
   ap_mutation_limiter (record_runtime now ob st) = ap_mutation_limiter st"
  by (simp add: record_runtime_def effects_def case_prod_unfold Let_def)

lemma refresh_effects:
  "effects (refresh_runtime_status env st) = effects st"
  "ap_mutation_limiter (refresh_runtime_status env st) = ap_mutation_limiter st"
  using observe_effects [of env st]
  by (simp_all add: refresh_runtime_status_def case_prod_unfold record_effects)

lemma mutation_request_paid:
  assumes "mutation_request env n json headers body st = (r, st1)"
  shows "(is_ok r \<longrightarrow> (\<exists>l. authorize_mutation (de_now env) (ap_mutation_limiter st) = (Ok (), l) \<and> ap_mutation_limiter st1 = l)) \<and>
    effects st1 = effects st \<and> paid_for (de_now env) st st1"
proof (cases "authorize (de_ct_eq env) (ap_auth_tokens st) headers")
  case (Inl e)
  then show ?thesis using assms by (auto simp: mutation_request_def intro: paid_for_nothing)
next
  case (Inr u)
  obtain a l where a: "authorize_mutation (de_now env) (ap_mutation_limiter st) = (a, l)" by (rule prod.exhaust)
  then have st1: "st1 = st\<lparr>ap_mutation_limiter := l\<rparr>" and r: "is_ok r \<Longrightarrow> a = Ok ()"
    using assms Inr by (auto simp: mutation_request_def is_ok_def result_bind_Ok_iff split: sum.splits)
  then show ?thesis
    using a paid_for_one [OF a, of st1] by (auto simp: effects_def)
qed

lemma paid_after:
  assumes "mutation_request env n json headers body st = (Ok q, st1)"
    and "effects st' \<le> effects st1 + 1 \<and> ap_mutation_limiter st' = ap_mutation_limiter st1"
  shows "paid_for (de_now env) st st'"
  using mutation_request_paid [OF assms(1)] assms(2) by (auto intro: paid_for_one)

lemma issue_heap:
  "MediaSessionRegistry_issue fill r lifetime now s = (x, r', s') \<Longrightarrow> length (ms_heap s') \<le> length (ms_heap s) + 1"
  by (auto simp: MediaSessionRegistry_issue_def update_grant_def Let_def split: sum.splits prod.splits option.splits)

lemma claim_heap: "length (ms_heap (snd (MediaSessionRegistry_claim ct i t now s))) = length (ms_heap s)"
  by (auto simp: MediaSessionRegistry_claim_def update_grant_def split: sum.splits prod.splits)

lemma session_paid:
  assumes "create_audio_session env headers st = (r, st')"
  shows "paid_for (de_now env) st st'"
proof (cases "authorize (de_ct_eq env) (ap_auth_tokens st) headers")
  case (Inl e)
  then show ?thesis using assms by (auto simp: create_audio_session_def create_audio_session_begin_def intro: paid_for_nothing)
next
  case (Inr u)
  obtain a l where a: "authorize_mutation (de_now env) (ap_mutation_limiter st) = (a, l)" by (rule prod.exhaust)
  let ?st = "refresh_runtime_status env (st\<lparr>ap_mutation_limiter := l\<rparr>)"
  have same: "effects (st\<lparr>ap_mutation_limiter := l\<rparr>) = effects st" by (simp add: effects_def)
  obtain x random media where i: "MediaSessionRegistry_issue (de_fill env) (ap_random ?st) (from_secs 60) (de_now env)
      (ap_media_sessions ?st) = (x, random, media)" by (rule prod_cases3)
  have issued: "effects (?st\<lparr>ap_random := random, ap_media_sessions := media\<rparr>) \<le> effects st + 1"
    using issue_heap [OF i] refresh_effects(1) [of env "st\<lparr>ap_mutation_limiter := l\<rparr>"] same by (simp add: effects_def)
  have limiter: "ap_mutation_limiter ?st = l" by (simp add: refresh_effects(2))
  have "st' = st\<lparr>ap_mutation_limiter := l\<rparr> \<or> a = Ok () \<and> (r, st') = create_audio_session_finish env ?st"
    using assms Inr a by (cases a) (auto simp: create_audio_session_def create_audio_session_begin_def
        refresh_runtime_status_def case_prod_unfold)
  then have "st' = st\<lparr>ap_mutation_limiter := l\<rparr> \<or> a = Ok () \<and> (st' = ?st \<or> st' = ?st\<lparr>ap_random := random, ap_media_sessions := media\<rparr>)"
    using i by (auto simp: create_audio_session_finish_def Let_def split: if_splits)
  then have "effects st' \<le> effects st + (if a = Ok () then 1 else 0)" "ap_mutation_limiter st' = l"
    using issued same limiter refresh_effects(1) [of env "st\<lparr>ap_mutation_limiter := l\<rparr>"] by auto
  then show ?thesis by (intro paid_for_one [OF a])
qed

lemma serve_paid: "paid_for (de_now env) st (snd (serve version json env headers request st))"
proof (cases request)
  case (PostMessage raw)
  show ?thesis
  proof (cases "jb_bytes json raw")
    case (Inl e)
    then show ?thesis using PostMessage by (simp add: paid_for_nothing)
  next
    case body: (Inr body)
    obtain r st1 where m: "mutation_request env 4096 (jb_send_message json) headers body st = (r, st1)" by (rule prod.exhaust)
    show ?thesis
    proof (cases r)
      case (Inl e)
      then show ?thesis using PostMessage body m mutation_request_paid [OF m] by (simp add: send_message_def)
    next
      case (Inr q)
      obtain x st' where s: "send_message_of env q st1 = (x, st')" by (rule prod.exhaust)
      show ?thesis using PostMessage body m Inr s paid_after [OF m [unfolded Inr] send_effects [OF s]] by (simp add: send_message_def)
    qed
  qed
next
  case (PostCallCommand raw)
  show ?thesis
  proof (cases "jb_bytes json raw")
    case (Inl e)
    then show ?thesis using PostCallCommand by (simp add: paid_for_nothing)
  next
    case body: (Inr body)
    obtain r st1 where m: "mutation_request env 1024 (jb_call_command json) headers body st = (r, st1)" by (rule prod.exhaust)
    show ?thesis
    proof (cases r)
      case (Inl e)
      then show ?thesis using PostCallCommand body m mutation_request_paid [OF m] by (simp add: execute_call_command_def)
    next
      case (Inr q)
      obtain x st' where s: "execute_call_command_of env q st1 = (x, st')" by (rule prod.exhaust)
      show ?thesis
        using PostCallCommand body m Inr s paid_after [OF m [unfolded Inr] call_effects [OF s]] by (simp add: execute_call_command_def)
    qed
  qed
next
  case PostAudioSession
  then show ?thesis using session_paid by (cases "create_audio_session env headers st") auto
next
  case (GetAudioStream start)
  then show ?thesis
    using claim_heap
    by (auto simp: open_audio_stream_def claim_media_session_def effects_def intro!: paid_for_nothing
        split: prod.splits option.splits sum.splits) (metis snd_conv order_refl)+
next
  case GetStatus
  then show ?thesis
    using refresh_effects [of env st]
    by (auto simp: status_route_def Let_def intro!: paid_for_nothing split: sum.splits prod.splits)
qed (auto simp: effects_def intro!: paid_for_nothing split: prod.splits sum.splits)

definition serve_all ::
  "string \<Rightarrow> JsonBodies \<Rightarrow> (('r, 'e, 'v) DaemonEnv \<times> HeaderMap \<times> ApiRequest) list \<Rightarrow> 'r AppState \<Rightarrow> 'r AppState" where
  "serve_all version json arrivals st =
     fold (\<lambda>(env, headers, request) st. snd (serve version json env headers request st)) arrivals st"

lemma serve_all_paid:
  "\<exists>ts. set ts \<subseteq> (\<lambda>(env, _). de_now env) ` set arrivals \<and>
     effects (serve_all version json arrivals st) \<le> effects st + allowed_count (ap_mutation_limiter st) ts"
proof (induction arrivals arbitrary: st)
  case Nil
  then show ?case by (intro exI [of _ "[]"]) (simp add: serve_all_def)
next
  case (Cons q arrivals)
  obtain env headers request where q: "q = (env, headers, request)" by (rule prod_cases3)
  let ?st = "snd (serve version json env headers request st)"
  obtain ts where ts: "set ts \<subseteq> {de_now env}" "ap_mutation_limiter ?st = limiter_run (ap_mutation_limiter st) ts"
    "effects ?st \<le> effects st + allowed_count (ap_mutation_limiter st) ts"
    using serve_paid [of env st version json headers request] unfolding paid_for_def by blast
  obtain us where us: "set us \<subseteq> (\<lambda>(env, _). de_now env) ` set arrivals"
    "effects (serve_all version json arrivals ?st) \<le> effects ?st + allowed_count (ap_mutation_limiter ?st) us"
    using Cons.IH by blast
  show ?case
    using ts us q by (intro exI [of _ "ts @ us"]) (auto simp: serve_all_def allowed_count_append)
qed

text \<open>
  C9: However requests are mixed, forged or malformed, those that arrive within one window of
  the limiter send at most twice its maximum of messages, telephony operations and media sessions
  together (with the daemon's settings: twenty in a minute).
\<close>

theorem mutations_rate_limited:
  assumes "0 < ml_window (ap_mutation_limiter st)"
    and "\<forall>(env, _) \<in> set arrivals. start \<le> de_now env \<and> de_now env < start + ml_window (ap_mutation_limiter st)"
  shows "effects (serve_all version json arrivals st) \<le> effects st + 2 * unat (ml_maximum (ap_mutation_limiter st))"
proof -
  obtain ts where ts: "set ts \<subseteq> (\<lambda>(env, _). de_now env) ` set arrivals"
    "effects (serve_all version json arrivals st) \<le> effects st + allowed_count (ap_mutation_limiter st) ts"
    using serve_all_paid by blast
  have "\<forall>t \<in> set ts. start \<le> t \<and> t < start + ml_window (ap_mutation_limiter st)"
    using ts(1) assms(2) by fastforce
  from allowed_count_two_windows [OF this assms(1)] ts(2) show ?thesis by simp
qed

theorem mutations_rate_limited_witness:
  "effects (serve_all ''0.1.0'' sample_bodies (replicate 50 (sample_env, sample_headers, PostMessage [])) sample_state) \<le> 20"
proof -
  have "effects sample_state = 0" by (simp add: effects_def sample_state_def MediaSystem_new_def)
  then show ?thesis
    using mutations_rate_limited [of sample_state "replicate 50 (sample_env, sample_headers, PostMessage [])" 0 "''0.1.0''" sample_bodies]
    by (auto simp: sample_state_def MutationLimiter_new_def sample_env_def from_secs_def)
qed

end
