(* ===== verification/Process_Runner.thy ===== *)
theory Process_Runner
  imports Rust_Text
begin

text \<open>
  \<open>crates/analogconnectd/src/process.rs\<close>, and the two runners built on it: \<open>BusctlRunner\<close>
  (\<open>hfp.rs\<close>) and \<open>PwDumpRunner\<close> (\<open>audio.rs\<close>). A helper process is started, polled until it exits
  or its deadline passes, killed if it does not exit, and its output, read by a second thread up
  to one byte beyond the bound, is collected. A run that never returns is the value \<open>None\<close>.
\<close>

section \<open>Running a helper\<close>

datatype BoundedProcessError = InvalidTimeout | Unavailable | TimedOut | Failed | OutputTooLarge

text \<open>What \<open>try_wait\<close> answers: the helper exited (successfully or not), still runs, or an error.\<close>

datatype poll = Exited bool | Running | PollFailed

text \<open>
  The helper and the system around it: whether it can be spawned, has a pipe and the reader thread
  can be started; the answers of \<open>try_wait\<close> and the time read after each of them; what the pipe
  delivers until it ends or fails (\<open>None\<close>: the thread panics); when the reader is done, which is
  at the end of the pipe, when every process that inherited it has closed it; and when \<open>wait\<close>
  returns for a helper that was killed. A time that never comes is \<open>None\<close>.
\<close>

record helper =
  hl_start :: nat
  hl_spawns :: bool
  hl_has_stdout :: bool
  hl_thread_starts :: bool
  hl_poll :: "nat \<Rightarrow> poll"
  hl_clock :: "nat \<Rightarrow> nat"
  hl_read :: "(u8 list, unit) result option"
  hl_reader_done :: "nat option"
  hl_reaped :: "nat option"

text \<open>What the run does to the system, and how the call ends.\<close>

datatype process_action = Spawned | ReaderStarted | Polled | Killed | Reaped | ReaderJoined

datatype 'a outcome = Returned 'a | Panicked

text \<open>The latest \<open>Instant\<close>: a 64-bit signed number of seconds and its nanoseconds.\<close>

definition instant_max :: nat where
  "instant_max = 2 ^ 63 * 1000000000 - 1"

definition POLL_INTERVAL :: nat where "POLL_INTERVAL = 10000000"

text \<open>The loop around \<open>try_wait\<close>, with the number of the poll it ends with.\<close>

partial_function (option) wait_child ::
  "helper \<Rightarrow> nat \<Rightarrow> nat \<Rightarrow> ((bool, BoundedProcessError) result \<times> nat) option" where
  "wait_child h deadline n =
     (case hl_poll h n of
        Exited success \<Rightarrow> Some (Ok success, n)
      | Running \<Rightarrow> if hl_clock h n < deadline then wait_child h deadline (Suc n) else Some (Err TimedOut, n)
      | PollFailed \<Rightarrow> Some (Err Unavailable, n))"

text \<open>The output after the reader was joined: \<open>take(maximum + 1)\<close>, then the bound, then the status.\<close>

definition collect_output ::
  "helper \<Rightarrow> nat \<Rightarrow> bool \<Rightarrow> (u8 list, BoundedProcessError) result" where
  "collect_output h maximum_output_bytes success =
     result_bind (ok_or (hl_read h) Unavailable) (\<lambda>read.
     result_bind (map_err (\<lambda>_. Unavailable) read) (\<lambda>bytes.
       let output = take (maximum_output_bytes + 1) bytes
       in if maximum_output_bytes < length output then Err OutputTooLarge
          else if success then Ok output else Err Failed))"

definition run_bounded ::
  "helper \<Rightarrow> nat \<Rightarrow> nat \<Rightarrow>
   ((u8 list, BoundedProcessError) result outcome \<times> process_action list \<times> nat) option" where
  "run_bounded h timeout maximum_output_bytes =
     (if timeout = 0 \<or> maximum_output_bytes = 0 \<or> instant_max < hl_start h + timeout
      then Some (Returned (Err InvalidTimeout), [], hl_start h)
      else if \<not> hl_spawns h then Some (Returned (Err Unavailable), [], hl_start h)
      else if \<not> hl_has_stdout h then
        map_option (\<lambda>reaped_at. (Returned (Err Unavailable), [Spawned, Killed, Reaped], max (hl_start h) reaped_at))
          (hl_reaped h)
      else if \<not> hl_thread_starts h then Some (Panicked, [Spawned], hl_start h)
      else Option.bind (wait_child h (hl_start h + timeout) 0) (\<lambda>(status, n).
           Option.bind (if is_ok status then Some (hl_clock h n) else map_option (max (hl_clock h n)) (hl_reaped h)) (\<lambda>reaped_at.
           map_option (\<lambda>done_at.
             (Returned (result_bind status (collect_output h maximum_output_bytes)),
              [Spawned, ReaderStarted] @ replicate (Suc n) Polled @
                (if is_ok status then [Reaped] else [Killed, Reaped]) @ [ReaderJoined],
              max reaped_at done_at)) (hl_reader_done h))))"

section \<open>The two runners\<close>

definition HELPER_TIMEOUT :: nat where "HELPER_TIMEOUT = from_secs 2"

definition MAX_HELPER_OUTPUT_BYTES :: nat where "MAX_HELPER_OUTPUT_BYTES = 1024 * 1024"

text \<open>The two constants have the same names in \<open>audio.rs\<close>; there the output bound is larger.\<close>

definition PW_DUMP_TIMEOUT :: nat where "PW_DUMP_TIMEOUT = from_secs 2"

definition PW_DUMP_MAX_OUTPUT_BYTES :: nat where "PW_DUMP_MAX_OUTPUT_BYTES = 16 * 1024 * 1024"

definition helper_text :: "(u8 list, BoundedProcessError) result \<Rightarrow> (string, unit) result" where
  "helper_text r = result_bind (map_err (\<lambda>_. ()) r) (\<lambda>output.
     if utf8_valid output then Ok (map char_of_byte output) else Err ())"

fun outcome_map :: "('a \<Rightarrow> 'b) \<Rightarrow> 'a outcome \<Rightarrow> 'b outcome" where
  "outcome_map f (Returned a) = Returned (f a)"
| "outcome_map f Panicked = Panicked"

text \<open>\<open>command\<close> is the system: the helper that runs for an executable and its arguments.\<close>

definition BusctlRunner_run ::
  "(string \<Rightarrow> string list \<Rightarrow> helper) \<Rightarrow> string \<Rightarrow> string list \<Rightarrow> (string, unit) result outcome option" where
  "BusctlRunner_run command executable arguments =
     map_option (\<lambda>(r, _). outcome_map helper_text r)
       (run_bounded (command executable arguments) HELPER_TIMEOUT MAX_HELPER_OUTPUT_BYTES)"

definition PwDumpRunner_dump ::
  "(string \<Rightarrow> string list \<Rightarrow> helper) \<Rightarrow> string \<Rightarrow> (string, unit) result outcome option" where
  "PwDumpRunner_dump command executable =
     map_option (\<lambda>(r, _). outcome_map helper_text r)
       (run_bounded (command executable []) PW_DUMP_TIMEOUT PW_DUMP_MAX_OUTPUT_BYTES)"

section \<open>The polling loop ends\<close>

text \<open>The clock between two polls: \<open>thread::sleep\<close> sleeps at least as long as it is told.\<close>

definition clock_advances :: "helper \<Rightarrow> bool" where
  "clock_advances h \<longleftrightarrow> hl_start h \<le> hl_clock h 0 \<and> (\<forall>n. hl_clock h n + POLL_INTERVAL \<le> hl_clock h (Suc n))"

lemma clock_after:
  assumes "clock_advances h"
  shows "hl_start h + n * POLL_INTERVAL \<le> hl_clock h n"
proof (induction n)
  case 0
  then show ?case using assms by (simp add: clock_advances_def)
next
  case (Suc n)
  have "hl_clock h n + POLL_INTERVAL \<le> hl_clock h (Suc n)" using assms by (simp add: clock_advances_def)
  with Suc show ?case by simp
qed

text \<open>What the loop ends with, when it ends: the polls before the last one all said \<open>Running\<close>.\<close>

definition waited :: "helper \<Rightarrow> nat \<Rightarrow> (bool, BoundedProcessError) result \<Rightarrow> nat \<Rightarrow> bool" where
  "waited h deadline status n \<longleftrightarrow>
     (\<forall>m < n. hl_poll h m = Running \<and> hl_clock h m < deadline) \<and>
     (case status of
        Inr success \<Rightarrow> hl_poll h n = Exited success
      | Inl e \<Rightarrow> (e = TimedOut \<and> hl_poll h n = Running \<and> deadline \<le> hl_clock h n) \<or>
                 (e = Unavailable \<and> hl_poll h n = PollFailed))"

lemma wait_child_step:
  assumes "\<forall>m < n. hl_poll h m = Running \<and> hl_clock h m < deadline"
    and "hl_clock h k \<ge> deadline" and "n \<le> k"
  shows "\<exists>status m. wait_child h deadline n = Some (status, m) \<and> m \<le> k \<and> waited h deadline status m"
  using assms(3,1)
proof (induction n rule: inc_induct)
  case base
  then show ?case using assms(2)
    by (cases "hl_poll h k") (auto simp: wait_child.simps [of h deadline k] waited_def)
next
  case (step n)
  show ?case
  proof (cases "hl_poll h n = Running \<and> hl_clock h n < deadline")
    case True
    then have "\<forall>m < Suc n. hl_poll h m = Running \<and> hl_clock h m < deadline"
      using step.prems by (auto simp: less_Suc_eq)
    from step.IH [OF this] True show ?thesis by (simp add: wait_child.simps [of h deadline n])
  next
    case False
    then show ?thesis using step
      by (cases "hl_poll h n") (auto simp: wait_child.simps [of h deadline n] waited_def)
  qed
qed

lemma wait_child_ends:
  assumes "clock_advances h"
  shows "\<exists>status n. wait_child h (hl_start h + timeout) 0 = Some (status, n) \<and>
    n \<le> timeout div POLL_INTERVAL + 1 \<and> waited h (hl_start h + timeout) status n"
proof -
  let ?k = "timeout div POLL_INTERVAL + 1"
  have "timeout \<le> ?k * POLL_INTERVAL"
    using dividend_less_div_times [of POLL_INTERVAL timeout] by (simp add: POLL_INTERVAL_def)
  then have "hl_start h + timeout \<le> hl_clock h ?k" using clock_after [OF assms, of ?k] by linarith
  then show ?thesis using wait_child_step [of 0 h "hl_start h + timeout" ?k] by simp
qed

lemma collect_output_Ok:
  "collect_output h maximum success = Ok bytes \<longleftrightarrow>
     success \<and> hl_read h = Some (Ok bytes) \<and> length bytes \<le> maximum"
  by (cases "hl_read h"; cases "the (hl_read h)") (auto simp: collect_output_def Let_def)

lemma collect_output_not_TimedOut: "collect_output h maximum success \<noteq> Err TimedOut"
  by (cases "hl_read h"; cases "the (hl_read h)") (auto simp: collect_output_def Let_def)

text \<open>A helper that is run at all: the arguments are valid, and it and its reader start.\<close>

definition helper_starts :: "helper \<Rightarrow> nat \<Rightarrow> nat \<Rightarrow> bool" where
  "helper_starts h timeout maximum \<longleftrightarrow> 0 < timeout \<and> 0 < maximum \<and> hl_start h + timeout \<le> instant_max \<and>
     hl_spawns h \<and> hl_has_stdout h \<and> hl_thread_starts h"

lemma run_started:
  assumes "helper_starts h timeout maximum" and "hl_reader_done h = Some t" and "hl_reaped h = Some d"
    and "wait_child h (hl_start h + timeout) 0 = Some (status, n)"
  shows "run_bounded h timeout maximum = Some (Returned (result_bind status (collect_output h maximum)),
      [Spawned, ReaderStarted] @ replicate (Suc n) Polled @
        (if is_ok status then [Reaped] else [Killed, Reaped]) @ [ReaderJoined],
      max (if is_ok status then hl_clock h n else max (hl_clock h n) d) t)"
  using assms by (auto simp: run_bounded_def helper_starts_def not_less)

lemma run_not_started:
  assumes "\<not> helper_starts h timeout maximum" and "hl_reaped h = Some d"
  shows "\<exists>r log finished. run_bounded h timeout maximum = Some (r, log, finished) \<and>
    set log \<subseteq> {Spawned, Killed, Reaped} \<and> finished \<le> max (hl_start h) d \<and>
    (r = Panicked \<or> (r \<in> {Returned (Err InvalidTimeout), Returned (Err Unavailable)} \<and> (Spawned \<in> set log \<longrightarrow> Reaped \<in> set log)))"
  using assms by (auto simp: run_bounded_def helper_starts_def)

text \<open>
  The oversleep of the loop is bounded: no more than \<open>delay\<close> passes up to the first poll and from
  one poll to the next.
\<close>

definition delayed_at_most :: "helper \<Rightarrow> nat \<Rightarrow> bool" where
  "delayed_at_most h delay \<longleftrightarrow> hl_clock h 0 \<le> hl_start h + delay \<and>
     (\<forall>n. hl_clock h (Suc n) \<le> hl_clock h n + delay)"

lemma waited_clock:
  assumes "waited h (hl_start h + timeout) status n" and "delayed_at_most h delay"
  shows "hl_clock h n \<le> hl_start h + timeout + delay"
proof (cases n)
  case 0
  then show ?thesis using assms(2) by (simp add: delayed_at_most_def)
next
  case (Suc m)
  then have "hl_clock h m < hl_start h + timeout" using assms(1) by (simp add: waited_def)
  moreover have "hl_clock h (Suc m) \<le> hl_clock h m + delay" using assms(2) by (simp add: delayed_at_most_def)
  ultimately show ?thesis using Suc by simp
qed

lemma count_list_replicate_self: "count_list (replicate n x) x = n"
  by (induction n) simp_all

lemma waited_unique:
  assumes "waited h deadline s n" and "waited h deadline (Ok success) m"
  shows "s = Ok success \<and> n = m"
proof -
  have "n = m"
    using assms by (cases n m rule: linorder_cases) (auto simp: waited_def split: sum.splits)
  then show ?thesis using assms by (auto simp: waited_def split: sum.splits)
qed

text \<open>The helper exits successfully before a poll finds the deadline passed.\<close>

definition exits_in_time :: "helper \<Rightarrow> nat \<Rightarrow> bool" where
  "exits_in_time h timeout \<longleftrightarrow> (\<exists>n \<le> timeout div POLL_INTERVAL + 1. hl_poll h n = Exited True \<and>
     (\<forall>m < n. hl_poll h m = Running \<and> hl_clock h m < hl_start h + timeout))"

lemma waited_Exited:
  "waited h deadline (Ok success) n \<longleftrightarrow>
     hl_poll h n = Exited success \<and> (\<forall>m < n. hl_poll h m = Running \<and> hl_clock h m < deadline)"
  by (auto simp: waited_def)


definition sample_helper :: helper where
  "sample_helper = \<lparr>hl_start = 0, hl_spawns = True, hl_has_stdout = True, hl_thread_starts = True,
     hl_poll = (\<lambda>n. if n = 0 then Running else Exited True), hl_clock = (\<lambda>n. n * POLL_INTERVAL),
     hl_read = Some (Ok [91, 93]), hl_reader_done = Some 5, hl_reaped = Some 0\<rparr>"


text \<open>
  The time is only bounded if the pipe ends. When a process that the helper left behind keeps the
  pipe open, the run does not return, although the helper itself exited at once.
\<close>

theorem open_pipe_blocks_run:
  assumes "helper_starts h timeout maximum" and "hl_poll h 0 = Exited True" and "hl_reader_done h = None"
  shows "run_bounded h timeout maximum = None"
  using assms by (auto simp: run_bounded_def helper_starts_def wait_child.simps [of h _ 0])

end
