(* ===== verification/Startup.thy ===== *)
theory Startup
  imports Daemon
begin

text \<open>
  \<open>crates/analogconnectd/src/main.rs\<close>: how the daemon comes up. Tokens, listening address and
  TLS paths come from the environment; the listener is plaintext only on a loopback address and
  otherwise TLS with a private key file of its own; the background tasks are started and the router
  is served. What the run does to the system is a log of actions. The parser of socket addresses
  (standard library), the TLS configuration (rustls) and the operating system are parameters.
\<close>

section \<open>Environment and addresses\<close>

datatype env_value = Present string | NotPresent | NotUnicode

datatype IpAddr = V4 u8 u8 u8 u8 | V6 "128 word"

record SocketAddr =
  sa_ip :: IpAddr
  sa_port :: u16

text \<open>\<open>127.0.0.0/8\<close>, and only \<open>::1\<close>: an IPv4-mapped loopback address is not loopback.\<close>

fun is_loopback :: "IpAddr \<Rightarrow> bool" where
  "is_loopback (V4 a b c d) = (a = 127)"
| "is_loopback (V6 w) = (w = 1)"

datatype StartError =
    TokenRequired | InvalidToken | PreviousNotUnicode | InvalidAddress
  | TlsPathEmpty | TlsPathNotUnicode | PlaintextNotLoopback | BothTlsPathsRequired
  | KeyNotReadable | KeyNotRegular | KeyPermissions | TlsNotLoaded | BindFailed | ServeFailed

datatype ListenerMode = Plaintext | Tls string string

definition DEFAULT_LISTEN_ADDR :: string where "DEFAULT_LISTEN_ADDR = ''127.0.0.1:8787''"
definition TLS_CERT_ENV :: string where "TLS_CERT_ENV = ''ANALOGCONNECT_TLS_CERT_PATH''"
definition TLS_KEY_ENV :: string where "TLS_KEY_ENV = ''ANALOGCONNECT_TLS_KEY_PATH''"

text \<open>
  What the start meets: environment variables, the address parser, the metadata of a file (regular or not,
  and its mode), whether the TLS files load, the listener binds and the server ends well.
\<close>

record StartEnv =
  se_var :: "string \<Rightarrow> env_value"
  se_parse :: "string \<Rightarrow> SocketAddr option"
  se_metadata :: "string \<Rightarrow> (bool \<times> u32) option"
  se_loads_tls :: "string \<Rightarrow> string \<Rightarrow> bool"
  se_binds :: "SocketAddr \<Rightarrow> bool"
  se_serves :: bool
  se_store :: "Store option"
  se_now :: nat

definition ListenerMode_transport_name :: "ListenerMode \<Rightarrow> string" where
  "ListenerMode_transport_name mode = (case mode of Plaintext \<Rightarrow> ''http'' | Tls _ _ \<Rightarrow> ''https'')"

definition optional_env :: "StartEnv \<Rightarrow> string \<Rightarrow> (string option, StartError) result" where
  "optional_env env name =
     (case se_var env name of
        Present v \<Rightarrow> if v = [] then Err TlsPathEmpty else Ok (Some v)
      | NotPresent \<Rightarrow> Ok None
      | NotUnicode \<Rightarrow> Err TlsPathNotUnicode)"

fun listener_mode :: "string option \<Rightarrow> string option \<Rightarrow> SocketAddr \<Rightarrow> (ListenerMode, StartError) result" where
  "listener_mode None None listen_addr =
     (if is_loopback (sa_ip listen_addr) then Ok Plaintext else Err PlaintextNotLoopback)"
| "listener_mode (Some cert) (Some key) listen_addr = Ok (Tls cert key)"
| "listener_mode _ _ listen_addr = Err BothTlsPathsRequired"

definition validate_private_key_file :: "StartEnv \<Rightarrow> string \<Rightarrow> (unit, StartError) result" where
  "validate_private_key_file env key_path =
     (case se_metadata env key_path of
        None \<Rightarrow> Err KeyNotReadable
      | Some (is_file, mode) \<Rightarrow>
          if \<not> is_file then Err KeyNotRegular
          else if mode AND 0x3F \<noteq> 0 then Err KeyPermissions
          else Ok ())"

definition start_tokens :: "StartEnv \<Rightarrow> (AuthTokens, StartError) result" where
  "start_tokens env =
     (case se_var env ''ANALOGCONNECT_API_TOKEN'' of
        Present token \<Rightarrow>
          result_bind (map_err (\<lambda>_. InvalidToken) (AuthToken_new token)) (\<lambda>auth_token.
            case se_var env ''ANALOGCONNECT_API_PREVIOUS_TOKEN'' of
              Present previous \<Rightarrow>
                result_bind (map_err (\<lambda>_. InvalidToken) (AuthToken_new previous)) (\<lambda>previous.
                  Ok (AuthTokens_with_previous auth_token previous))
            | NotPresent \<Rightarrow> Ok (AuthTokens_new auth_token)
            | NotUnicode \<Rightarrow> Err PreviousNotUnicode)
      | _ \<Rightarrow> Err TokenRequired)"

definition start_address :: "StartEnv \<Rightarrow> (SocketAddr, StartError) result" where
  "start_address env =
     ok_or (se_parse env (case se_var env ''ANALOGCONNECT_LISTEN_ADDR'' of
       Present v \<Rightarrow> v | _ \<Rightarrow> DEFAULT_LISTEN_ADDR)) InvalidAddress"

section \<open>The run\<close>

datatype 'r start_action =
    StartMessageSync | StartContactSync | StartAncs
  | Bind SocketAddr
  | Serve ListenerMode SocketAddr "'r AppState"

text \<open>\<open>AppState::new_with_tokens\<close>, with the message store that the repository finds when it is first used.\<close>

definition AppState_new_with_tokens ::
  "StartEnv \<Rightarrow> SystemStatus \<Rightarrow> AuthTokens \<Rightarrow> 'r \<Rightarrow> ('r AppState, AudioQueueError) result" where
  "AppState_new_with_tokens env status tokens random =
     result_bind (AppState_new status tokens (se_now env) random) (\<lambda>st.
       Ok (with_message_sync_coordinator (with_conversation_repository (Imsg (se_store env)) st)))"

definition serve_plaintext :: "StartEnv \<Rightarrow> SocketAddr \<Rightarrow> 'r AppState \<Rightarrow> (unit, StartError) result \<times> 'r start_action list" where
  "serve_plaintext env listen_addr st =
     (if \<not> se_binds env listen_addr then (Err BindFailed, [])
      else (if se_serves env then Ok () else Err ServeFailed,
            [Bind listen_addr, Serve Plaintext listen_addr st]))"

definition serve_tls ::
  "StartEnv \<Rightarrow> string \<Rightarrow> string \<Rightarrow> SocketAddr \<Rightarrow> 'r AppState \<Rightarrow> (unit, StartError) result \<times> 'r start_action list" where
  "serve_tls env cert key listen_addr st =
     (case validate_private_key_file env key of
        Inl e \<Rightarrow> (Err e, [])
      | Inr _ \<Rightarrow>
          if \<not> se_loads_tls env cert key then (Err TlsNotLoaded, [])
          else if \<not> se_binds env listen_addr then (Err BindFailed, [])
          else (if se_serves env then Ok () else Err ServeFailed,
                [Bind listen_addr, Serve (Tls cert key) listen_addr st]))"

text \<open>\<open>run\<close>; \<open>AppState\<close>'s audio queues have a valid fixed capacity, so its construction does not fail.\<close>

definition main_run :: "StartEnv \<Rightarrow> 'r \<Rightarrow> (unit, StartError) result \<times> 'r start_action list" where
  "main_run env random =
     (case result_bind (start_tokens env) (\<lambda>tokens.
           result_bind (start_address env) (\<lambda>listen_addr.
           result_bind (optional_env env TLS_CERT_ENV) (\<lambda>cert.
           result_bind (optional_env env TLS_KEY_ENV) (\<lambda>key.
           result_bind (listener_mode cert key listen_addr) (\<lambda>mode.
           result_bind (map_err (\<lambda>_. ServeFailed) (AppState_new_with_tokens env SystemStatus_default tokens random))
             (\<lambda>st. Ok (mode, listen_addr, st))))))) of
        Inl e \<Rightarrow> (Err e, [])
      | Inr (mode, listen_addr, st) \<Rightarrow>
          (case (case mode of
                   Plaintext \<Rightarrow> serve_plaintext env listen_addr st
                 | Tls cert key \<Rightarrow> serve_tls env cert key listen_addr st) of
             (r, log) \<Rightarrow> (r, [StartMessageSync, StartContactSync, StartAncs] @ log)))"

section \<open>What is served\<close>

lemma optional_env_Ok:
  "optional_env env name = Ok v \<longleftrightarrow>
     (case v of None \<Rightarrow> se_var env name = NotPresent | Some p \<Rightarrow> p \<noteq> [] \<and> se_var env name = Present p)"
  by (auto simp: optional_env_def split: env_value.splits option.splits)

lemma listener_mode_Ok:
  "listener_mode cert key a = Ok mode \<longleftrightarrow>
     (case mode of
        Plaintext \<Rightarrow> cert = None \<and> key = None \<and> is_loopback (sa_ip a)
      | Tls c k \<Rightarrow> cert = Some c \<and> key = Some k)"
  by (cases cert; cases key) (auto split: ListenerMode.splits)

lemma validate_key_Ok:
  "validate_private_key_file env key = Ok u \<longleftrightarrow> (\<exists>mode. se_metadata env key = Some (True, mode) \<and> mode AND 0x3F = 0)"
  by (auto simp: validate_private_key_file_def split: option.splits)

definition configured :: "StartEnv \<Rightarrow> AuthTokens \<Rightarrow> bool" where
  "configured env tokens \<longleftrightarrow>
     se_var env ''ANALOGCONNECT_API_TOKEN'' = Present (token_bytes (tk_current tokens)) \<and>
     32 \<le> length (token_bytes (tk_current tokens)) \<and>
     (case tk_previous tokens of
        None \<Rightarrow> se_var env ''ANALOGCONNECT_API_PREVIOUS_TOKEN'' = NotPresent
      | Some p \<Rightarrow> se_var env ''ANALOGCONNECT_API_PREVIOUS_TOKEN'' = Present (token_bytes p) \<and> 32 \<le> length (token_bytes p))"

lemma start_tokens_configured: "start_tokens env = Ok tokens \<Longrightarrow> configured env tokens"
  by (auto simp: start_tokens_def configured_def AuthTokens_new_def AuthTokens_with_previous_def AuthToken_new_Ok_iff
      result_bind_Ok_iff map_err_Ok_iff split: env_value.splits)

lemma new_state_tokens:
  "AppState_new_with_tokens env status tokens random = Ok st \<Longrightarrow> ap_auth_tokens st = tokens"
  by (auto simp: AppState_new_with_tokens_def AppState_new_def with_message_sync_coordinator_def
      with_conversation_repository_def result_bind_Ok_iff)

text \<open>How a listener may be served: plaintext on loopback, or TLS with a private key file.\<close>

definition listener_safe :: "StartEnv \<Rightarrow> ListenerMode \<Rightarrow> SocketAddr \<Rightarrow> bool" where
  "listener_safe env mode a \<longleftrightarrow>
     (case mode of
        Plaintext \<Rightarrow> is_loopback (sa_ip a) \<and> se_var env TLS_CERT_ENV = NotPresent \<and> se_var env TLS_KEY_ENV = NotPresent
      | Tls cert key \<Rightarrow> se_var env TLS_CERT_ENV = Present cert \<and> se_var env TLS_KEY_ENV = Present key \<and>
          se_loads_tls env cert key \<and> (\<exists>file_mode. se_metadata env key = Some (True, file_mode) \<and> file_mode AND 0x3F = 0))"

lemma run_serves:
  assumes "main_run env random = (r, log)" and "Serve mode a st \<in> set log"
  shows "listener_safe env mode a \<and> configured env (ap_auth_tokens st) \<and> start_address env = Ok a \<and>
    log = [StartMessageSync, StartContactSync, StartAncs, Bind a, Serve mode a st]"
proof -
  let ?pre = "result_bind (start_tokens env) (\<lambda>tokens.
           result_bind (start_address env) (\<lambda>listen_addr.
           result_bind (optional_env env TLS_CERT_ENV) (\<lambda>cert.
           result_bind (optional_env env TLS_KEY_ENV) (\<lambda>key.
           result_bind (listener_mode cert key listen_addr) (\<lambda>mode.
           result_bind (map_err (\<lambda>_. ServeFailed) (AppState_new_with_tokens env SystemStatus_default tokens random))
             (\<lambda>st. Ok (mode, listen_addr, st)))))))"
  show ?thesis
  proof (cases ?pre)
    case (Inl e)
    then show ?thesis using assms by (simp add: main_run_def)
  next
    case (Inr s)
    obtain m b st' where s: "s = (m, b, st')" by (rule prod_cases3)
    from Inr [unfolded s] obtain tokens cert key where pre: "start_tokens env = Ok tokens" "start_address env = Ok b"
      "optional_env env TLS_CERT_ENV = Ok cert" "optional_env env TLS_KEY_ENV = Ok key" "listener_mode cert key b = Ok m"
      "AppState_new_with_tokens env SystemStatus_default tokens random = Ok st'"
      by (auto simp: result_bind_Ok_iff map_err_Ok_iff)
    have tokens: "configured env (ap_auth_tokens st')"
      using start_tokens_configured [OF pre(1)] new_state_tokens [OF pre(6)] by simp
    have log: "mode = m \<and> a = b \<and> st = st' \<and> log = [StartMessageSync, StartContactSync, StartAncs, Bind b, Serve m b st'] \<and>
        (\<forall>c k. m = Tls c k \<longrightarrow> se_loads_tls env c k \<and> validate_private_key_file env k = Ok ())"
      using assms unfolding main_run_def Inr s
      by (auto simp: serve_plaintext_def serve_tls_def split: ListenerMode.splits sum.splits if_splits)
    have "listener_safe env m b"
      using log pre(3,4,5)
      by (cases m) (auto simp: listener_safe_def listener_mode_Ok optional_env_Ok validate_key_Ok)
    then show ?thesis using log tokens pre(2) by simp
  qed
qed

lemma run_nothing_served:
  assumes "main_run env random = (r, log)" and "\<forall>mode a st. Serve mode a st \<notin> set log"
  shows "r \<noteq> Ok () \<and> Bind b \<notin> set log"
  using assms
  by (auto simp: main_run_def serve_plaintext_def serve_tls_def split: sum.splits prod.splits ListenerMode.splits if_splits)

text \<open>Every header that carries one of the tokens in the environment.\<close>

definition carries_token :: "StartEnv \<Rightarrow> HeaderMap \<Rightarrow> bool" where
  "carries_token env headers \<longleftrightarrow> (\<exists>t. headers ''authorization'' = Some (''Bearer '' @ t) \<and>
     (se_var env ''ANALOGCONNECT_API_TOKEN'' = Present t \<or> se_var env ''ANALOGCONNECT_API_PREVIOUS_TOKEN'' = Present t))"

lemma configured_has_token: "configured env tokens \<Longrightarrow> has_token tokens headers \<Longrightarrow> carries_token env headers"
  by (auto simp: configured_def has_token_def carries_token_def split: option.splits)

text \<open>
  C14: The daemon comes up closed. If anything is served, it is served once, after the three
  background tasks were started, at the configured address: plaintext only on a loopback address with no TLS
  path set, otherwise TLS with both paths set, loaded, and a regular key file that denies group and
  other access. A request that does not carry a token of the environment, which have at least 32 bytes,
  is refused by every route that needs one and changes nothing: with 401, unless an extractor of the
  web framework has already rejected its body or query.
\<close>

theorem startup_secure:
  assumes "main_run env random = (r, log)" and "Serve mode a st \<in> set log"
    and "ct_eq_spec (de_ct_eq denv)" and "needs_token request" and "\<not> carries_token env headers"
  shows "log = [StartMessageSync, StartContactSync, StartAncs, Bind a, Serve mode a st] \<and>
    start_address env = Ok a \<and> listener_safe env mode a \<and> configured env (ap_auth_tokens st) \<and>
    serve version json denv headers request st =
      (case rejection json request of None \<Rightarrow> (Err UNAUTHORIZED, st) | Some code \<Rightarrow> (Err code, st))"
proof -
  note served = run_serves [OF assms(1,2)]
  then have "\<not> has_token (ap_auth_tokens st) headers" using configured_has_token assms(5) by blast
  then show ?thesis using served assms(3,4) 
    by (simp add: routes_unauthorized bearer_authorized_iff refused_with_def split: option.splits)
qed

definition sample_start :: StartEnv where
  "sample_start = \<lparr>
     se_var = (\<lambda>name. if name = ''ANALOGCONNECT_API_TOKEN'' then Present sample_token else NotPresent),
     se_parse = (\<lambda>text. if text = DEFAULT_LISTEN_ADDR then Some \<lparr>sa_ip = V4 127 0 0 1, sa_port = 8787\<rparr> else None),
     se_metadata = (\<lambda>_. None), se_loads_tls = (\<lambda>_ _. False), se_binds = (\<lambda>_. True), se_serves = True,
     se_store = None, se_now = 0\<rparr>"

lemma sample_run: "\<exists>st. main_run sample_start () =
    (Ok (), [StartMessageSync, StartContactSync, StartAncs, Bind \<lparr>sa_ip = V4 127 0 0 1, sa_port = 8787\<rparr>,
       Serve Plaintext \<lparr>sa_ip = V4 127 0 0 1, sa_port = 8787\<rparr> st])"
proof -
  have tokens: "start_tokens sample_start = Ok (AuthTokens_new (AuthToken sample_token))"
    by (simp add: start_tokens_def sample_start_def AuthToken_new_def sample_token_def)
  have address: "start_address sample_start = Ok \<lparr>sa_ip = V4 127 0 0 1, sa_port = 8787\<rparr>"
    by (simp add: start_address_def sample_start_def)
  have tls: "optional_env sample_start TLS_CERT_ENV = Ok None" "optional_env sample_start TLS_KEY_ENV = Ok None"
    by (simp_all add: optional_env_def sample_start_def TLS_CERT_ENV_def TLS_KEY_ENV_def)
  obtain st where "AppState_new_with_tokens sample_start SystemStatus_default (AuthTokens_new (AuthToken sample_token)) () = Ok st"
    by (auto simp: AppState_new_with_tokens_def AppState_new_def AudioBridge_new_def BoundedAudioQueue_new_def)
  then show ?thesis
    by (simp add: main_run_def tokens address tls serve_plaintext_def) (simp add: sample_start_def)
qed

theorem startup_secure_witness:
  "\<exists>st. serve ''0.1.0'' sample_bodies sample_env Map.empty GetStatus (st :: unit AppState) = (Err UNAUTHORIZED, st) \<and>
     listener_safe sample_start Plaintext \<lparr>sa_ip = V4 127 0 0 1, sa_port = 8787\<rparr>"
proof -
  obtain st where "main_run sample_start () =
    (Ok (), [StartMessageSync, StartContactSync, StartAncs, Bind \<lparr>sa_ip = V4 127 0 0 1, sa_port = 8787\<rparr>,
       Serve Plaintext \<lparr>sa_ip = V4 127 0 0 1, sa_port = 8787\<rparr> st])" using sample_run by blast
  from startup_secure [OF this, of Plaintext "\<lparr>sa_ip = V4 127 0 0 1, sa_port = 8787\<rparr>" st sample_env GetStatus Map.empty
      "''0.1.0''" sample_bodies]
  show ?thesis by (auto simp: sample_env_def ct_eq_spec_def carries_token_def)
qed

end
