(* ===== verification/Ancs_Bearer.thy ===== *)
theory Ancs_Bearer
  imports Ancs_Transport "HOL-Library.Sublist"
begin

text \<open>
  \<open>crates/analogconnectd/src/ancs_bluez.rs\<close>: the BlueZ bearer of ANCS. A session finds the device and its three
  characteristics, subscribes to two of them and then feeds notifications to the supervisor of
  \<open>Ancs_Transport\<close>; \<open>run\<close> repeats sessions with the supervisor's backoff until it is shut down. The
  BlueZ library is a parameter: each of its operations answers a value, fails, or takes longer than
  the operation timeout. What arrives while a session listens is a list of events, in the order
  in which \<open>select!\<close> takes them; a session whose events are exhausted is still listening.
\<close>

section \<open>Characteristics\<close>

definition ANCS_SERVICE :: string where "ANCS_SERVICE = ''7905f431-b5ce-4e99-a40f-4b1e122d00d0''"
definition NOTIFICATION_SOURCE :: string where "NOTIFICATION_SOURCE = ''9fbf120d-6301-42d9-8c58-25e699a21dbd''"
definition CONTROL_POINT :: string where "CONTROL_POINT = ''69d1d8f3-45e1-49a8-9821-9bbdfdaad9d9''"
definition DATA_SOURCE :: string where "DATA_SOURCE = ''22eac6e9-24d6-4bb5-be44-b36ace7c7bfb''"

datatype BluezAncsError =
  Configuration | Bluez | DeviceNotTrusted | Timeout | Characteristics | StreamEnded | ConsumerStopped

datatype BluezAncsState =
  Disconnected | Discovering | SubscribingNotificationSource | SubscribingDataSource | Ready | BackingOff

datatype CharacteristicRole = NotificationSource | ControlPoint | DataSource

record 'c CharacteristicSet =
  cs_notification_source :: "'c option"
  cs_control_point :: "'c option"
  cs_data_source :: "'c option"

definition characteristic_role :: "string \<Rightarrow> CharacteristicRole option" where
  "characteristic_role uuid =
     (if eq_ignore_ascii_case uuid NOTIFICATION_SOURCE then Some CharacteristicRole.NotificationSource
      else if eq_ignore_ascii_case uuid CONTROL_POINT then Some CharacteristicRole.ControlPoint
      else if eq_ignore_ascii_case uuid DATA_SOURCE then Some CharacteristicRole.DataSource
      else None)"

definition CharacteristicSet_complete :: "'c CharacteristicSet \<Rightarrow> ('c \<times> 'c \<times> 'c, BluezAncsError) result" where
  "CharacteristicSet_complete self =
     result_bind (ok_or (cs_notification_source self) Characteristics) (\<lambda>notification_source.
     result_bind (ok_or (cs_control_point self) Characteristics) (\<lambda>control_point.
     result_bind (ok_or (cs_data_source self) Characteristics) (\<lambda>data_source.
       Ok (notification_source, control_point, data_source))))"

text \<open>The answer to a BlueZ operation: \<open>None\<close> when 20 seconds pass without one.\<close>

type_synonym 'a reply = "('a, unit) result option"

definition timeout :: "'a reply \<Rightarrow> ('a, BluezAncsError) result" where
  "timeout future = result_bind (ok_or future Timeout) (map_err (\<lambda>_. Bluez))"

record 'c gatt_service =
  gs_uuid :: "string reply"
  gs_characteristics :: "(string reply \<times> 'c) list reply"

definition record_characteristic ::
  "string \<Rightarrow> 'c \<Rightarrow> 'c CharacteristicSet \<Rightarrow> 'c CharacteristicSet" where
  "record_characteristic uuid characteristic found =
     (case characteristic_role uuid of
        Some CharacteristicRole.NotificationSource \<Rightarrow> found\<lparr>cs_notification_source := Some characteristic\<rparr>
      | Some CharacteristicRole.ControlPoint \<Rightarrow> found\<lparr>cs_control_point := Some characteristic\<rparr>
      | Some CharacteristicRole.DataSource \<Rightarrow> found\<lparr>cs_data_source := Some characteristic\<rparr>
      | None \<Rightarrow> found)"

fun scan_characteristics ::
  "(string reply \<times> 'c) list \<Rightarrow> 'c CharacteristicSet \<Rightarrow> ('c CharacteristicSet, BluezAncsError) result" where
  "scan_characteristics [] found = Ok found"
| "scan_characteristics ((uuid, characteristic) # rest) found =
     result_bind (timeout uuid) (\<lambda>uuid. scan_characteristics rest (record_characteristic uuid characteristic found))"

fun scan_services ::
  "'c gatt_service list \<Rightarrow> 'c CharacteristicSet \<Rightarrow> ('c CharacteristicSet, BluezAncsError) result" where
  "scan_services [] found = Ok found"
| "scan_services (service # rest) found =
     result_bind (timeout (gs_uuid service)) (\<lambda>uuid.
       if \<not> eq_ignore_ascii_case uuid ANCS_SERVICE then scan_services rest found
       else result_bind (timeout (gs_characteristics service)) (\<lambda>characteristics.
            result_bind (scan_characteristics characteristics found) (scan_services rest)))"

definition discover :: "'c gatt_service list reply \<Rightarrow> ('c \<times> 'c \<times> 'c, BluezAncsError) result" where
  "discover services =
     result_bind (timeout services) (\<lambda>services.
     result_bind (scan_services services \<lparr>cs_notification_source = None, cs_control_point = None, cs_data_source = None\<rparr>)
       CharacteristicSet_complete)"

section \<open>A session\<close>

text \<open>
  What a session meets before it listens: the configured address, then BlueZ; and the events. A change
  of the shutdown channel says whether its sender is gone and its value; the two streams deliver a
  value or end, with BlueZ's answer to the write that a value may cause; and the consumer of
  the output takes an entry or goes away.
\<close>

datatype bearer_event =
    ShutdownChanged bool bool
  | NotificationEvent "u8 list option" "unit reply"
  | DataEvent "u8 list option" "unit reply"
  | ConsumerTakes
  | ConsumerGone

record 'c BearerEnv =
  be_address :: "string option"
  be_parse_address :: "string \<Rightarrow> bool"
  be_session :: "unit reply"
  be_adapter :: "unit reply"
  be_device :: bool
  be_paired :: "bool reply"
  be_trusted :: "bool reply"
  be_connected :: "bool reply"
  be_connect :: "unit reply"
  be_services :: "'c gatt_service list reply"
  be_notify_source :: "unit reply"
  be_notify_data :: "unit reply"
  be_events :: "bearer_event list"

text \<open>The supervisor, the channels (output of 32 entries, published states, shutdown), and all that was written.\<close>

record BearerState =
  bs_supervisor :: AncsSupervisor
  bs_states :: "BluezAncsState list"
  bs_output :: "AncsNotificationMetadata list"
  bs_consumer_alive :: bool
  bs_shutdown :: bool
  bs_sent :: "AncsNotificationMetadata list"
  bs_writes :: "u8 list list"

definition publish :: "BluezAncsState \<Rightarrow> BearerState \<Rightarrow> BearerState" where
  "publish state st = st\<lparr>bs_states := bs_states st @ [state]\<rparr>"

definition session_prepare :: "'c BearerEnv \<Rightarrow> ('c \<times> 'c \<times> 'c, BluezAncsError) result" where
  "session_prepare env =
     result_bind (ok_or (be_address env) Configuration) (\<lambda>address.
       if \<not> be_parse_address env address then Err Configuration
       else result_bind (timeout (be_session env)) (\<lambda>_.
            result_bind (timeout (be_adapter env)) (\<lambda>_.
              if \<not> be_device env then Err Bluez
              else result_bind (timeout (be_paired env)) (\<lambda>paired.
                   result_bind (if \<not> paired then Err DeviceNotTrusted else timeout (be_trusted env)) (\<lambda>trusted.
                     if \<not> trusted then Err DeviceNotTrusted
                     else result_bind (timeout (be_connected env)) (\<lambda>connected.
                          result_bind (if connected then Ok () else timeout (be_connect env)) (\<lambda>_.
                            discover (be_services env))))))))"

definition session_subscribe :: "'c BearerEnv \<Rightarrow> BearerState \<Rightarrow> (unit, BluezAncsError) result \<times> BearerState" where
  "session_subscribe env st =
     (let st = publish SubscribingNotificationSource
                 (st\<lparr>bs_supervisor := snd (AncsSupervisor_connected (bs_supervisor st))\<rparr>)
      in case timeout (be_notify_source env) of
           Inl e \<Rightarrow> (Err e, st)
         | Inr _ \<Rightarrow>
             let st = publish SubscribingDataSource
                   (st\<lparr>bs_supervisor := snd (AncsSupervisor_notification_source_subscribed (bs_supervisor st))\<rparr>)
             in case timeout (be_notify_data env) of
                  Inl e \<Rightarrow> (Err e, st)
                | Inr _ \<Rightarrow> (Ok (), publish Ready
                    (st\<lparr>bs_supervisor := AncsSupervisor_data_source_subscribed (bs_supervisor st)\<rparr>)))"

definition write_control :: "u8 list \<Rightarrow> unit reply \<Rightarrow> BearerState \<Rightarrow> (unit, BluezAncsError) result \<times> BearerState" where
  "write_control request reply st = (timeout reply, st\<lparr>bs_writes := bs_writes st @ [request]\<rparr>)"

definition run_command ::
  "SupervisorCommand option \<Rightarrow> unit reply \<Rightarrow> BearerState \<Rightarrow> (unit, BluezAncsError) result \<times> BearerState" where
  "run_command command reply st =
     (case command of Some (WriteControlPoint request) \<Rightarrow> write_control request reply st | _ \<Rightarrow> (Ok (), st))"

text \<open>\<open>output.try_send\<close>: a full channel fails as \<open>Bluez\<close>, one without a receiver as \<open>ConsumerStopped\<close>.\<close>

definition try_send :: "AncsNotificationMetadata option \<Rightarrow> BearerState \<Rightarrow> (unit, BluezAncsError) result \<times> BearerState" where
  "try_send metadata st =
     (case metadata of
        None \<Rightarrow> (Ok (), st)
      | Some metadata \<Rightarrow>
          if \<not> bs_consumer_alive st then (Err ConsumerStopped, st)
          else if 32 \<le> length (bs_output st) then (Err Bluez, st)
          else (Ok (), st\<lparr>bs_output := bs_output st @ [metadata], bs_sent := bs_sent st @ [metadata]\<rparr>))"

text \<open>One round of \<open>select!\<close>: \<open>Some\<close> result ends the session.\<close>

definition going_on :: "(unit, BluezAncsError) result \<times> BearerState \<Rightarrow> (unit, BluezAncsError) result option \<times> BearerState" where
  "going_on p = (case p of (Inl e, st) \<Rightarrow> (Some (Err e), st) | (Inr _, st) \<Rightarrow> (None, st))"

fun session_event :: "bearer_event \<Rightarrow> BearerState \<Rightarrow> (unit, BluezAncsError) result option \<times> BearerState" where
  "session_event (ShutdownChanged closed v) st =
     (let st = st\<lparr>bs_shutdown := v\<rparr> in if closed \<or> v then (Some (Ok ()), st) else (None, st))"
| "session_event (NotificationEvent None reply) st = (Some (Err StreamEnded), st)"
| "session_event (NotificationEvent (Some bytes) reply) st =
     (case AncsSupervisor_notification_source (bs_supervisor st) bytes of
        (command, supervisor) \<Rightarrow> going_on (run_command command reply (st\<lparr>bs_supervisor := supervisor\<rparr>)))"
| "session_event (DataEvent None reply) st = (Some (Err StreamEnded), st)"
| "session_event (DataEvent (Some bytes) reply) st =
     (case AncsSupervisor_data_source (bs_supervisor st) bytes of
        ((metadata, command), supervisor) \<Rightarrow>
          (case try_send metadata (st\<lparr>bs_supervisor := supervisor\<rparr>) of
             (Inl e, st) \<Rightarrow> (Some (Err e), st)
           | (Inr _, st) \<Rightarrow> going_on (run_command command reply st)))"
| "session_event ConsumerTakes st = (None, st\<lparr>bs_output := drop 1 (bs_output st)\<rparr>)"
| "session_event ConsumerGone st = (None, st\<lparr>bs_consumer_alive := False\<rparr>)"

fun session_loop :: "bearer_event list \<Rightarrow> BearerState \<Rightarrow> (unit, BluezAncsError) result option \<times> BearerState" where
  "session_loop [] st = (None, st)"
| "session_loop (e # es) st =
     (case session_event e st of
        (Some r, st) \<Rightarrow> (Some r, st)
      | (None, st) \<Rightarrow> session_loop es st)"

definition session :: "'c BearerEnv \<Rightarrow> BearerState \<Rightarrow> (unit, BluezAncsError) result option \<times> BearerState" where
  "session env st =
     (case session_prepare env of
        Inl e \<Rightarrow> (Some (Err e), st)
      | Inr _ \<Rightarrow>
          (case session_subscribe env st of
             (Inl e, st) \<Rightarrow> (Some (Err e), st)
           | (Inr _, st) \<Rightarrow> session_loop (be_events env) st))"

section \<open>Sessions with backoff\<close>

text \<open>How the pause after a session ends: it was slept through, or the shutdown channel changed.\<close>

datatype pause = Slept | PauseChanged bool bool

text \<open>
  \<open>run\<close> over the sessions it gets to, each with its pause: whether it returned, the state, and
  the delays it asked for.
\<close>

fun bearer_run :: "('c BearerEnv \<times> pause) list \<Rightarrow> BearerState \<Rightarrow> bool \<times> BearerState \<times> u64 list" where
  "bearer_run [] st = (bs_shutdown st, st, [])"
| "bearer_run ((env, pause) # rest) st =
     (if bs_shutdown st then (True, st, [])
      else case session env (publish Discovering st) of
        (None, st) \<Rightarrow> (False, st, [])
      | (Some r, st) \<Rightarrow>
          if r = Ok () \<and> bs_shutdown st then (True, st, [])
          else case AncsSupervisor_disconnected (bs_supervisor st) of
            (RetryAfterSeconds seconds, supervisor) \<Rightarrow>
              let st = publish BackingOff (st\<lparr>bs_supervisor := supervisor\<rparr>)
              in (case pause of
                    Slept \<Rightarrow> (case bearer_run rest st of (returned, st, delays) \<Rightarrow> (returned, st, seconds # delays))
                  | PauseChanged closed v \<Rightarrow>
                      let st = st\<lparr>bs_shutdown := v\<rparr>
                      in if closed \<or> v then (True, st, [seconds])
                         else case bearer_run rest st of (returned, st, delays) \<Rightarrow> (returned, st, seconds # delays))
          | (_, supervisor) \<Rightarrow> (True, st\<lparr>bs_supervisor := supervisor\<rparr>, []))"

section \<open>Deliveries follow requests\<close>

lemma notification_source_pending:
  assumes "AncsProtocolConsumer_notification_source c bytes = (request, c')"
  shows "case request of
      None \<Rightarrow> ap_pending c' = ap_pending c
    | Some r \<Rightarrow> ap_pending c = None \<and> (\<exists>uid. r = attribute_request uid \<and> ap_pending c' = Some uid)"
  using assms
  by (auto simp: AncsProtocolConsumer_notification_source_def Let_def simp del: split_paired_Ex
      split: option.splits if_splits)

lemma start_next_pending:
  assumes "AncsProtocolConsumer_start_next c = (request, c')"
  shows "case request of
      None \<Rightarrow> ap_pending c' = None
    | Some r \<Rightarrow> \<exists>uid. r = attribute_request uid \<and> ap_pending c' = Some uid"
  using assms
  by (auto simp: AncsProtocolConsumer_start_next_def AncsProtocolConsumer_reset_pending_def Let_def
      simp del: split_paired_Ex split: list.splits)

lemma data_source_pending:
  assumes "AncsProtocolConsumer_data_source c bytes = ((metadata, request), c')"
  shows "(\<forall>m. metadata = Some m \<longrightarrow> ap_pending c = Some (md_uid m)) \<and>
    (case request of
      None \<Rightarrow> ap_pending c' = None \<or> (ap_pending c' = ap_pending c \<and> metadata = None)
    | Some r \<Rightarrow> \<exists>uid. r = attribute_request uid \<and> ap_pending c' = Some uid)"
proof (cases "ap_pending c = None \<or> MAX_RESPONSE_BYTES < length (ap_response c) + length bytes")
  case True
  then have "metadata = None"
    "AncsProtocolConsumer_start_next (AncsProtocolConsumer_reset_pending c) = (request, c')"
    using assms by (auto simp: AncsProtocolConsumer_data_source_def Let_def split: prod.splits)
  then show ?thesis using start_next_pending by (fastforce split: option.splits)
next
  case False
  then obtain uid where uid: "ap_pending c = Some uid" by (cases "ap_pending c") auto
  show ?thesis
  proof (cases "parse_attributes (ap_response c @ bytes)")
    case None
    then show ?thesis using assms False by (auto simp: AncsProtocolConsumer_data_source_def Let_def)
  next
    case (Some r)
    then obtain vs n d where "metadata = metadata_of uid vs" "AncsProtocolConsumer_start_next d = (request, c')"
      using assms False uid by (cases r) (auto simp: AncsProtocolConsumer_data_source_def Let_def split: prod.splits)
    then show ?thesis
      using start_next_pending [of d request c'] uid by (auto simp: metadata_of_def split: option.splits if_splits)
  qed
qed

text \<open>The requests of the deliveries so far, and what a bearer keeps while it listens and after it.\<close>

definition delivered_requests :: "BearerState \<Rightarrow> u8 list list" where
  "delivered_requests st = map (\<lambda>m. attribute_request (md_uid m)) (bs_sent st)"

definition bearer_ok :: "BearerState \<Rightarrow> bool" where
  "bearer_ok st \<longleftrightarrow> subseq (delivered_requests st) (bs_writes st) \<and>
     set (bs_writes st) \<subseteq> range attribute_request \<and>
     length (bs_output st) \<le> 32 \<and> suffix (bs_output st) (bs_sent st)"

definition listening_ok :: "BearerState \<Rightarrow> bool" where
  "listening_ok st \<longleftrightarrow> bearer_ok st \<and>
     (\<forall>uid. ap_pending (sv_protocol (bs_supervisor st)) = Some uid \<longrightarrow>
        (\<exists>ws. bs_writes st = ws @ [attribute_request uid] \<and> subseq (delivered_requests st) ws))"

lemma listening_ok_idle:
  "bearer_ok st \<Longrightarrow> ap_pending (sv_protocol (bs_supervisor st)) = None \<Longrightarrow> listening_ok st"
  by (simp add: listening_ok_def)

lemma subseq_one_more: "subseq xs ws \<Longrightarrow> subseq xs (ws @ [w])"
  by (rule subseq_rev_drop_many)

text \<open>Writing the request of the notification that is now pending.\<close>

lemma write_request:
  assumes "bearer_ok st" and "ap_pending (sv_protocol (bs_supervisor st)) = Some uid"
    and "write_control (attribute_request uid) reply st = (r, st')"
  shows "listening_ok st'"
  using assms by (auto simp: write_control_def listening_ok_def bearer_ok_def delivered_requests_def subseq_one_more)

lemma run_request:
  assumes ok: "bearer_ok st" and run: "run_command (map_option WriteControlPoint request) reply st = (r, st')"
    and req: "case request of
        None \<Rightarrow> listening_ok st
      | Some w \<Rightarrow> \<exists>uid. w = attribute_request uid \<and> ap_pending (sv_protocol (bs_supervisor st)) = Some uid"
  shows "listening_ok st'"
proof (cases request)
  case None
  then show ?thesis using run req by (simp add: run_command_def)
next
  case (Some w)
  then obtain uid where "w = attribute_request uid" "ap_pending (sv_protocol (bs_supervisor st)) = Some uid"
    using req by auto
  then show ?thesis using write_request [OF ok, of uid reply r st'] run Some by (simp add: run_command_def)
qed

lemma going_on_snd [simp]: "snd (going_on p) = snd p"
  by (auto simp: going_on_def split: prod.splits sum.splits)

text \<open>A delivery answers the request that was written last.\<close>

lemma try_send_ok:
  assumes "listening_ok st" and "try_send metadata (st\<lparr>bs_supervisor := supervisor\<rparr>) = (r, st')"
    and "\<forall>m. metadata = Some m \<longrightarrow> ap_pending (sv_protocol (bs_supervisor st)) = Some (md_uid m)"
  shows "bearer_ok st' \<and> bs_supervisor st' = supervisor \<and> (metadata = None \<longrightarrow> st' = st\<lparr>bs_supervisor := supervisor\<rparr>)"
proof (cases metadata)
  case None
  then show ?thesis using assms by (auto simp: try_send_def listening_ok_def bearer_ok_def delivered_requests_def)
next
  case (Some m)
  then obtain ws where ws: "bs_writes st = ws @ [attribute_request (md_uid m)]" "subseq (delivered_requests st) ws"
    using assms(1,3) by (auto simp: listening_ok_def)
  from assms(1) have "suffix (bs_output st) (bs_sent st)" by (simp add: listening_ok_def bearer_ok_def)
  then have "suffix (bs_output st @ [m]) (bs_sent st @ [m])" by (auto simp: suffix_def)
  then show ?thesis
    using assms(1,2) Some ws
    by (auto simp: try_send_def listening_ok_def bearer_ok_def delivered_requests_def subseq_append simp del: split_paired_All split: if_splits)
qed

lemma notification_event_ok:
  assumes ok: "listening_ok st" and run: "session_event (NotificationEvent (Some bytes) reply) st = (r, st')"
  shows "listening_ok st'"
proof (cases "sv_state (bs_supervisor st) = SupervisorState.Ready")
  case False
  then show ?thesis
    using ok run by (simp add: AncsSupervisor_notification_source_def run_command_def going_on_def listening_ok_def)
next
  case True
  obtain request protocol where p: "AncsProtocolConsumer_notification_source (sv_protocol (bs_supervisor st)) bytes = (request, protocol)"
    by fastforce
  let ?st = "st\<lparr>bs_supervisor := (bs_supervisor st)\<lparr>sv_protocol := protocol\<rparr>\<rparr>"
  have base: "bearer_ok ?st" using ok by (simp add: listening_ok_def bearer_ok_def delivered_requests_def)
  have "\<exists>r'. run_command (map_option WriteControlPoint request) reply ?st = (r', st')"
    using run p True by (cases "run_command (map_option WriteControlPoint request) reply ?st")
      (auto simp: AncsSupervisor_notification_source_def going_on_def split: sum.splits)
  moreover have "case request of
        None \<Rightarrow> listening_ok ?st
      | Some w \<Rightarrow> \<exists>uid. w = attribute_request uid \<and> ap_pending (sv_protocol (bs_supervisor ?st)) = Some uid"
    using notification_source_pending [OF p] ok base
    by (auto simp: listening_ok_def delivered_requests_def simp del: split_paired_All split_paired_Ex split: option.splits)
  ultimately show ?thesis using run_request [OF base] by blast
qed

lemma data_event_ok:
  assumes ok: "listening_ok st" and run: "session_event (DataEvent (Some bytes) reply) st = (r, st')"
  shows "bearer_ok st' \<and> (r = None \<longrightarrow> listening_ok st')"
proof (cases "sv_state (bs_supervisor st) = SupervisorState.Ready")
  case False
  then show ?thesis
    using ok run by (simp add: AncsSupervisor_data_source_def try_send_def run_command_def going_on_def listening_ok_def)
next
  case True
  obtain metadata request protocol where
    p: "AncsProtocolConsumer_data_source (sv_protocol (bs_supervisor st)) bytes = ((metadata, request), protocol)"
    by (metis surj_pair)
  let ?sv = "(bs_supervisor st)\<lparr>sv_protocol := protocol\<rparr>"
  obtain sent st1 where t: "try_send metadata (st\<lparr>bs_supervisor := ?sv\<rparr>) = (sent, st1)" by fastforce
  note pending = data_source_pending [OF p]
  have st1: "bearer_ok st1" "bs_supervisor st1 = ?sv" "metadata = None \<Longrightarrow> st1 = st\<lparr>bs_supervisor := ?sv\<rparr>"
    using try_send_ok [OF ok t] pending by blast+
  show ?thesis
  proof (cases sent)
    case (Inl e)
    then show ?thesis using run p t True st1(1) by (auto simp: AncsSupervisor_data_source_def)
  next
    case (Inr u)
    then have "\<exists>r'. run_command (map_option WriteControlPoint request) reply st1 = (r', st')"
      using run p t True by (cases "run_command (map_option WriteControlPoint request) reply st1")
        (auto simp: AncsSupervisor_data_source_def going_on_def split: sum.splits)
    moreover have "case request of
        None \<Rightarrow> listening_ok st1
      | Some w \<Rightarrow> \<exists>uid. w = attribute_request uid \<and> ap_pending (sv_protocol (bs_supervisor st1)) = Some uid"
    proof (cases request)
      case None
      then consider "ap_pending protocol = None"
        | "ap_pending protocol = ap_pending (sv_protocol (bs_supervisor st))" "metadata = None"
        using pending by auto
      then have "listening_ok st1"
      proof cases
        case 1
        then show ?thesis using st1 by (simp add: listening_ok_idle)
      next
        case 2
        then show ?thesis using ok st1 by (simp add: listening_ok_def delivered_requests_def)
      qed
      then show ?thesis using None by simp
    next
      case (Some w)
      then show ?thesis using pending st1(2) by simp
    qed
    ultimately have "listening_ok st'" using run_request [OF st1(1)] by blast
    then show ?thesis by (simp add: listening_ok_def)
  qed
qed

lemma session_event_ok:
  assumes ok: "listening_ok st" and run: "session_event e st = (r, st')"
  shows "bearer_ok st' \<and> (r = None \<longrightarrow> listening_ok st')"
proof (cases "(e, st)" rule: session_event.cases)
  case (3 bytes reply st)
  then show ?thesis using notification_event_ok ok run by (metis listening_ok_def prod.inject)
next
  case (5 bytes reply st)
  then show ?thesis using data_event_ok ok run by (metis prod.inject)
next
  case (6 st)
  then have "suffix (drop 1 (bs_output st)) (bs_sent st)"
    using ok suffix_drop [of 1 "bs_output st"] suffix_order.trans
    by (auto simp: listening_ok_def bearer_ok_def)
  then show ?thesis
    using ok run 6 by (auto simp: listening_ok_def bearer_ok_def delivered_requests_def simp del: split_paired_All)
qed (use ok run in \<open>auto simp: listening_ok_def bearer_ok_def delivered_requests_def Let_def
      simp del: split_paired_All split: if_splits\<close>)

lemma session_loop_ok:
  "listening_ok st \<Longrightarrow> session_loop es st = (r, st') \<Longrightarrow> bearer_ok st' \<and> (r = None \<longrightarrow> listening_ok st')"
proof (induction es arbitrary: st)
  case Nil
  then show ?case by (simp add: listening_ok_def)
next
  case (Cons e es)
  obtain r1 st1 where e: "session_event e st = (r1, st1)" by fastforce
  show ?case using Cons session_event_ok [OF Cons.prems(1) e] e by (cases r1) auto
qed

lemma bearer_ok_update [simp]:
  "bearer_ok (publish s st) = bearer_ok st"
  "bearer_ok (st\<lparr>bs_supervisor := sv\<rparr>) = bearer_ok st"
  "bearer_ok (st\<lparr>bs_shutdown := v\<rparr>) = bearer_ok st"
  by (simp_all add: bearer_ok_def publish_def delivered_requests_def)

lemma session_subscribe_ok:
  assumes "bearer_ok st" and "session_subscribe env st = (r, st')"
  shows "bearer_ok st' \<and> (r = Ok () \<longrightarrow> listening_ok st')"
  using assms
  by (auto simp: session_subscribe_def Let_def intro!: listening_ok_idle split: sum.splits)
    (simp_all add: publish_def AncsSupervisor_connected_def AncsProtocolConsumer_default_def
      AncsSupervisor_notification_source_subscribed_def AncsSupervisor_data_source_subscribed_def)

lemma session_ok:
  assumes "bearer_ok st" and "session env st = (r, st')"
  shows "bearer_ok st'"
proof -
  obtain r1 st1 where s: "session_subscribe env st = (r1, st1)" by fastforce
  have "bearer_ok st1" "r1 = Ok () \<Longrightarrow> listening_ok st1" using session_subscribe_ok [OF assms(1) s] by auto
  then show ?thesis
    using assms s session_loop_ok by (auto simp: session_def split: sum.splits)
qed

lemma disconnected_command:
  "AncsSupervisor_disconnected sv = (RetryAfterSeconds (fst (ReconnectBackoff_failed (sv_backoff sv))),
     sv\<lparr>sv_state := SupervisorState.Disconnected, sv_protocol := AncsProtocolConsumer_default,
       sv_backoff := snd (ReconnectBackoff_failed (sv_backoff sv))\<rparr>)"
  by (simp add: AncsSupervisor_disconnected_def case_prod_unfold Let_def)

lemma run_ok: "bearer_ok st \<Longrightarrow> bearer_run sessions st = (returned, st', delays) \<Longrightarrow> bearer_ok st'"
proof (induction sessions st arbitrary: returned delays rule: bearer_run.induct)
  case (1 st)
  then show ?case by simp
next
  case (2 env pause rest st)
  obtain r1 st1 where s: "session env (publish Discovering st) = (r1, st1)" by fastforce
  have "bearer_ok st1" using session_ok [OF _ s] 2(3) by simp
  then show ?case
    using 2 s by (auto simp: disconnected_command Let_def split: if_splits option.splits pause.splits prod.splits)
qed

definition bearer_start :: BearerState where
  "bearer_start = \<lparr>bs_supervisor = AncsSupervisor_default, bs_states = [], bs_output = [],
     bs_consumer_alive = True, bs_shutdown = False, bs_sent = [], bs_writes = []\<rparr>"

lemma run_bearer_ok: "bearer_run sessions bearer_start = (returned, st, delays) \<Longrightarrow> bearer_ok st"
  by (rule run_ok) (simp_all add: bearer_ok_def bearer_start_def delivered_requests_def)

lemma run_requests:
  assumes "bearer_run sessions bearer_start = (returned, st, delays)" and "m \<in> set (bs_sent st)"
  shows "attribute_request (md_uid m) \<in> set (bs_writes st)"
proof -
  have "subseq (delivered_requests st) (bs_writes st)"
    using run_bearer_ok [OF assms(1)] by (simp add: bearer_ok_def)
  moreover have "attribute_request (md_uid m) \<in> set (delivered_requests st)"
    using assms(2) by (simp add: delivered_requests_def)
  ultimately show ?thesis by (auto elim: list_emb_set)
qed

text \<open>
  C31: A bearer delivers what was asked for. Over any number of sessions, whatever BlueZ, the phone,
  the consumer and the shutdown channel do, the Control Point is only ever written attribute
  requests, and the metadata handed to the daemon answer these requests in their order, each request
  at most once; at most 32 of them wait in the channel, the latest ones in order.
\<close>

theorem bearer_answers_in_order:
  assumes "bearer_run sessions bearer_start = (returned, st, delays)"
  shows "subseq (map (\<lambda>m. attribute_request (md_uid m)) (bs_sent st)) (bs_writes st) \<and>
    set (bs_writes st) \<subseteq> range attribute_request \<and>
    length (bs_output st) \<le> 32 \<and> suffix (bs_output st) (bs_sent st)"
  using run_bearer_ok [OF assms] by (simp add: bearer_ok_def delivered_requests_def)

section \<open>Backoff between sessions\<close>

text \<open>A session that gets as far as listening, and the delays after sessions as a reference.\<close>

definition reaches_ready :: "'c BearerEnv \<Rightarrow> bool" where
  "reaches_ready env \<longleftrightarrow> is_ok (session_prepare env) \<and> is_ok (timeout (be_notify_source env)) \<and>
     is_ok (timeout (be_notify_data env))"

fun backoff_delays :: "nat \<Rightarrow> bool list \<Rightarrow> nat list" where
  "backoff_delays n [] = []"
| "backoff_delays n (ready # rs) =
     (let k = min (Suc (if ready then 0 else n)) 6 in 2 ^ k # backoff_delays k rs)"

lemma supervisor_keeps_backoff:
  "AncsSupervisor_notification_source sv bytes = (command, sv') \<Longrightarrow> sv_backoff sv' = sv_backoff sv"
  "AncsSupervisor_data_source sv bytes = (p, sv') \<Longrightarrow> sv_backoff sv' = sv_backoff sv"
  by (auto simp: AncsSupervisor_notification_source_def AncsSupervisor_data_source_def split: if_splits prod.splits)

lemma run_command_supervisor: "bs_supervisor (snd (run_command command reply st)) = bs_supervisor st"
  by (cases command; cases "the command") (simp_all add: run_command_def write_control_def)

lemma try_send_supervisor: "bs_supervisor (snd (try_send metadata st)) = bs_supervisor st"
  by (simp add: try_send_def split: option.splits)

lemma session_event_backoff:
  assumes "session_event e st = (r, st')"
  shows "sv_backoff (bs_supervisor st') = sv_backoff (bs_supervisor st)"
proof (cases "(e, st)" rule: session_event.cases)
  case (3 bytes reply st1)
  obtain command sv where sv: "AncsSupervisor_notification_source (bs_supervisor st) bytes = (command, sv)" by fastforce
  have "going_on (run_command command reply (st\<lparr>bs_supervisor := sv\<rparr>)) = (r, st')" using assms 3 sv by simp
  then have "st' = snd (run_command command reply (st\<lparr>bs_supervisor := sv\<rparr>))" by (metis going_on_snd snd_conv)
  then show ?thesis using supervisor_keeps_backoff(1) [OF sv] by (simp add: run_command_supervisor)
next
  case (5 bytes reply st1)
  obtain metadata command sv where sv: "AncsSupervisor_data_source (bs_supervisor st) bytes = ((metadata, command), sv)"
    by (metis surj_pair)
  obtain sent st2 where t: "try_send metadata (st\<lparr>bs_supervisor := sv\<rparr>) = (sent, st2)" by fastforce
  have st2: "bs_supervisor st2 = sv" using t try_send_supervisor [of metadata "st\<lparr>bs_supervisor := sv\<rparr>"] by simp
  have "st' = st2 \<or> going_on (run_command command reply st2) = (r, st')"
    using assms 5 sv t by (cases sent) auto
  then have "st' = st2 \<or> st' = snd (run_command command reply st2)" by (metis going_on_snd snd_conv)
  then show ?thesis using supervisor_keeps_backoff(2) [OF sv] st2 by (auto simp: run_command_supervisor)
qed (use assms in \<open>auto simp: Let_def split: if_splits\<close>)

lemma session_loop_backoff:
  "session_loop es st = (r, st') \<Longrightarrow> sv_backoff (bs_supervisor st') = sv_backoff (bs_supervisor st)"
proof (induction es arbitrary: st)
  case (Cons e es)
  obtain r1 st1 where e: "session_event e st = (r1, st1)" by fastforce
  show ?case using Cons session_event_backoff [OF e] e by (cases r1) auto
qed simp

lemma session_backoff:
  "session env st = (r, st') \<Longrightarrow> sv_backoff (bs_supervisor st') =
     (if reaches_ready env then ReconnectBackoff 0 else sv_backoff (bs_supervisor st))"
  by (auto simp: session_def session_subscribe_def reaches_ready_def publish_def AncsSupervisor_connected_def
      AncsSupervisor_notification_source_subscribed_def AncsSupervisor_data_source_subscribed_def
      ReconnectBackoff_connected_def Let_def dest!: session_loop_backoff split: sum.splits)

lemma unat_delay:
  assumes "k \<le> 6"
  shows "unat (2 ^ k :: u64) = 2 ^ k"
proof -
  have "(2 :: nat) ^ k < 2 ^ 64" using assms by (intro power_strict_increasing) simp_all
  then have "unat (word_of_nat (2 ^ k) :: u64) = 2 ^ k" by (simp add: unat_of_nat del: of_nat_power)
  then show ?thesis by simp
qed

lemma run_delays:
  assumes "unat (bo_failures (sv_backoff (bs_supervisor st))) \<le> 6" and "bearer_run sessions st = (returned, st', delays)"
  shows "map unat delays = backoff_delays (unat (bo_failures (sv_backoff (bs_supervisor st))))
      (map (reaches_ready \<circ> fst) (take (length delays) sessions))"
  using assms
proof (induction sessions st arbitrary: returned delays rule: bearer_run.induct)
  case (1 st)
  then show ?case by simp
next
  case (2 env pause rest st)
  obtain r1 st1 where s: "session env (publish Discovering st) = (r1, st1)" by fastforce
  define n where "n = unat (bo_failures (sv_backoff (bs_supervisor st)))"
  let ?b = "sv_backoff (bs_supervisor st1)"
  let ?k = "min (Suc (if reaches_ready env then 0 else n)) 6"
  have b: "?b = (if reaches_ready env then ReconnectBackoff 0 else sv_backoff (bs_supervisor st))"
    using session_backoff [OF s] by (simp add: publish_def)
  then have b6: "unat (bo_failures ?b) \<le> 6" using 2(3) by simp
  have k: "unat (bo_failures (snd (ReconnectBackoff_failed ?b))) = ?k"
    using failed_bounded [OF b6] b by (simp add: n_def)
  have d: "unat (fst (ReconnectBackoff_failed ?b)) = 2 ^ ?k"
    using b unfolding failed_delay [OF b6] fst_conv by (subst unat_delay) (simp_all add: n_def)
  show ?case
    using 2 s k d
    by (auto simp: disconnected_command Let_def publish_def n_def [symmetric] split: if_splits option.splits pause.splits prod.splits)
qed

lemma backoff_delays_bounds: "d \<in> set (backoff_delays n rs) \<Longrightarrow> 2 \<le> d \<and> d \<le> 64"
proof (induction rs arbitrary: n)
  case (Cons r rs)
  let ?k = "min (Suc (if r then 0 else n)) 6"
  have "(2 :: nat) ^ 1 \<le> 2 ^ ?k" "(2 :: nat) ^ ?k \<le> 2 ^ 6" by (intro power_increasing; simp)+
  then show ?case using Cons.IH [of ?k] Cons.prems by (auto simp: Let_def simp del: power_Suc)
qed simp

lemma run_returned:
  "bearer_run sessions st = (True, st', delays) \<Longrightarrow> bs_shutdown st' \<or> (\<exists>env v. (env, PauseChanged True v) \<in> set sessions)"
proof (induction sessions st arbitrary: delays rule: bearer_run.induct)
  case (1 st)
  then show ?case by auto
next
  case (2 env pause rest st)
  obtain r1 st1 where s: "session env (publish Discovering st) = (r1, st1)" by fastforce
  show ?case
    using 2 s by (auto simp: disconnected_command Let_def split: if_splits option.splits pause.splits prod.splits)
qed

text \<open>
  C32: The bearer never gives up and never hammers. The delays between its sessions are those of the
  reference schedule: 2, 4, 8, 16, 32, 64, 64, ... seconds after sessions that do not get to listen, starting
  again after one that does; every delay is between 2 and 64 seconds; and only a shutdown,
  or the loss of the shutdown channel, ends the run.
\<close>

theorem bearer_backoff:
  assumes "bearer_run sessions bearer_start = (returned, st, delays)"
  shows "map unat delays = backoff_delays 0 (map (reaches_ready \<circ> fst) (take (length delays) sessions)) \<and>
    (\<forall>d \<in> set delays. 2 \<le> unat d \<and> unat d \<le> 64) \<and>
    (returned \<longrightarrow> bs_shutdown st \<or> (\<exists>env v. (env, PauseChanged True v) \<in> set sessions))"
proof -
  have "unat (bo_failures (sv_backoff (bs_supervisor bearer_start))) = 0"
    by (simp add: bearer_start_def AncsSupervisor_default_def ReconnectBackoff_new_def)
  then have delays: "map unat delays = backoff_delays 0 (map (reaches_ready \<circ> fst) (take (length delays) sessions))"
    using run_delays [OF _ assms] by simp
  moreover have "2 \<le> unat d \<and> unat d \<le> 64" if "d \<in> set delays" for d
  proof -
    have "unat d \<in> set (map unat delays)" using that by simp
    then show ?thesis unfolding delays by (rule backoff_delays_bounds)
  qed
  moreover have "returned \<longrightarrow> bs_shutdown st \<or> (\<exists>env v. (env, PauseChanged True v) \<in> set sessions)"
    using run_returned [of sessions bearer_start st delays] assms by (cases returned) simp_all
  ultimately show ?thesis by simp
qed

section \<open>A bearer at work\<close>

definition sample_service :: "nat gatt_service" where
  "sample_service = \<lparr>gs_uuid = Some (Ok ANCS_SERVICE), gs_characteristics = Some (Ok
     [(Some (Ok NOTIFICATION_SOURCE), 1), (Some (Ok CONTROL_POINT), 2), (Some (Ok DATA_SOURCE), 3)])\<rparr>"

definition sample_bearer_env :: "bearer_event list \<Rightarrow> nat BearerEnv" where
  "sample_bearer_env es = \<lparr>be_address = Some ''AA:BB:CC:DD:EE:FF'', be_parse_address = (\<lambda>_. True), be_session = Some (Ok ()),
     be_adapter = Some (Ok ()), be_device = True, be_paired = Some (Ok True), be_trusted = Some (Ok True),
     be_connected = Some (Ok False), be_connect = Some (Ok ()), be_services = Some (Ok [sample_service]),
     be_notify_source = Some (Ok ()), be_notify_data = Some (Ok ()), be_events = es\<rparr>"

definition sample_events :: "bearer_event list" where
  "sample_events =
     [NotificationEvent (Some [0, 0, 0, 0, 1, 2, 3, 4]) (Some (Ok ())),
      DataEvent (Some ([0, 1, 2, 3, 4] @ [0, 19, 0] @ map (\<lambda>c. of_char c) MESSAGES_APP @
        [1, 1, 0, 65, 2, 1, 0, 66, 4, 0, 0, 5, 0, 0, 6, 0, 0, 7, 0, 0])) None, ConsumerTakes]"

definition sample_delivery :: AncsNotificationMetadata where
  "sample_delivery = \<lparr>md_uid = (1, 2, 3, 4), md_title = ''A'', md_subtitle = ''B'',
     md_positive_action_label = [], md_negative_action_label = []\<rparr>"

lemma sample_session:
  "case bearer_run [(sample_bearer_env sample_events, Slept)] bearer_start of
     (returned, st, delays) \<Rightarrow> bs_sent st = [sample_delivery] \<and> bs_output st = []"
  by code_simp

lemma sample_delays:
  "snd (snd (bearer_run [((sample_bearer_env [])\<lparr>be_session := None\<rparr>, Slept),
      (sample_bearer_env [NotificationEvent None None], Slept), ((sample_bearer_env [])\<lparr>be_session := None\<rparr>, PauseChanged True False)]
      bearer_start)) = [2, 2, 4]"
  by code_simp

theorem bearer_answers_in_order_witness:
  "\<exists>st :: BearerState. map md_uid (bs_sent st) = [(1, 2, 3, 4)] \<and> attribute_request (1, 2, 3, 4) \<in> set (bs_writes st)"
proof -
  obtain returned st delays where r: "bearer_run [(sample_bearer_env sample_events, Slept)] bearer_start = (returned, st, delays)"
    by (rule prod_cases3)
  have "subseq (map (\<lambda>m. attribute_request (md_uid m)) (bs_sent st)) (bs_writes st)"
    using bearer_answers_in_order [OF r] by blast
  moreover have u: "map md_uid (bs_sent st) = [(1, 2, 3, 4)]" using sample_session r by (simp add: sample_delivery_def)
  moreover have "map (\<lambda>m. attribute_request (md_uid m)) (bs_sent st) = map attribute_request (map md_uid (bs_sent st))"
    by simp
  ultimately have "attribute_request (1, 2, 3, 4) \<in> set (bs_writes st)" by (simp add: subseq_singleton_left)
  with u show ?thesis by (intro exI [of _ st] conjI)
qed

theorem bearer_backoff_witness:
  "\<exists>(st :: BearerState) returned. bearer_run [((sample_bearer_env [])\<lparr>be_session := None\<rparr>, Slept),
      (sample_bearer_env [NotificationEvent None None], Slept), ((sample_bearer_env [])\<lparr>be_session := None\<rparr>, PauseChanged True False)]
      bearer_start = (returned, st, [2, 2, 4]) \<and> (\<forall>d \<in> {2 :: u64, 4}. 2 \<le> unat d)"
proof -
  let ?ss = "[((sample_bearer_env [])\<lparr>be_session := None\<rparr>, Slept),
      (sample_bearer_env [NotificationEvent None None], Slept), ((sample_bearer_env [])\<lparr>be_session := None\<rparr>, PauseChanged True False)]"
  obtain returned st delays where r: "bearer_run ?ss bearer_start = (returned, st, delays)" by (rule prod_cases3)
  then have "delays = [2, 2, 4]" using sample_delays by simp
  then show ?thesis using bearer_backoff [OF r] r by auto
qed

end
