(* ===== verification/Ancs_Task.thy ===== *)
theory Ancs_Task
  imports Ancs_Bearer Ancs_Ingest
begin

text \<open>
  The ANCS task of the daemon (\<open>start_ancs_task\<close> in \<open>crates/analogconnectd/src/lib.rs\<close>): what
  the BlueZ bearer sends into its channel is received and ingested, one notification after the
  other, whatever becomes of each. The section on evidence follows a group assignment through
  the whole path: bearer, channel, correlator, message store.
\<close>

section \<open>The task\<close>

text \<open>
  The receive loop, over what it receives until the channel closes: each notification with what
  its ingestion meets and the clock then. A failed ingestion is logged, and the loop goes on.
\<close>

fun ancs_task :: "(IngestEnv \<times> int \<times> AncsNotificationMetadata) list \<Rightarrow> IngestState \<Rightarrow> IngestState" where
  "ancs_task [] st = st"
| "ancs_task ((env, observed, metadata) # received) st =
     (case ingest_ancs_metadata env observed metadata st of
        (Inl _, st) \<Rightarrow> ancs_task received st
      | (Inr _, st) \<Rightarrow> ancs_task received st)"

lemma ancs_task_fold:
  "ancs_task received st =
     fold (\<lambda>(env, observed, metadata) st. snd (ingest_ancs_metadata env observed metadata st)) received st"
proof (induction received arbitrary: st)
  case Nil
  then show ?case by simp
next
  case (Cons arrival received)
  then show ?case by (cases arrival) (auto split: prod.splits sum.splits)
qed

section \<open>Evidence\<close>

text \<open>What the messages in the store have in common, beside their thread.\<close>

definition thread_blind :: "(MessageRow \<Rightarrow> bool) \<Rightarrow> bool" where
  "thread_blind stored \<longleftrightarrow> (\<forall>row k. stored (row\<lparr>m_conversation_key := k\<rparr>) = stored row)"

definition rows_stored :: "(MessageRow \<Rightarrow> bool) \<Rightarrow> Store \<Rightarrow> bool" where
  "rows_stored stored s \<longleftrightarrow> (\<forall>row \<in> set (Store.st_messages s). stored row)"

text \<open>Synchronisation stores messages; it assigns no groups.\<close>

definition sync_fetches :: "(MessageRow \<Rightarrow> bool) \<Rightarrow> (Store \<Rightarrow> Store) \<Rightarrow> bool" where
  "sync_fetches stored f \<longleftrightarrow>
     (\<forall>s. st_assignments (f s) = st_assignments s \<and> (rows_stored stored s \<longrightarrow> rows_stored stored (f s)))"

text \<open>A notification that was received, and a message that was looked at with its contact's name.\<close>

type_synonym arrivals = "(IngestEnv \<times> int \<times> AncsNotificationMetadata) set"

definition received_notification :: "arrivals \<Rightarrow> PendingAncsNotification \<Rightarrow> bool" where
  "received_notification A n \<longleftrightarrow> (\<exists>(env, observed, md) \<in> A. n =
     \<lparr>pn_notification_uid = md_uid md, pn_title = md_title md, pn_subtitle = md_subtitle md,
      pn_observed_unix_millis = observed\<rparr>)"

definition sighted_message :: "(MessageRow \<Rightarrow> bool) \<Rightarrow> arrivals \<Rightarrow> PendingMapMessage \<Rightarrow> bool" where
  "sighted_message stored A m \<longleftrightarrow> (\<exists>(env, observed, md) \<in> A. \<exists>row name. stored row \<and> looked_at observed row \<and>
     ContactStore_lookup_display_name (ie_lookup_fails env (m_address row)) (m_address row) (ie_contacts env) = Ok name \<and>
     m = \<lparr>pm_map_handle = m_map_handle row, pm_sender = m_address row,
          pm_sender_display_name = name, pm_observed_unix_millis = m_synced_at row\<rparr>)"

definition evidence ::
  "unicode_hash \<Rightarrow> (MessageRow \<Rightarrow> bool) \<Rightarrow> arrivals \<Rightarrow> string \<Rightarrow> string \<Rightarrow> bool" where
  "evidence hash stored A h gid \<longleftrightarrow> (\<exists>n m. received_notification A n \<and> sighted_message stored A m \<and>
     pm_map_handle m = h \<and> ancs_group_id hash (pn_subtitle n) = Some gid \<and>
     AncsMapCorrelator_matches hash (AncsMapCorrelator_new 15000) n m)"

definition correlator_grounded :: "(MessageRow \<Rightarrow> bool) \<Rightarrow> arrivals \<Rightarrow> AncsMapCorrelator \<Rightarrow> bool" where
  "correlator_grounded stored A c \<longleftrightarrow> (\<forall>n \<in> set (co_notifications c). received_notification A n) \<and>
     (\<forall>m \<in> set (co_messages c). sighted_message stored A m) \<and> co_max_delta_millis c = 15000"

text \<open>A result that names a group names it with evidence.\<close>

definition result_grounded ::
  "unicode_hash \<Rightarrow> (MessageRow \<Rightarrow> bool) \<Rightarrow> arrivals \<Rightarrow> CorrelationResult \<Rightarrow> bool" where
  "result_grounded hash stored A r \<longleftrightarrow>
     (\<forall>h uid gid subtitle sender t. r = CorrelationResult.Group h uid gid subtitle sender t \<longrightarrow> evidence hash stored A h gid)"

definition store_grounded ::
  "unicode_hash \<Rightarrow> (MessageRow \<Rightarrow> bool) \<Rightarrow> arrivals \<Rightarrow> Store \<Rightarrow> Store \<Rightarrow> bool" where
  "store_grounded hash stored A s0 s \<longleftrightarrow> rows_stored stored s \<and>
     (\<forall>h gid. assigned_to h gid s \<longrightarrow> assigned_to h gid s0 \<or> evidence hash stored A h gid)"

definition task_grounded ::
  "unicode_hash \<Rightarrow> (MessageRow \<Rightarrow> bool) \<Rightarrow> arrivals \<Rightarrow> Store \<Rightarrow> IngestState \<Rightarrow> bool" where
  "task_grounded hash stored A s0 st \<longleftrightarrow> correlator_grounded stored A (ig_correlator st) \<and>
     (\<forall>s. ig_repository st = Imsg (Some s) \<longrightarrow> store_grounded hash stored A s0 s)"

section \<open>The correlator works on what it was given\<close>

lemma pair_grounded:
  assumes "received_notification A n" and "sighted_message stored A m"
    and "AncsMapCorrelator_matches hash c n m" and "co_max_delta_millis c = 15000"
  shows "result_grounded hash stored A (correlate_pair hash n m)"
proof -
  have "AncsMapCorrelator_matches hash (AncsMapCorrelator_new 15000) n m"
    using assms(3,4) matches_cong [of c "AncsMapCorrelator_new 15000" hash] by (simp add: AncsMapCorrelator_new_def)
  then show ?thesis
    using assms(1,2) by (auto simp: result_grounded_def correlate_pair_def evidence_def split: option.splits)
qed

lemma set_replace_first: "set (replace_first P y xs) \<subseteq> insert y (set xs)"
  by (induction xs) auto

lemma set_evict_append: "set (evict n (xs @ [y])) \<subseteq> insert y (set xs)"
  using set_evict [of n "xs @ [y]"] by auto

lemma remember_completed_windows [simp]:
  "co_notifications (AncsMapCorrelator_remember_completed uid c) = co_notifications c"
  "co_messages (AncsMapCorrelator_remember_completed uid c) = co_messages c"
  "co_max_delta_millis (AncsMapCorrelator_remember_completed uid c) = co_max_delta_millis c"
  by (simp_all add: AncsMapCorrelator_remember_completed_def)

lemma observe_grounded:
  assumes c: "correlator_grounded stored A c" and n: "received_notification A n"
    and o: "AncsMapCorrelator_observe_ancs hash n c = (r, c')"
  shows "correlator_grounded stored A c' \<and> (\<forall>x. r = Some x \<longrightarrow> result_grounded hash stored A x)"
proof (cases rule: observe_cases [of n c hash])
  case updated
  then show ?thesis
    using c n o set_replace_first [of "\<lambda>x. pn_notification_uid x = pn_notification_uid n" n "co_notifications c"]
    by (auto simp: correlator_grounded_def)
next
  case (paired i)
  have i: "i < length (co_messages c)" "AncsMapCorrelator_matches hash c n (co_messages c ! i)"
    using candidate_indices_single [OF paired(3)] by simp_all
  then have "result_grounded hash stored A (correlate_pair hash n (co_messages c ! i))"
    by (intro pair_grounded [OF _ _ i(2)]) (use c n i(1) in \<open>simp_all add: correlator_grounded_def\<close>)
  moreover have "correlator_grounded stored A c'"
    using c o paired(4) set_remove_at [of i "co_messages c"] by (auto simp: correlator_grounded_def)
  ultimately show ?thesis using o paired(4) by auto
next
  case (queued r')
  have "correlator_grounded stored A c'"
    using c n o queued(3) set_evict_append [of 32 "co_notifications c" n] by (auto simp: correlator_grounded_def)
  then show ?thesis using o queued(3,4) by (auto simp: result_grounded_def)
qed (use c o in simp)

lemma correlate_grounded:
  assumes c: "correlator_grounded stored A c" and m: "sighted_message stored A m"
    and o: "AncsMapCorrelator_correlate_map hash m c = (r, c')"
  shows "correlator_grounded stored A c' \<and> result_grounded hash stored A r"
proof (cases rule: correlate_cases [of hash c m])
  case (paired i)
  have i: "i < length (co_notifications c)" "AncsMapCorrelator_matches hash c (co_notifications c ! i) m"
    using candidate_indices_single [OF paired(1)] by simp_all
  then have "result_grounded hash stored A (correlate_pair hash (co_notifications c ! i) m)"
    by (intro pair_grounded [OF _ _ i(2)]) (use c m i(1) in \<open>simp_all add: correlator_grounded_def\<close>)
  moreover have "correlator_grounded stored A c'"
    using c o paired(2) set_remove_at [of i "co_notifications c"] by (auto simp: correlator_grounded_def)
  ultimately show ?thesis using o paired(2) by simp
next
  case pending
  then show ?thesis
    using c m o set_evict_append [of 32 "co_messages c" m]
    by (auto simp: correlator_grounded_def result_grounded_def split: if_splits)
next
  case ambiguous
  then show ?thesis using c o by (simp add: result_grounded_def)
qed

section \<open>The store follows the results\<close>

lemma mark_keeps:
  "Store.st_messages (snd (Store_mark_ancs_ambiguous h t s)) = Store.st_messages s"
  "st_assignments (snd (Store_mark_ancs_ambiguous h t s)) = st_assignments s"
  by (simp_all add: Store_mark_ancs_ambiguous_def snd_call)

lemma mark_all_keeps:
  "Store.st_messages (snd (mark_all hs t s)) = Store.st_messages s \<and>
   st_assignments (snd (mark_all hs t s)) = st_assignments s"
proof (induction hs arbitrary: s)
  case Nil
  then show ?case by simp
next
  case (Cons k hs)
  obtain r s1 where m: "Store_mark_ancs_ambiguous k t s = (r, s1)" by (rule prod.exhaust)
  then show ?case using mark_keeps [of k t s] Cons [of s1] by (cases r) simp_all
qed

lemma clear_keeps:
  "Store.st_messages (snd (Store_clear_ancs_ambiguous h s)) = Store.st_messages s"
  "st_assignments (snd (Store_clear_ancs_ambiguous h s)) = st_assignments s"
  by (simp_all add: Store_clear_ancs_ambiguous_def snd_call)

lemma rows_stored_thread:
  "thread_blind stored \<Longrightarrow> rows_stored stored s \<Longrightarrow>
   rows_stored stored (update_messages h (\<lambda>m. m\<lparr>m_conversation_key := g\<rparr>) s)"
  by (auto simp: rows_stored_def thread_blind_def update_messages_def)

lemma assign_grounded:
  assumes "thread_blind stored" and "store_grounded hash stored A s0 s" and "evidence hash stored A h g"
  shows "store_grounded hash stored A s0 (snd (Store_assign_ancs_group h g d f u t s))"
proof (cases rule: assign_cases [of h g d f u t s])
  case (assigned)
  then show ?thesis
    using assms rows_stored_thread [OF assms(1), of s h g]
    by (auto simp: store_grounded_def rows_stored_def assigned_to_def store_helper_defs split: if_splits option.splits)
qed (use assms in \<open>auto simp: store_grounded_def rows_stored_def assigned_to_def messages_untouched store_helper_defs\<close>)

lemma store_grounded_cong:
  "Store.st_messages s' = Store.st_messages s \<Longrightarrow> st_assignments s' = st_assignments s \<Longrightarrow>
   store_grounded hash stored A s0 s' = store_grounded hash stored A s0 s"
  by (simp add: store_grounded_def rows_stored_def assigned_to_def)

lemma apply_grounded:
  assumes "thread_blind stored" and "store_grounded hash stored A s0 s" and "result_grounded hash stored A r"
  shows "store_grounded hash stored A s0 (snd (apply_correlation r s))"
proof (cases r)
  case (Group h uid g d f t)
  have "evidence hash stored A h g" using assms(3) Group unfolding result_grounded_def by blast
  from assign_grounded [OF assms(1,2) this, of d f "uid_bytes uid" t] show ?thesis
    by (auto simp: Group split: prod.splits sum.splits GroupAssignmentResult.splits)
next
  case (DirectCandidate h uid)
  have "store_grounded hash stored A s0 (snd (Store_clear_ancs_ambiguous h s))"
    using assms(2) store_grounded_cong [OF clear_keeps] by blast
  then show ?thesis by (auto simp: DirectCandidate split: prod.splits sum.splits)
next
  case (Ambiguous hs t)
  have "store_grounded hash stored A s0 (snd (mark_all hs t s))"
    using assms(2) store_grounded_cong mark_all_keeps by blast
  then show ?thesis by (auto simp: Ambiguous split: prod.splits sum.splits)
qed (use assms in simp)

lemma apply_result_grounded:
  assumes "thread_blind stored" and "task_grounded hash stored A s0 st" and "result_grounded hash stored A r"
  shows "task_grounded hash stored A s0 (snd (apply_ancs_result r st))"
proof (cases "\<exists>s. ig_repository st = Imsg (Some s)")
  case False
  then have "snd (apply_ancs_result r st) = st"
    by (auto simp: apply_ancs_result_def split: ConversationRepository.splits option.splits)
  then show ?thesis using assms(2) by simp
next
  case True
  then obtain s where s: "ig_repository st = Imsg (Some s)" ..
  then have "store_grounded hash stored A s0 (snd (apply_correlation r s))"
    using assms(2) by (intro apply_grounded [OF assms(1) _ assms(3)]) (simp add: task_grounded_def)
  then show ?thesis
    using assms(2) s by (simp add: apply_ancs_result_def task_grounded_def case_prod_unfold)
qed

section \<open>Ingestion keeps the evidence\<close>

lemma correlated_grounded:
  assumes b: "thread_blind stored" and g: "task_grounded hash stored A s0 st" and h: "ie_hash env = hash"
    and m: "(env, observed, md) \<in> A" "stored m" "looked_at observed m"
  shows "task_grounded hash stored A s0 (snd (correlated env m st))"
proof -
  let ?lookup = "ContactStore_lookup_display_name (ie_lookup_fails env (m_address m)) (m_address m) (ie_contacts env)"
  show ?thesis
  proof (cases ?lookup)
    case (Inl e)
    then show ?thesis using g by (simp add: correlated_def Let_def task_grounded_def)
  next
    case (Inr name)
    let ?m = "\<lparr>pm_map_handle = m_map_handle m, pm_sender = m_address m,
        pm_sender_display_name = name, pm_observed_unix_millis = m_synced_at m\<rparr>"
    let ?st = "st\<lparr>ig_seen_map_handles := remember_handle (m_map_handle m) (ig_seen_map_handles st)\<rparr>"
    obtain r c where c: "AncsMapCorrelator_correlate_map hash ?m (ig_correlator st) = (r, c)" by (rule prod.exhaust)
    have "sighted_message stored A ?m" using m Inr by (auto simp: sighted_message_def intro!: bexI [OF _ m(1)])
    then have "correlator_grounded stored A c \<and> result_grounded hash stored A r"
      using correlate_grounded [OF _ _ c] g by (simp add: task_grounded_def)
    then have "task_grounded hash stored A s0 (snd (apply_ancs_result r (?st\<lparr>ig_correlator := c\<rparr>)))"
      using g by (intro apply_result_grounded [OF b]) (simp_all add: task_grounded_def)
    then show ?thesis using Inr c h by (simp add: correlated_def Let_def)
  qed
qed

lemma messages_grounded:
  assumes b: "thread_blind stored" and h: "ie_hash env = hash" and A: "(env, observed, md) \<in> A"
  shows "\<forall>m \<in> set ms. stored m \<Longrightarrow> task_grounded hash stored A s0 st \<Longrightarrow>
    task_grounded hash stored A s0 (snd (correlate_messages env observed ms st))"
proof (induction ms arbitrary: st)
  case Nil
  then show ?case by simp
next
  case (Cons m ms)
  obtain r st1 where c: "correlated env m st = (r, st1)" by (rule prod.exhaust)
  show ?case
  proof (cases "looked_at observed m")
    case False
    then show ?thesis using Cons by (simp add: correlate_messages_Cons)
  next
    case True
    then have "task_grounded hash stored A s0 st1"
      using correlated_grounded [OF b Cons.prems(2) h A _ True] Cons.prems(1) c by simp
    then show ?thesis using Cons c True by (cases r) (simp_all add: correlate_messages_Cons)
  qed
qed

lemma recent_grounded:
  assumes "thread_blind stored" and "ie_hash env = hash" and "(env, observed, md) \<in> A"
    and g: "task_grounded hash stored A s0 st"
  shows "task_grounded hash stored A s0 (snd (correlate_recent_map_messages env observed st))"
proof (cases "\<exists>s ms s'. ig_repository st = Imsg (Some s) \<and> Store_list_messages None False None None 64 0 s = (Inr ms, s')")
  case False
  then show ?thesis
    using g by (auto simp: correlate_recent_map_messages_def split: ConversationRepository.splits option.splits sum.splits prod.splits)
next
  case True
  then obtain s ms s' where s: "ig_repository st = Imsg (Some s)"
    "Store_list_messages None False None None 64 0 s = (Inr ms, s')" by blast
  then have "set ms \<subseteq> set (Store.st_messages s)"
    by (auto simp: Store_list_messages_def call_def split: if_splits dest: in_set_takeD)
  then have "\<forall>m \<in> set ms. stored m" using g s by (auto simp: task_grounded_def store_grounded_def rows_stored_def)
  from messages_grounded [OF assms(1-3) this g] s show ?thesis by (simp add: correlate_recent_map_messages_def)
qed

lemma notify_grounded:
  assumes "sync_fetches stored (ie_synced env)" and "task_grounded hash stored A s0 st"
  shows "task_grounded hash stored A s0 (snd (notify_coordinator env st))"
  using assms
  by (auto simp: notify_coordinator_def after_sync_def task_grounded_def store_grounded_def sync_fetches_def assigned_to_def
      split: ConversationRepository.splits option.splits prod.splits)

lemma ingest_grounded:
  assumes b: "thread_blind stored" and h: "ie_hash env = hash" and f: "sync_fetches stored (ie_synced env)"
    and A: "(env, observed, md) \<in> A" and g: "task_grounded hash stored A s0 st"
  shows "task_grounded hash stored A s0 (snd (ingest_ancs_metadata env observed md st))"
proof -
  let ?n = "\<lparr>pn_notification_uid = md_uid md, pn_title = md_title md,
      pn_subtitle = md_subtitle md, pn_observed_unix_millis = observed\<rparr>"
  obtain result c where o: "AncsMapCorrelator_observe_ancs hash ?n (ig_correlator st) = (result, c)" by (rule prod.exhaust)
  have "received_notification A ?n" using A by (auto simp: received_notification_def intro!: bexI [OF _ A])
  then have c: "correlator_grounded stored A c" "\<And>x. result = Some x \<Longrightarrow> result_grounded hash stored A x"
    using observe_grounded [OF _ _ o] g by (auto simp: task_grounded_def)
  let ?st = "st\<lparr>ig_correlator := c\<rparr>"
  have 1: "task_grounded hash stored A s0 ?st" using g c(1) by (simp add: task_grounded_def)
  obtain r st1 where a: "(case result of None \<Rightarrow> (Ok (), ?st) | Some result \<Rightarrow> apply_ancs_result result ?st) = (r, st1)"
    by (rule prod.exhaust)
  have 2: "task_grounded hash stored A s0 st1"
    using a 1 apply_result_grounded [OF b 1 c(2)] by (cases result) auto
  obtain r2 st2 where n: "notify_coordinator env st1 = (r2, st2)" by (rule prod.exhaust)
  have 3: "task_grounded hash stored A s0 st2" using notify_grounded [OF f 2] n by simp
  show ?thesis
    using o a n h 2 3 recent_grounded [OF b h A 3] by (cases r; cases r2) (auto simp: ingest_ancs_metadata_def Let_def)
qed

lemma task_run_grounded:
  assumes "thread_blind stored"
    and "\<forall>a \<in> set received. ie_hash (fst a) = hash \<and> sync_fetches stored (ie_synced (fst a))"
    and "set received \<subseteq> A" and "task_grounded hash stored A s0 st"
  shows "task_grounded hash stored A s0 (ancs_task received st)"
  unfolding ancs_task_fold
proof (rule fold_invariant [where Q = "\<lambda>a. a \<in> set received"])
  fix a st assume a: "a \<in> set received" and g: "task_grounded hash stored A s0 st"
  obtain env observed md where "a = (env, observed, md)" by (rule prod_cases3)
  then show "task_grounded hash stored A s0 ((\<lambda>(env, observed, metadata) st. snd (ingest_ancs_metadata env observed metadata st)) a st)"
    using bspec [OF assms(2) a] a assms(3) ingest_grounded [OF assms(1) _ _ _ g] by auto
qed (use assms(4) in simp_all)

lemma new_task_grounded:
  "ig_correlator st = AncsMapCorrelator_new 15000 \<Longrightarrow> ig_repository st = Imsg (Some s0) \<Longrightarrow>
   rows_stored stored s0 \<Longrightarrow> task_grounded hash stored A s0 st"
  by (simp add: task_grounded_def correlator_grounded_def store_grounded_def AncsMapCorrelator_new_def)

lemma matches_15000:
  "AncsMapCorrelator_matches hash (AncsMapCorrelator_new 15000) n m \<longleftrightarrow>
     \<bar>pn_observed_unix_millis n - pm_observed_unix_millis m\<bar> \<le> 15000 \<and>
     normalize_ancs_subtitle_v1 hash (pn_title n) =
       normalize_ancs_subtitle_v1 hash (case pm_sender_display_name m of None \<Rightarrow> pm_sender m | Some name \<Rightarrow> name)"
  by (simp add: AncsMapCorrelator_matches_def AncsMapCorrelator_new_def Let_def)

text \<open>
  C7: A message is put into a group only on evidence that came the whole way. Let the daemon ingest
  what it took from the bearer's channel, however its sessions, synchronisations and lookups went.
  Every group a message is assigned to afterwards, and was not before, is the identity of the
  subtitle of a notification that the phone sent in answer to a request written to its Control
  Point, and that notification matches the message: the handle is that of a received message in the
  store, looked at within 30 seconds of its synchronisation and at most 15 seconds from the
  notification, whose sender, by the contact store or else by address, has the notification's title
  as name.
\<close>

theorem group_needs_evidence:
  assumes "bearer_run sessions bearer_start = (returned, bearer, delays)"
    and "map (\<lambda>(_, _, md). md) received @ bs_output bearer = bs_sent bearer"
    and "\<forall>a \<in> set received. ie_hash (fst a) = hash \<and> sync_fetches stored (ie_synced (fst a))"
    and "thread_blind stored" and "rows_stored stored s0"
    and "ig_correlator st = AncsMapCorrelator_new 15000" and "ig_repository st = Imsg (Some s0)"
    and "ig_repository (ancs_task received st) = Imsg (Some s)"
    and "assigned_to h gid s" and "\<not> assigned_to h gid s0"
  shows "\<exists>env0 observed md env looked md' row name.
    (env0, observed, md) \<in> set received \<and> (env, looked, md') \<in> set received \<and>
    attribute_request (md_uid md) \<in> set (bs_writes bearer) \<and> ancs_group_id hash (md_subtitle md) = Some gid \<and>
    stored row \<and> m_map_handle row = h \<and> looked_at looked row \<and> \<bar>observed - m_synced_at row\<bar> \<le> 15000 \<and>
    ContactStore_lookup_display_name (ie_lookup_fails env (m_address row)) (m_address row) (ie_contacts env) = Ok name \<and>
    normalize_ancs_subtitle_v1 hash (md_title md) =
      normalize_ancs_subtitle_v1 hash (case name of None \<Rightarrow> m_address row | Some n \<Rightarrow> n)"
proof -
  have "task_grounded hash stored (set received) s0 (ancs_task received st)"
    by (intro task_run_grounded [OF assms(4,3) subset_refl] new_task_grounded [OF assms(6,7,5)])
  then have "evidence hash stored (set received) h gid"
    using assms(8-10) by (auto simp: task_grounded_def store_grounded_def)
  then obtain n m where e: "received_notification (set received) n" "sighted_message stored (set received) m"
    "pm_map_handle m = h" "ancs_group_id hash (pn_subtitle n) = Some gid"
    "AncsMapCorrelator_matches hash (AncsMapCorrelator_new 15000) n m"
    unfolding evidence_def by blast
  obtain env0 observed md where n: "(env0, observed, md) \<in> set received"
    "n = \<lparr>pn_notification_uid = md_uid md, pn_title = md_title md, pn_subtitle = md_subtitle md,
      pn_observed_unix_millis = observed\<rparr>"
    using e(1) unfolding received_notification_def by blast
  obtain env looked md' row name where m: "(env, looked, md') \<in> set received" "stored row" "looked_at looked row"
    "ContactStore_lookup_display_name (ie_lookup_fails env (m_address row)) (m_address row) (ie_contacts env) = Ok name"
    "m = \<lparr>pm_map_handle = m_map_handle row, pm_sender = m_address row,
      pm_sender_display_name = name, pm_observed_unix_millis = m_synced_at row\<rparr>"
    using e(2) unfolding sighted_message_def by blast
  have "md \<in> set (map (\<lambda>(_, _, md). md) received @ bs_output bearer)" using n(1) by force
  then have "attribute_request (md_uid md) \<in> set (bs_writes bearer)"
    using run_requests [OF assms(1)] assms(2) by auto
  moreover have "normalize_ancs_subtitle_v1 hash (md_title md) =
      normalize_ancs_subtitle_v1 hash (case name of None \<Rightarrow> m_address row | Some n \<Rightarrow> n)"
    using e(5) n(2) m(5) unfolding matches_15000 by (cases name) simp_all
  moreover have "\<bar>observed - m_synced_at row\<bar> \<le> 15000" "m_map_handle row = h"
    "ancs_group_id hash (md_subtitle md) = Some gid"
    using e(3-5) n(2) m(5) unfolding matches_15000 by simp_all
  ultimately show ?thesis using n(1) m(1-4) by blast
qed

text \<open>A group message on its way: the phone sends title \<open>A\<close>, subtitle \<open>B\<close>, and \<open>A\<close> wrote the message.\<close>

definition group_row :: MessageRow where
  "group_row = sample_row\<lparr>m_address := ''A''\<rparr>"

definition group_store :: Store where
  "group_store = empty_store\<lparr>Store.st_messages := [group_row]\<rparr>"

definition group_ingest :: IngestState where
  "group_ingest = sample_ingest\<lparr>ig_repository := Imsg (Some group_store)\<rparr>"

lemma sample_task_assigns:
  "case ig_repository (ancs_task [(sample_ingest_env, 0, sample_delivery)] group_ingest) of
     Imsg (Some s) \<Rightarrow> ancs_group_id identity_env ''B'' \<noteq> None \<and>
       map_option a_group_id (st_assignments s ''h'') = ancs_group_id identity_env ''B''
   | _ \<Rightarrow> False"
  by code_simp

lemma sample_sync: "ie_synced sample_ingest_env = (\<lambda>s. s)" "ie_hash sample_ingest_env = identity_env"
  by (simp_all add: sample_ingest_env_def)

theorem group_needs_evidence_witness:
  "\<exists>(st :: BearerState) row. attribute_request (1, 2, 3, 4) \<in> set (bs_writes st) \<and> m_map_handle row = ''h'' \<and>
     looked_at 0 row"
proof -
  obtain returned st delays where r: "bearer_run [(sample_bearer_env sample_events, Slept)] bearer_start = (returned, st, delays)"
    by (rule prod_cases3)
  have sent: "map (\<lambda>(_, _, md). md) [(sample_ingest_env, 0, sample_delivery)] @ bs_output st = bs_sent st"
    using sample_session r by simp
  have sync: "\<forall>a \<in> set [(sample_ingest_env, 0 :: int, sample_delivery)].
      ie_hash (fst a) = identity_env \<and> sync_fetches (\<lambda>_. True) (ie_synced (fst a))"
    by (simp add: sample_sync sync_fetches_def)
  have blind: "thread_blind (\<lambda>_. True)" and rows: "rows_stored (\<lambda>_. True) group_store"
    by (simp_all add: thread_blind_def rows_stored_def)
  have new: "ig_correlator group_ingest = AncsMapCorrelator_new 15000" "ig_repository group_ingest = Imsg (Some group_store)"
    by (simp_all add: group_ingest_def sample_ingest_def)
  obtain s gid where s: "ig_repository (ancs_task [(sample_ingest_env, 0, sample_delivery)] group_ingest) = Imsg (Some s)"
    "map_option a_group_id (st_assignments s ''h'') = Some gid"
    using sample_task_assigns by (auto split: ConversationRepository.splits option.splits)
  have a: "assigned_to ''h'' gid s" "\<not> assigned_to ''h'' gid group_store"
    using s(2) by (simp_all add: assigned_to_def group_store_def empty_store_def)
  show ?thesis
    using group_needs_evidence [OF r sent sync blind rows new s(1) a]
    by (intro exI [of _ st]) (auto simp: sample_delivery_def)
qed

end
