(* ===== verification/Frame_Typing.thy ===== *)
theory Frame_Typing
  imports Media_Stream
begin

text \<open>
  The typing of audio frames across components: whatever the peer, the pipes and the workers do to an audio
  bridge, every frame in it has the sample count of its format, and every frame of the uplink is
  in one of the two HFP formats. It rests on the frames of \<open>Core_Audio\<close>, the readers of
  \<open>Pcm_Stream\<close>, the queues of \<open>Audio_Queue\<close> and the batches of \<open>Media_Stream\<close>.
\<close>

text \<open>Everything that moves frames on a live bridge.\<close>

datatype bridge_event =
    PeerMessage "nat \<Rightarrow> nat" "u8 list"
  | CaptureRead nat PcmFrameReader
  | PlaybackWrite nat AudioFrame PcmFrameWriter
  | DownlinkSend "nat \<Rightarrow> nat" nat

fun bridge_step :: "bridge_event \<Rightarrow> AudioBridge \<Rightarrow> AudioBridge" where
  "bridge_step (PeerMessage clock bytes) b = snd (receive_uplink_packet clock bytes b)"
| "bridge_step (CaptureRead now reader) b = snd (snd (capture_into_bridge now (reader, b)))"
| "bridge_step (PlaybackWrite now silence writer) b = snd (snd (playback_from_bridge now silence (writer, b)))"
| "bridge_step (DownlinkSend clock t) b = snd (take_downlink_batch clock t b)"

definition bridge_typed :: "AudioBridge \<Rightarrow> bool" where
  "bridge_typed b \<longleftrightarrow>
     (\<forall>f \<in> set (queue_contents (br_uplink b)). frame_ok f \<and> hfp_format (fr_format f)) \<and>
     (\<forall>f \<in> set (queue_contents (br_downlink b)). frame_ok f)"

section \<open>Where frames come from\<close>

lemma push_source: "set (queue_contents (snd (BoundedAudioQueue_push f now q))) \<subseteq> insert f (set (queue_contents q))"
proof (cases "poisoned (bq_state q)")
  case True
  then show ?thesis by (auto simp: BoundedAudioQueue_push_def lock_def)
next
  case False
  have "qf_frame ` set (tl xs) \<subseteq> qf_frame ` set xs" for xs :: "QueuedFrame list" by (cases xs) auto
  note this [of "qst_frames (mutex_data (bq_state q))"]
  with False show ?thesis
    by (auto simp: BoundedAudioQueue_push_def lock_def unlock_with_def queue_contents_def Let_def)
qed

lemma pop_source: "set (queue_contents (snd (BoundedAudioQueue_pop now q))) \<subseteq> set (queue_contents q)"
  by (auto simp: BoundedAudioQueue_pop_def lock_def unlock_with_def queue_contents_def Let_def split: list.splits)

lemma push_frames_source:
  "set (queue_contents (snd (push_frames clock n fs q))) \<subseteq> set fs \<union> set (queue_contents q)"
proof (induction fs arbitrary: n q)
  case (Cons f fs)
  obtain r q' where p: "BoundedAudioQueue_push f (clock n) q = (r, q')" by fastforce
  then have "set (queue_contents q') \<subseteq> insert f (set (queue_contents q))"
    using push_source [of f "clock n" q] by simp
  then show ?case using p Cons.IH [of "Suc n" q'] by (cases r) auto
qed simp

lemma take_frames_source:
  "set (queue_contents (snd (take_frames clock micros n batch q))) \<subseteq> set (queue_contents q)"
proof (induction n arbitrary: batch q)
  case (Suc n)
  obtain r q' where p: "BoundedAudioQueue_pop (clock n) q = (r, q')" by fastforce
  then have q': "set (queue_contents q') \<subseteq> set (queue_contents q)"
    using pop_source [of "clock n" q] by simp
  have "set (queue_contents (snd (take_frames clock micros n bs q'))) \<subseteq> set (queue_contents q)" for bs
    using Suc.IH [of bs q'] q' by blast
  then show ?case using p q' by (auto split: sum.splits option.splits)
qed simp

lemma read_frame_typed:
  "PcmFrameReader_read_frame p = (Ok (Some f), p') \<Longrightarrow> frame_ok f"
  by (auto simp: PcmFrameReader_read_frame_def AudioFrame_new_Ok_iff result_bind_Ok_iff map_err_Ok_iff Let_def
      split: prod.splits sum.splits option.splits)

lemma wire_hfp: "wire_ok p \<Longrightarrow> hfp_format (fr_format (pk_frame p))"
  by (cases "format_code (fr_format (pk_frame p))")
    (auto simp: wire_ok_def AudioPacket_encode_def Let_def format_code_def hfp_format_def split: if_splits)

lemma decoded_typed:
  assumes "decode_audio_batch bytes = Ok fs" and "f \<in> set fs"
  shows "frame_ok f \<and> hfp_format (fr_format f)"
proof -
  obtain ps where "fs = map pk_frame ps" "list_all wire_ok ps" using assms(1) audio_batch_exact_iff by blast
  then obtain p where "f = pk_frame p" "wire_ok p" using assms(2) by (auto simp: list_all_iff)
  then show ?thesis using wire_hfp by (auto simp: wire_ok_def)
qed

section \<open>Typing is kept\<close>

lemma bridge_step_typed: "bridge_typed b \<Longrightarrow> bridge_typed (bridge_step e b)"
proof (cases e)
  case (PeerMessage clock bytes)
  assume b: "bridge_typed b"
  show ?thesis
  proof (cases "decode_audio_batch bytes")
    case (Inl err)
    then show ?thesis using b PeerMessage by (simp add: receive_uplink_packet_def)
  next
    case (Inr fs)
    obtain r q where q: "push_frames clock 0 fs (br_uplink b) = (r, q)" by fastforce
    then have "set (queue_contents q) \<subseteq> set fs \<union> set (queue_contents (br_uplink b))"
      using push_frames_source [of clock 0 fs "br_uplink b"] by simp
    then show ?thesis
      using b PeerMessage Inr q decoded_typed [OF Inr]
      by (auto simp: receive_uplink_packet_def bridge_typed_def)
  qed
next
  case (CaptureRead now reader)
  assume b: "bridge_typed b"
  obtain r p where r: "PcmFrameReader_read_frame reader = (r, p)" by fastforce
  show ?thesis
  proof (cases "\<exists>f. r = Ok (Some f)")
    case False
    then show ?thesis
      using b r CaptureRead by (auto simp: capture_into_bridge_def split: sum.splits option.splits)
  next
    case True
    then obtain f where f: "r = Ok (Some f)" by blast
    obtain s q where q: "BoundedAudioQueue_push f now (br_downlink b) = (s, q)" by fastforce
    then have "set (queue_contents q) \<subseteq> insert f (set (queue_contents (br_downlink b)))"
      using push_source [of f now "br_downlink b"] by simp
    then show ?thesis
      using b r f q CaptureRead read_frame_typed [of reader f p]
      by (auto simp: capture_into_bridge_def bridge_typed_def)
  qed
next
  case (PlaybackWrite now silence writer)
  assume b: "bridge_typed b"
  obtain r q where q: "BoundedAudioQueue_pop now (br_uplink b) = (r, q)" by fastforce
  then have "set (queue_contents q) \<subseteq> set (queue_contents (br_uplink b))"
    using pop_source [of now "br_uplink b"] by simp
  then show ?thesis
    using b q PlaybackWrite
    by (auto simp: playback_from_bridge_def bridge_typed_def case_prod_unfold Let_def split: sum.splits)
next
  case (DownlinkSend clock t)
  assume b: "bridge_typed b"
  then show ?thesis
    using DownlinkSend take_frames_source [of clock "capture_micros t" MAX_MEDIA_FRAMES_PER_MESSAGE "[]" "br_downlink b"]
    by (auto simp: take_downlink_batch_def bridge_typed_def split: prod.splits)
qed

interpretation typed_bridge: step_machine bridge_step bridge_typed
  by unfold_locales (rule bridge_step_typed)

text \<open>
  C33: Audio frames are well typed wherever they are. From a new bridge, whatever bytes the peer
  sends and the capture pipe delivers, and however the two queues are drained, every queued
  frame has exactly the samples of its format, and the uplink holds HFP frames only.
\<close>

theorem audio_frames_typed:
  assumes "AudioBridge_new frames_per_direction = Ok b" and "b' = fold bridge_step es b"
  shows "(\<forall>f \<in> set (queue_contents (br_uplink b')). frame_ok f \<and> hfp_format (fr_format f)) \<and>
    (\<forall>f \<in> set (queue_contents (br_downlink b')). frame_ok f)"
proof -
  have "bridge_typed b"
    using assms(1) queue_ok_new by (auto simp: AudioBridge_new_def bridge_typed_def result_bind_Ok_iff)
  then have "bridge_typed b'" unfolding assms(2) by (rule typed_bridge.run_inv)
  then show ?thesis by (simp add: bridge_typed_def)
qed

theorem audio_frames_typed_witness:
  "\<exists>b. AudioBridge_new 4 = Ok b \<and>
     (\<forall>f \<in> set (queue_contents (br_uplink (bridge_step (PeerMessage (\<lambda>_. 0) [1, 2]) b))). frame_ok f)"
proof -
  obtain b where b: "AudioBridge_new 4 = Ok b" by (simp add: AudioBridge_new_def BoundedAudioQueue_new_def)
  then show ?thesis
    using audio_frames_typed [OF b, of _ "[PeerMessage (\<lambda>_. 0) [1, 2]]"] by auto
qed

end
