(* ===== verification/Thread_List.thy ===== *)
theory Thread_List
  imports Conversations "HOL-Library.Multiset"
begin

text \<open>
  The thread listing of the message store (\<open>Store::threads\<close> in \<open>vendor/imsg-store/src/read.rs\<close>),
  one SQL statement that summarises the visible messages of every conversation, and its agreement
  with the messages the conversation itself shows.
\<close>

section \<open>The statement\<close>

text \<open>The messages a thread is made of: those with its key in one of the four folders.\<close>

definition is_visible :: "MessageRow \<Rightarrow> bool" where
  "is_visible m \<longleftrightarrow> m_folder m \<in> set visible_folders"

definition thread_messages :: "string \<Rightarrow> Store \<Rightarrow> MessageRow list" where
  "thread_messages k s = filter (\<lambda>m. m_conversation_key m = k \<and> is_visible m) (st_messages s)"

text \<open>The row of a subselect \<open>ORDER BY timestamp_ms DESC, rowid DESC LIMIT 1\<close>.\<close>

definition newest_first :: "MessageRow list \<Rightarrow> MessageRow list" where
  "newest_first ms = sort_key (\<lambda>m. - m_timestamp_ms m) (sort_key (\<lambda>m. - m_rowid m) ms)"

text \<open>The distinct addresses that are not empty; \<open>group_concat\<close> puts commas between them.\<close>

definition peer_addresses :: "MessageRow list \<Rightarrow> string list" where
  "peer_addresses ms = remdups (filter (\<lambda>a. a \<noteq> []) (map m_address ms))"

text \<open>
  One group of the statement. In which order \<open>group_concat\<close> meets the addresses, and groups with
  the same latest time come, the statement leaves open: \<open>arrange\<close> is the order SQLite takes.
\<close>

definition thread_row :: "(string list \<Rightarrow> string list) \<Rightarrow> Store \<Rightarrow> string \<Rightarrow> ThreadRow" where
  "thread_row arrange s k =
     (let ms = thread_messages k s;
          latest = hd (newest_first ms);
          group = st_groups s k
      in \<lparr>th_address = m_address latest,
          th_conversation_key = k,
          th_participants = join_str '','' (arrange (peer_addresses ms)),
          th_participant_count = int (length (peer_addresses ms)),
          th_latest_ms = Max (set (map m_timestamp_ms ms)),
          th_total = int (length ms),
          th_unread = int (length (filter (\<lambda>m. m_status m = STATUS_UNREAD \<and> m_direction m = Direction.Received) ms)),
          th_latest_outgoing_status = m_outgoing_status latest,
          th_latest_text = m_text latest,
          th_latest_sender = m_address latest,
          th_latest_sent = (m_direction latest = Direction.Sent),
          th_group_title = map_option g_display_subtitle group,
          th_is_ancs_group = (group \<noteq> None),
          th_identity_conflict = ((case group of None \<Rightarrow> False | Some g \<Rightarrow> g_identity_conflict g) \<or>
            list_ex (\<lambda>m. m_conversation_key m = k \<and> st_ambiguous s (m_map_handle m) \<noteq> None) (st_messages s))\<rparr>)"

definition thread_keys :: "Store \<Rightarrow> string list" where
  "thread_keys s = remdups (map m_conversation_key (filter (\<lambda>m. m_conversation_key m \<noteq> [] \<and> is_visible m) (st_messages s)))"

definition Store_threads :: "(string list \<Rightarrow> string list) \<Rightarrow> ThreadRow list db" where
  "Store_threads arrange = call (\<lambda>s.
     Some (sort_key (\<lambda>t. - th_latest_ms t) (map (thread_row arrange s) (arrange (thread_keys s))), s))"

section \<open>Newest first\<close>

lemma set_newest_first [simp]: "set (newest_first ms) = set ms" "length (newest_first ms) = length ms"
  by (simp_all add: newest_first_def)

lemma newest_first_Nil [simp]: "newest_first ms = [] \<longleftrightarrow> ms = []"
  using set_newest_first(2) [of ms] by (metis length_0_conv)

lemma hd_newest_first:
  assumes "ms \<noteq> []"
  shows "hd (newest_first ms) \<in> set ms" and "m_timestamp_ms (hd (newest_first ms)) = Max (set (map m_timestamp_ms ms))"
proof -
  show h: "hd (newest_first ms) \<in> set ms" using assms hd_in_set [of "newest_first ms"] by simp
  have "sorted (map (\<lambda>m. - m_timestamp_ms m) (newest_first ms))" by (simp add: newest_first_def)
  then have "\<forall>m \<in> set (newest_first ms). - m_timestamp_ms (hd (newest_first ms)) \<le> - m_timestamp_ms m"
    using assms by (cases "newest_first ms") auto
  then show "m_timestamp_ms (hd (newest_first ms)) = Max (set (map m_timestamp_ms ms))"
    using h by (intro Max_eqI [symmetric]) auto
qed

lemma list_messages_newest:
  "st_up s \<Longrightarrow> Store_list_conversation_messages k limit offset s =
     (Ok (take limit (drop offset (newest_first (thread_messages k s)))), s)"
  by (simp add: Store_list_conversation_messages_def call_def newest_first_def thread_messages_def is_visible_def)

section \<open>The listing as conversations\<close>

text \<open>SQLite orders what it is given; it loses and adds nothing.\<close>

definition orders :: "(string list \<Rightarrow> string list) \<Rightarrow> bool" where
  "orders arrange \<longleftrightarrow> (\<forall>xs. set (arrange xs) = set xs \<and> (distinct xs \<longrightarrow> distinct (arrange xs)))"

definition conversation_of :: "(string list \<Rightarrow> string list) \<Rightarrow> Store \<Rightarrow> string \<Rightarrow> StoredConversation" where
  "conversation_of arrange s k = the (ok (conversation_of_thread (thread_row arrange s k)))"

lemma conversation_of_row: "conversation_of_thread (thread_row arrange s k) = Ok (conversation_of arrange s k)"
  by (simp add: conversation_of_def conversation_of_thread_def thread_row_def try_unsigned_def Let_def)

lemma conversation_of_fields:
  "sv_conversation_key (conversation_of arrange s k) = k"
  "sv_participant_count (conversation_of arrange s k) = length (peer_addresses (thread_messages k s))"
  "sv_latest_unix_millis (conversation_of arrange s k) = th_latest_ms (thread_row arrange s k)"
  "sv_message_count (conversation_of arrange s k) = length (thread_messages k s)"
  "sv_unread_count (conversation_of arrange s k) =
     length (filter (\<lambda>m. m_status m = STATUS_UNREAD \<and> m_direction m = Direction.Received) (thread_messages k s))"
  "sv_latest_preview (conversation_of arrange s k) = m_text (hd (newest_first (thread_messages k s)))"
  "sv_latest_sender (conversation_of arrange s k) = m_address (hd (newest_first (thread_messages k s)))"
  "sv_latest_sent (conversation_of arrange s k) \<longleftrightarrow>
     m_direction (hd (newest_first (thread_messages k s))) = Direction.Sent"
  "sv_latest_outgoing_state (conversation_of arrange s k) =
     map_option outgoing_text (m_outgoing_status (hd (newest_first (thread_messages k s))))"
  "sv_identity_conflict (conversation_of arrange s k) \<longleftrightarrow> conflicted k s \<or>
     (\<exists>m \<in> set (st_messages s). m_conversation_key m = k \<and> m_map_handle m \<in> dom (st_ambiguous s))"
  by (auto simp: conversation_of_def conversation_of_thread_def thread_row_def try_unsigned_def Let_def
      conflicted_def list_ex_iff split: option.splits)

lemma collect_all_Ok: "collect_results (map (\<lambda>x. Ok (f x)) xs) = Ok (map f xs)"
  by (induction xs) simp_all

lemma set_thread_keys: "set (thread_keys s) = {k. k \<noteq> [] \<and> thread_messages k s \<noteq> []}"
  by (auto simp: thread_keys_def thread_messages_def filter_empty_conv)

lemma conversations_of_store:
  assumes "st_up s"
  shows "ConversationRepository_conversations (Store_threads arrange) (Imsg (Some s)) =
    Ok (map (conversation_of arrange s) (map th_conversation_key
      (sort_key (\<lambda>t. - th_latest_ms t) (map (thread_row arrange s) (arrange (thread_keys s))))))"
proof -
  have "map conversation_of_thread rows = map (\<lambda>t. Ok (conversation_of arrange s (th_conversation_key t))) rows"
    if rows: "set rows \<subseteq> range (thread_row arrange s)" for rows
  proof (rule map_cong [OF refl])
    fix t assume "t \<in> set rows"
    then obtain k where "t = thread_row arrange s k" using rows by blast
    then show "conversation_of_thread t = Ok (conversation_of arrange s (th_conversation_key t))"
      by (simp add: conversation_of_row) (simp add: thread_row_def Let_def)
  qed
  moreover have "set (sort_key (\<lambda>t. - th_latest_ms t) (map (thread_row arrange s) (arrange (thread_keys s)))) \<subseteq>
      range (thread_row arrange s)" by auto
  ultimately show ?thesis
    using assms by (simp only: ConversationRepository_conversations_def Store_threads_def call_def)
      (simp add: collect_all_Ok comp_def del: map_eq_conv)
qed

lemma keys_of_rows: "map th_conversation_key (map (thread_row arrange s) ks) = ks"
  by (simp add: thread_row_def Let_def comp_def)

lemma message_of_row_fields:
  assumes "0 \<le> m_rowid m"
  obtains sm where "message_of_row m = Ok sm" "sm_body sm = m_text m" "sm_address sm = m_address m"
    "sm_timestamp_unix_millis sm = m_timestamp_ms m" "sm_direction sm = MessageDirection.Sent \<longleftrightarrow> m_direction m = Direction.Sent"
    "sm_outgoing_state sm = map_option outgoing_text (m_outgoing_status m)"
  using assms by (auto simp: message_of_row_def try_unsigned_def not_less split: Direction.splits)

lemma collect_rows:
  "\<forall>m \<in> set ms. 0 \<le> m_rowid m \<Longrightarrow> \<exists>rows. collect_results (map message_of_row ms) = Ok rows \<and> length rows = length ms"
  by (induction ms) (auto simp: message_of_row_def try_unsigned_def not_less)

lemma messages_for_newest:
  assumes "st_up s" and "\<forall>m \<in> set (st_messages s). 0 \<le> m_rowid m" and "thread_messages k s \<noteq> []" and "0 < limit"
  obtains sm rows where "ConversationRepository_messages_for (Imsg (Some s)) k limit 0 = Ok (sm # rows)"
    "message_of_row (hd (newest_first (thread_messages k s))) = Ok sm"
proof -
  let ?ms = "newest_first (thread_messages k s)"
  have ne: "?ms \<noteq> []" and l: "unat limit \<noteq> 0" using assms(3,4) by (simp_all add: unat_eq_0)
  then obtain rest where t: "take (unat limit) ?ms = hd ?ms # rest" by (cases ?ms; cases "unat limit") auto
  have nn: "\<forall>m \<in> set ?ms. 0 \<le> m_rowid m" using assms(2) by (auto simp: thread_messages_def)
  then have "\<forall>m \<in> set (hd ?ms # rest). 0 \<le> m_rowid m" using t by (metis in_set_takeD)
  then obtain sm rows where "message_of_row (hd ?ms) = Ok sm" "collect_results (map message_of_row rest) = Ok rows"
    using message_of_row_fields [of "hd ?ms"] collect_rows [of rest] by (metis list.set_intros(1,2))
  with t assms(1) show ?thesis
    by (intro that [of sm rows]) (simp_all add: ConversationRepository_messages_for_def list_messages_newest)
qed

text \<open>What the conversation list says of one conversation, against the messages the conversation shows.\<close>

definition agrees :: "Store \<Rightarrow> StoredConversation \<Rightarrow> bool" where
  "agrees s c \<longleftrightarrow>
     sv_message_count c = length (thread_messages (sv_conversation_key c) s) \<and>
     sv_unread_count c \<le> sv_message_count c \<and>
     (sv_identity_conflict c \<longleftrightarrow> conflicted (sv_conversation_key c) s \<or>
        (\<exists>m \<in> set (st_messages s). m_conversation_key m = sv_conversation_key c \<and> m_map_handle m \<in> dom (st_ambiguous s))) \<and>
     (\<forall>limit > 0. \<exists>m rows.
        ConversationRepository_messages_for (Imsg (Some s)) (sv_conversation_key c) limit 0 = Ok (m # rows) \<and>
        sm_body m = sv_latest_preview c \<and> sm_address m = sv_latest_sender c \<and>
        sm_timestamp_unix_millis m = sv_latest_unix_millis c \<and>
        (sm_direction m = MessageDirection.Sent \<longleftrightarrow> sv_latest_sent c) \<and>
        sm_outgoing_state m = sv_latest_outgoing_state c)"

lemma conversation_of_agrees:
  assumes "st_up s" and "\<forall>m \<in> set (st_messages s). 0 \<le> m_rowid m" and ne: "thread_messages k s \<noteq> []"
  shows "agrees s (conversation_of arrange s k)"
proof -
  let ?m = "hd (newest_first (thread_messages k s))"
  have latest: "m_timestamp_ms ?m = th_latest_ms (thread_row arrange s k)" and "?m \<in> set (thread_messages k s)"
    using hd_newest_first [OF ne] by (simp_all add: thread_row_def Let_def)
  then have nn: "0 \<le> m_rowid ?m" using assms(2) by (auto simp: thread_messages_def)
  have "\<exists>m rows. ConversationRepository_messages_for (Imsg (Some s)) k limit 0 = Ok (m # rows) \<and>
      sm_body m = m_text ?m \<and> sm_address m = m_address ?m \<and> sm_timestamp_unix_millis m = m_timestamp_ms ?m \<and>
      (sm_direction m = MessageDirection.Sent \<longleftrightarrow> m_direction ?m = Direction.Sent) \<and>
      sm_outgoing_state m = map_option outgoing_text (m_outgoing_status ?m)" if "0 < limit" for limit
    using messages_for_newest [OF assms that] message_of_row_fields [OF nn] by (metis sum.inject(2))
  then show ?thesis
    unfolding agrees_def conversation_of_fields latest by (simp add: conversation_of_fields)
qed

text \<open>
  C23: The conversation list agrees with the conversations. Over an open store it always answers, with
  every conversation that has a visible message exactly once, the latest first; and whatever a row
  says is what the conversation shows: its preview, sender, time, direction and outgoing state are
  those of the first message on the conversation's first page, its count is the number of
  messages, and it is in conflict exactly when its group is flagged or one of its messages is
  marked ambiguous.
\<close>

theorem conversation_list_agrees:
  assumes "orders arrange" and "st_up s" and "\<forall>m \<in> set (st_messages s). 0 \<le> m_rowid m"
  shows "\<exists>convs. ConversationRepository_conversations (Store_threads arrange) (Imsg (Some s)) = Ok convs \<and>
    distinct (map sv_conversation_key convs) \<and>
    set (map sv_conversation_key convs) = {k. k \<noteq> [] \<and> thread_messages k s \<noteq> []} \<and>
    sorted_wrt (\<lambda>c d. sv_latest_unix_millis d \<le> sv_latest_unix_millis c) convs \<and>
    (\<forall>c \<in> set convs. agrees s c)"
proof -
  let ?rows = "sort_key (\<lambda>t. - th_latest_ms t) (map (thread_row arrange s) (arrange (thread_keys s)))"
  let ?ks = "map th_conversation_key ?rows"
  let ?convs = "map (conversation_of arrange s) ?ks"
  have keys: "map sv_conversation_key ?convs = ?ks" by (simp add: conversation_of_fields comp_def)
  have order: "set (arrange (thread_keys s)) = set (thread_keys s)" "distinct (arrange (thread_keys s))"
    using assms(1) by (simp_all add: orders_def thread_keys_def)
  have "mset ?ks = mset (map th_conversation_key (map (thread_row arrange s) (arrange (thread_keys s))))"
    by (simp only: mset_map mset_sort)
  then have perm: "mset ?ks = mset (arrange (thread_keys s))" by (simp only: keys_of_rows)
  have "distinct ?ks" using perm order(2) by (metis mset_eq_imp_distinct_iff)
  moreover have set: "set ?ks = {k. k \<noteq> [] \<and> thread_messages k s \<noteq> []}"
    using perm order(1) set_thread_keys [of s] by (metis mset_eq_setD)
  moreover have "sorted_wrt (\<lambda>c d. sv_latest_unix_millis d \<le> sv_latest_unix_millis c) ?convs"
  proof -
    have fix_row: "th_latest_ms (thread_row arrange s (th_conversation_key t)) = th_latest_ms t" if "t \<in> set ?rows" for t
      using that by (auto simp: thread_row_def Let_def)
    have "sorted (map (\<lambda>t. - th_latest_ms t) ?rows)" by (rule sorted_sort_key)
    then have "sorted_wrt (\<lambda>t u. th_latest_ms u \<le> th_latest_ms t) ?rows" by (simp add: sorted_wrt_map)
    then have "sorted_wrt (\<lambda>t u. th_latest_ms (thread_row arrange s (th_conversation_key u)) \<le>
        th_latest_ms (thread_row arrange s (th_conversation_key t))) ?rows"
      by (rule sorted_wrt_mono_rel [rotated]) (simp only: fix_row)
    then show ?thesis by (simp add: sorted_wrt_map conversation_of_fields)
  qed
  moreover have "\<forall>c \<in> set ?convs. agrees s c"
    using set conversation_of_agrees [OF assms(2,3)] by auto
  ultimately show ?thesis
    using conversations_of_store [OF assms(2)] by (intro exI [of _ ?convs]) (simp only: keys simp_thms)
qed

text \<open>Two messages of one conversation, the newer one unread, and one in a hidden folder.\<close>

definition thread_sample_row :: "int \<Rightarrow> string \<Rightarrow> MessageRow" where
  "thread_sample_row i folder = (NewMessage.extend (sample_message (decimal (nat i))) (MessageRow.fields i))
     \<lparr>m_timestamp_ms := i, m_folder := folder, m_conversation_key := ''k''\<rparr>"

definition thread_sample :: Store where
  "thread_sample = empty_store\<lparr>st_messages :=
     [thread_sample_row 1 ''inbox'', thread_sample_row 3 ''deleted'', thread_sample_row 2 ''inbox'']\<rparr>"

lemma thread_sample_fields:
  "m_folder (thread_sample_row i f) = f" "m_conversation_key (thread_sample_row i f) = ''k''"
  "m_rowid (thread_sample_row i f) = i"
  by (simp_all add: thread_sample_row_def NewMessage.defs MessageRow.defs)

lemma thread_sample_visible:
  "is_visible (thread_sample_row i ''inbox'')" "\<not> is_visible (thread_sample_row i ''deleted'')"
  by (simp_all add: is_visible_def thread_sample_fields visible_folders_def)

lemma thread_sample_messages:
  "thread_messages k thread_sample =
     (if k = ''k'' then [thread_sample_row 1 ''inbox'', thread_sample_row 2 ''inbox''] else [])"
proof -
  have rows: "st_messages thread_sample =
      [thread_sample_row 1 ''inbox'', thread_sample_row 3 ''deleted'', thread_sample_row 2 ''inbox'']"
    by (simp add: thread_sample_def)
  show ?thesis
  proof (cases "k = ''k''")
    case True
    then show ?thesis
      by (simp only: thread_messages_def rows filter.simps thread_sample_visible thread_sample_fields simp_thms if_True if_False)
  next
    case False
    then show ?thesis by (simp add: thread_messages_def rows thread_sample_visible thread_sample_fields)
  qed
qed

theorem conversation_list_agrees_witness:
  "\<exists>convs. ConversationRepository_conversations (Store_threads (\<lambda>ks. ks)) (Imsg (Some thread_sample)) = Ok convs \<and>
     set (map sv_conversation_key convs) = {''k''} \<and> (\<forall>c \<in> set convs. sv_message_count c = 2)"
proof -
  have a: "orders (\<lambda>ks. ks)" "st_up thread_sample" "\<forall>m \<in> set (st_messages thread_sample). 0 \<le> m_rowid m"
    by (simp_all add: orders_def thread_sample_def empty_store_def thread_sample_fields)
  have k: "length (thread_messages ''k'' thread_sample) = 2" "thread_messages k thread_sample \<noteq> [] \<longleftrightarrow> k = ''k''" for k
    by (simp_all add: thread_sample_messages)
  obtain convs where c:
    "ConversationRepository_conversations (Store_threads (\<lambda>ks. ks)) (Imsg (Some thread_sample)) = Ok convs"
    "set (map sv_conversation_key convs) = {k. k \<noteq> [] \<and> thread_messages k thread_sample \<noteq> []}"
    "\<forall>c \<in> set convs. agrees thread_sample c"
    using conversation_list_agrees [OF a] by (elim exE conjE)
  have keys: "set (map sv_conversation_key convs) = {''k''}" unfolding c(2) k(2) by auto
  have "sv_message_count c = 2" if "c \<in> set convs" for c
  proof -
    have "sv_conversation_key c \<in> set (map sv_conversation_key convs)" using that by simp
    then have "sv_conversation_key c = ''k''" unfolding keys by simp
    then show ?thesis using c(3) that k(1) by (simp add: agrees_def)
  qed
  then show ?thesis using c(1) keys by blast
qed

end
