(* ===== verification/Validators.thy ===== *)
theory Validators
  imports Core_Contacts Audio_Queue Call_Audio Process_Runner Thread_List
begin

text \<open>
  The command-line programs under \<open>crates/analogconnectd/src/bin/\<close> that check a deployment with
  the daemon's own code: what they print and the code they exit with. The time measured by the
  benchmark, and the rate computed from it in floating point, are parameters.
\<close>

text \<open>How a program ends: what it wrote to its two outputs, and its exit code.\<close>

record program_end =
  pe_stdout :: string
  pe_stderr :: string
  pe_code :: nat

definition prints :: "string \<Rightarrow> program_end" where
  "prints text = \<lparr>pe_stdout = text @ LF, pe_stderr = [], pe_code = 0\<rparr>"

definition fails :: "string \<Rightarrow> program_end" where
  "fails text = \<lparr>pe_stdout = [], pe_stderr = text @ LF, pe_code = 1\<rparr>"

section \<open>\<open>map-validate.rs\<close>\<close>

definition is_message_line :: "string \<Rightarrow> bool" where
  "is_message_line line \<longleftrightarrow> trim line \<noteq> [] \<and> \<not> prefix ''('' (trim line)"

definition message_count :: "string \<Rightarrow> nat" where
  "message_count payload =
     (if trim payload = [] \<or> prefix ''(no messages)'' (trim payload) then 0
      else length (filter is_message_line (lines payload)))"

definition map_validate :: "string option \<Rightarrow> program_end" where
  "map_validate stdin =
     (case stdin of
        None \<Rightarrow> fails ''MAP_VALIDATION=FAILED reason=stdin_read''
      | Some payload \<Rightarrow> prints (''MAP_VALIDATION=PASS messages_seen='' @ decimal (message_count payload)))"

section \<open>\<open>pbap-validate.rs\<close>\<close>

definition pbap_validate :: "string option \<Rightarrow> program_end" where
  "pbap_validate stdin =
     (case stdin of
        None \<Rightarrow> fails ''PBAP_VALIDATION=FAILED reason=stdin_read''
      | Some payload \<Rightarrow>
          (case parse_imsg_contacts payload of
             Inl _ \<Rightarrow> fails ''PBAP_VALIDATION=FAILED reason=invalid_payload''
           | Inr contacts \<Rightarrow> prints (''PBAP_VALIDATION=PASS contacts='' @ decimal (length contacts) @
               '' phones='' @ decimal (sum_list (map (\<lambda>c. length (phones c)) contacts)))))"

section \<open>\<open>sco-validate.rs\<close>\<close>

fun sco_error_text :: "ScoNodeError \<Rightarrow> string" where
  "sco_error_text ScoNodeError.Unavailable = ''PipeWire snapshot is unavailable''"
| "sco_error_text InvalidSnapshot = ''PipeWire snapshot is invalid''"
| "sco_error_text ScoNodeError.Absent = ''PipeWire SCO nodes are absent''"
| "sco_error_text ScoNodeError.Ambiguous = ''PipeWire SCO node state is absent or ambiguous''"

text \<open>Over the system that runs \<open>pw-dump\<close>; \<open>None\<close>, when the run of the helper does not return.\<close>

definition sco_validate ::
  "'v json_api \<Rightarrow> (string \<Rightarrow> string list \<Rightarrow> helper) \<Rightarrow> program_end outcome option" where
  "sco_validate js command =
     map_option (outcome_map (\<lambda>snapshot.
       case ScoNodeLocator_locate js snapshot of
         Inr _ \<Rightarrow> prints ''SCO_NODE_VALIDATION=PASS pair_found=1''
       | Inl e \<Rightarrow> fails (''SCO_NODE_VALIDATION=FAILED reason='' @ sco_error_text e)))
       (PwDumpRunner_dump command ''pw-dump'')"

section \<open>\<open>conversation-validate.rs\<close>\<close>

text \<open>\<open>opened\<close> is the store that configuration, keyring and \<open>Store::open\<close> lead to, if they do.\<close>

definition conversation_validate :: "(string list \<Rightarrow> string list) \<Rightarrow> Store option \<Rightarrow> program_end" where
  "conversation_validate arrange opened =
     (case result_bind (ok_or opened ()) (\<lambda>s. map_err (\<lambda>_. ()) (fst (Store_threads arrange s))) of
        Inl _ \<Rightarrow> fails ''CONVERSATION_ID_VALIDATION=FAIL reason=store_unavailable''
      | Inr threads \<Rightarrow> prints (''CONVERSATION_ID_VALIDATION=PASS threads='' @ decimal (length threads) @
          '' map_identities='' @ decimal (length (filter (\<lambda>t. prefix ''map:'' (th_conversation_key t)) threads)) @
          '' groups='' @ decimal (length (filter (\<lambda>t. 1 < th_participant_count t) threads))))"

section \<open>\<open>audio-bench.rs\<close>\<close>

definition FRAME_COUNT :: nat where "FRAME_COUNT = 100000"
definition QUEUE_CAPACITY :: nat where "QUEUE_CAPACITY = 32"

datatype bench_error = BenchFrame AudioFrameError | BenchQueue AudioQueueError

text \<open>The loop from frame \<open>i\<close>, \<open>n\<close> frames; the clock is read by each push and each pop.\<close>

fun bench_loop :: "(nat \<Rightarrow> nat) \<Rightarrow> nat \<Rightarrow> nat \<Rightarrow> AudioBridge \<Rightarrow> (AudioBridge, bench_error) result" where
  "bench_loop clock i 0 bridge = Ok bridge"
| "bench_loop clock i (Suc n) bridge =
     result_bind (map_err BenchFrame (AudioFrame_new (word_of_nat i) HFP_WIDEBAND
       (replicate (unat (samples_per_channel HFP_WIDEBAND) * unat (channels HFP_WIDEBAND)) 0))) (\<lambda>frame.
     (case BoundedAudioQueue_push frame (clock (2 * i)) (br_uplink bridge) of
        (Inl e, _) \<Rightarrow> Err (BenchQueue e)
      | (Inr _, up) \<Rightarrow>
          (case BoundedAudioQueue_pop (clock (2 * i + 1)) up of
             (Inl e, _) \<Rightarrow> Err (BenchQueue e)
           | (Inr _, up) \<Rightarrow> bench_loop clock (Suc i) n (bridge\<lparr>br_uplink := up\<rparr>))))"

text \<open>\<open>rates\<close> prints the frame rate and its multiple of real time, which depend on the elapsed time.\<close>

definition audio_bench :: "(nat \<Rightarrow> nat) \<Rightarrow> string \<Rightarrow> (string, bench_error) result" where
  "audio_bench clock rates =
     result_bind (map_err BenchQueue (AudioBridge_new QUEUE_CAPACITY)) (\<lambda>bridge.
     result_bind (bench_loop clock 0 FRAME_COUNT bridge) (\<lambda>bridge.
     result_bind (map_err BenchQueue (AudioBridge_summary bridge)) (\<lambda>summary.
       Ok (''AUDIO_BENCH=PASS frames='' @ decimal FRAME_COUNT @ rates @
           '' dropped='' @ decimal (unat (qs_dropped (bs_uplink summary))) @ LF))))"

section \<open>What they report\<close>

text \<open>A queue that is emptied after every push never drops.\<close>

definition idle_queue :: "BoundedAudioQueue \<Rightarrow> bool" where
  "idle_queue q \<longleftrightarrow> queue_ok q \<and> queue_contents q = [] \<and> qs_dropped (qst_summary (mutex_data (bq_state q))) = 0"

lemma idle_round:
  assumes "idle_queue q"
  shows "\<exists>q1 x q2. BoundedAudioQueue_push f t q = (Ok (), q1) \<and> BoundedAudioQueue_pop u q1 = (Ok x, q2) \<and> idle_queue q2"
proof -
  have q: "queue_ok q" "qst_frames (mutex_data (bq_state q)) = []" "0 < bq_capacity q"
    "qs_dropped (qst_summary (mutex_data (bq_state q))) = 0"
    using assms by (simp_all add: idle_queue_def queue_contents_def queue_ok_def)
  obtain q1 where p: "BoundedAudioQueue_push f t q = (Ok (), q1)"
    "qst_frames (mutex_data (bq_state q1)) = [\<lparr>qf_frame = f, qf_enqueued_at = t\<rparr>]"
    "qs_dropped (qst_summary (mutex_data (bq_state q1))) = 0"
    using queue_push_state [OF q(1), of f t] q by (simp add: evict_drop)
  have 1: "queue_ok q1" using audio_queue.push_ok [OF q(1), of t f] p(1) by (simp add: queue_push_def)
  obtain x q2 where r: "BoundedAudioQueue_pop u q1 = (Ok x, q2)" "qst_frames (mutex_data (bq_state q2)) = []"
    "qs_dropped (qst_summary (mutex_data (bq_state q2))) = 0"
    using queue_pop_state [OF 1, of u] p(2,3) by simp
  have "queue_ok q2" using audio_queue.pop_ok [OF 1, of u] r(1) by (simp add: queue_pop_def)
  with p(1) r show ?thesis by (auto simp: idle_queue_def queue_contents_def)
qed

lemma bench_loop_idle:
  "idle_queue (br_uplink bridge) \<Longrightarrow>
   \<exists>up. bench_loop clock i n bridge = Ok (bridge\<lparr>br_uplink := up\<rparr>) \<and> idle_queue up"
proof (induction n arbitrary: i bridge)
  case 0
  then show ?case by (intro exI [of _ "br_uplink bridge"]) simp
next
  case (Suc n)
  let ?f = "\<lparr>fr_sequence = word_of_nat i, fr_format = HFP_WIDEBAND, fr_samples = replicate 120 0\<rparr>"
  obtain q1 x q2 where r: "BoundedAudioQueue_push ?f (clock (2 * i)) (br_uplink bridge) = (Ok (), q1)"
    "BoundedAudioQueue_pop (clock (2 * i + 1)) q1 = (Ok x, q2)" "idle_queue q2"
    using idle_round [OF Suc.prems] by blast
  then show ?case
    using Suc.IH [of "bridge\<lparr>br_uplink := q2\<rparr>" "Suc i"]
    by (simp add: AudioFrame_new_def HFP_WIDEBAND_def)
qed

text \<open>The benchmark measures the queue, and never its overflow: it passes with no frame dropped.\<close>

theorem audio_bench_drops_nothing:
  "audio_bench clock rates = Ok (''AUDIO_BENCH=PASS frames='' @ decimal FRAME_COUNT @ rates @ '' dropped='' @ decimal 0 @ LF)"
proof -
  obtain q where q: "BoundedAudioQueue_new QUEUE_CAPACITY = Ok q" "idle_queue q"
  proof -
    obtain q where n: "BoundedAudioQueue_new QUEUE_CAPACITY = Ok q"
      by (simp add: BoundedAudioQueue_new_def QUEUE_CAPACITY_def)
    then have "idle_queue q"
      using queue_ok_new [OF n]
      by (auto simp: idle_queue_def queue_contents_def BoundedAudioQueue_new_def AudioQueueSummary_default_def
          split: if_splits)
    with n show ?thesis by (rule that)
  qed
  obtain up where loop: "bench_loop clock 0 FRAME_COUNT \<lparr>br_uplink = q, br_downlink = q\<rparr> =
      Ok \<lparr>br_uplink = up, br_downlink = q\<rparr>" "idle_queue up"
    using bench_loop_idle [of "\<lparr>br_uplink = q, br_downlink = q\<rparr>" clock 0 FRAME_COUNT] q(2) by auto
  have unlocked: "BoundedAudioQueue_summary p = Ok (qst_summary (mutex_data (bq_state p)))" if "idle_queue p" for p
    using queue_ok_unlocked [of p] that
    by (metis BoundedAudioQueue_summary_def idle_queue_def lock_simps(2) result_bind_simps(2))
  have "qs_dropped (qst_summary (mutex_data (bq_state up))) = 0" using loop(2) by (simp add: idle_queue_def)
  then show ?thesis
    using loop unlocked q
    by (simp add: audio_bench_def AudioBridge_new_def AudioBridge_summary_def del: bench_loop.simps)
qed

text \<open>The contact validator counts what the export printed.\<close>

theorem pbap_validate_counts:
  assumes "list_all printable_contact cs"
  shows "pbap_validate (Some (print_contacts cs)) =
    prints (''PBAP_VALIDATION=PASS contacts='' @ decimal (length cs) @
      '' phones='' @ decimal (sum_list (map (\<lambda>c. length (phones c)) cs)))"
  using parse_print_contacts [OF assms] by (simp add: pbap_validate_def)

end
