(* ===== verification/Redaction.thy ===== *)
theory Redaction
  imports Core_Hfp Core_Contacts Auth Media_Auth Messages Conversations Api_Pages Pcm_Stream Call_Audio
begin

text \<open>
  What \<open>{:?}\<close> prints of the values that carry private data: the hand-written \<open>Debug\<close>
  implementations of both crates (those of tokens, call commands and phone numbers stand with
  their types). The theorem is a confidentiality statement: two values that agree on what is
  public print the same.
\<close>

section \<open>The formatter\<close>

definition quoted :: "string \<Rightarrow> string" where
  "quoted s = [CHR 0x22] @ s @ [CHR 0x22]"

text \<open>\<open>debug_struct\<close> with its fields, and \<open>finish\<close> or \<open>finish_non_exhaustive\<close>.\<close>

definition debug_entries :: "(string \<times> string) list \<Rightarrow> string list" where
  "debug_entries entries = map (\<lambda>(name, text). name @ '': '' @ text) entries"

definition debug_struct :: "string \<Rightarrow> (string \<times> string) list \<Rightarrow> string" where
  "debug_struct name entries =
     (if entries = [] then name else name @ '' { '' @ join_str '', '' (debug_entries entries) @ '' }'')"

definition debug_struct_open :: "string \<Rightarrow> (string \<times> string) list \<Rightarrow> string" where
  "debug_struct_open name entries = name @ '' { '' @ join_str '', '' (debug_entries entries @ [''..'']) @ '' }''"

text \<open>An \<open>Option\<close> of a text without characters that are escaped.\<close>

definition debug_option :: "string option \<Rightarrow> string" where
  "debug_option v = (case v of None \<Rightarrow> ''None'' | Some s \<Rightarrow> debug_tuple ''Some'' (quoted s))"

definition debug_word :: "'a::len word \<Rightarrow> string" where
  "debug_word w = decimal (unat w)"

section \<open>Audio\<close>

definition AudioFormat_debug :: "AudioFormat \<Rightarrow> string" where
  "AudioFormat_debug f = debug_struct ''AudioFormat'' [(''sample_rate_hz'', debug_word (sample_rate_hz f)),
     (''channels'', debug_word (channels f)), (''samples_per_channel'', debug_word (samples_per_channel f))]"

definition AudioFrame_debug :: "AudioFrame \<Rightarrow> string" where
  "AudioFrame_debug f = debug_struct ''AudioFrame'' [(''sequence'', debug_word (fr_sequence f)),
     (''format'', AudioFormat_debug (fr_format f)), (''sample_count'', decimal (length (fr_samples f)))]"

definition AudioPacket_debug :: "AudioPacket \<Rightarrow> string" where
  "AudioPacket_debug p = debug_struct ''AudioPacket''
     [(''capture_time_micros'', debug_word (pk_capture_time_micros p)), (''frame'', AudioFrame_debug (pk_frame p))]"

definition JitterBufferSummary_debug :: "JitterBufferSummary \<Rightarrow> string" where
  "JitterBufferSummary_debug s = debug_struct ''JitterBufferSummary'' [(''depth'', decimal (js_depth s)),
     (''received'', debug_word (js_received s)), (''emitted'', debug_word (js_emitted s)),
     (''duplicate'', debug_word (js_duplicate s)), (''late'', debug_word (js_late s)),
     (''missing'', debug_word (js_missing s)), (''overflow'', debug_word (js_overflow s))]"

definition FramedPcmMediaBridge_debug :: "FramedPcmMediaBridge \<Rightarrow> string" where
  "FramedPcmMediaBridge_debug b = debug_struct ''FramedPcmMediaBridge'' [(''format'', AudioFormat_debug (fb_format b)),
     (''uplink'', JitterBufferSummary_debug (jb_summary (fb_uplink b)))]"

definition LiveAudioBridge_debug :: "LiveAudioBridge \<Rightarrow> string" where
  "LiveAudioBridge_debug b = debug_struct_open ''LiveAudioBridge''
     [(''failure_code'', debug_option (LiveAudioBridge_failure_code (lb_failure b)))]"

definition ScoNodePair_debug :: "ScoNodePair \<Rightarrow> string" where
  "ScoNodePair_debug p = debug_struct ''ScoNodePair''
     [(''source_serial'', debug_word (np_source_serial p)), (''sink_serial'', debug_word (np_sink_serial p))]"

section \<open>Contacts, conversations and messages\<close>

definition Contact_debug :: "Contact \<Rightarrow> string" where
  "Contact_debug c = debug_struct ''Contact''
     [(''display_name'', debug_option (map_option (\<lambda>_. ''[redacted]'') (display_name c))),
      (''phone_count'', decimal (length (phones c)))]"

definition ContactItem_debug :: "ContactItem \<Rightarrow> string" where
  "ContactItem_debug _ = ''ContactItem([private fields redacted])''"

definition StoredConversation_debug :: "StoredConversation \<Rightarrow> string" where
  "StoredConversation_debug _ = ''StoredConversation([private fields redacted])''"

definition StoredMessage_debug :: "StoredMessage \<Rightarrow> string" where
  "StoredMessage_debug _ = ''StoredMessage([private fields redacted])''"

definition ConversationItem_debug :: "ConversationItem \<Rightarrow> string" where
  "ConversationItem_debug _ = ''ConversationItem([private fields redacted])''"

definition MessageItem_debug :: "MessageItem \<Rightarrow> string" where
  "MessageItem_debug _ = ''MessageItem([private fields redacted])''"

definition MessageOperationId_debug :: "MessageOperationId \<Rightarrow> string" where
  "MessageOperationId_debug _ = ''MessageOperationId([redacted])''"

definition OutboundMessage_debug :: "OutboundMessage \<Rightarrow> string" where
  "OutboundMessage_debug _ = ''OutboundMessage { recipient: [redacted], body: [redacted] }''"

section \<open>Media sessions\<close>

definition MediaSessionGrant_debug :: "MediaSessionGrant \<Rightarrow> string" where
  "MediaSessionGrant_debug g = debug_struct_open ''MediaSessionGrant'' [(''credential'', quoted ''[REDACTED]''),
     (''revoked'', bool_debug (gr_revoked g)), (''claimed'', bool_debug (gr_claimed g))]"

definition MediaSessionEnrollment_debug :: "MediaSessionEnrollment \<Rightarrow> string" where
  "MediaSessionEnrollment_debug e = debug_struct ''MediaSessionEnrollment'' [(''session_id'', quoted ''[REDACTED]''),
     (''credential'', quoted ''[REDACTED]''), (''lifetime_seconds'', decimal (en_lifetime_seconds e))]"

definition MediaSessionLease_debug :: "addr \<Rightarrow> string" where
  "MediaSessionLease_debug _ = debug_struct_open ''MediaSessionLease'' [(''credential'', quoted ''[REDACTED]'')]"

definition MediaSessionRegistry_debug :: "MediaSystem \<Rightarrow> string" where
  "MediaSessionRegistry_debug _ = debug_struct ''MediaSessionRegistry'' [(''session_details'', quoted ''[REDACTED]'')]"

section \<open>Only what is public is printed\<close>

lemmas debug_defs =
  AudioFrame_debug_def AudioPacket_debug_def Contact_debug_def MediaSessionGrant_debug_def
  MediaSessionEnrollment_debug_def FramedPcmMediaBridge_debug_def LiveAudioBridge_debug_def

text \<open>
  Frames with other samples, contacts with other names and numbers, grants and enrollments with
  other secrets, and bridges with other buffered audio or processes print the same.
\<close>

theorem debug_redacts:
  "AudioPacket_debug (p\<lparr>pk_frame := f\<lparr>fr_samples := xs\<rparr>\<rparr>) =
     AudioPacket_debug (p\<lparr>pk_frame := f\<lparr>fr_samples := replicate (length xs) 0\<rparr>\<rparr>)"
  "Contact_debug (c\<lparr>display_name := map_option name (display_name c), phones := map number (phones c)\<rparr>) = Contact_debug c"
  "MediaSessionGrant_debug (g\<lparr>gr_token := token, gr_expires_at := t\<rparr>) = MediaSessionGrant_debug g"
  "MediaSessionEnrollment_debug (e\<lparr>en_session_id := ident, en_token := secret\<rparr>) = MediaSessionEnrollment_debug e"
  "FramedPcmMediaBridge_debug (b\<lparr>fb_uplink := (fb_uplink b)\<lparr>jb_frames := frames\<rparr>\<rparr>) = FramedPcmMediaBridge_debug b"
  "LiveAudioBridge_debug (l\<lparr>lb_session := session, lb_capture := capture, lb_playback := playback\<rparr>) = LiveAudioBridge_debug l"
  by (simp_all add: debug_defs option.map_comp comp_def)

end
