(* ===== verification/Store_Files.thy ===== *)
theory Store_Files
  imports Contact_Store Thread_List
begin

text \<open>
  How the two stores come up: the contact database file with its permissions
  (\<open>ContactStore::open\<close> in \<open>crates/analogconnectd/src/contacts.rs\<close>), and the message store behind
  its cell (\<open>ImsgConversationRepository::store\<close> in \<open>conversations.rs\<close>). The file system, SQLite's
  answers, the configuration, the keyring and \<open>Store::open\<close> are parameters.
\<close>

section \<open>The contact database file\<close>

record ContactFile =
  fl_mode :: u16
  fl_db :: ContactDb

text \<open>\<open>0o600\<close>, reading and writing by the owner.\<close>

definition OWNER_ONLY :: u16 where "OWNER_ONLY = 0x180"

text \<open>Which of the calls succeed, and the mask the process creates files with.\<close>

record OpenEnv =
  oe_umask :: u16
  oe_opens :: bool
  oe_secures :: bool
  oe_connects :: bool
  oe_executes :: bool

text \<open>\<open>CREATE TABLE IF NOT EXISTS\<close>: the tables of a new file are empty, those of an old one stay.\<close>

definition from_connection :: "bool \<Rightarrow> ContactDb \<Rightarrow> (ContactStore, ContactStoreError) result" where
  "from_connection executes db = (if executes then Ok (Mutex False db) else Err Database)"

definition ContactStore_open ::
  "OpenEnv \<Rightarrow> ContactFile option \<Rightarrow> (ContactStore, ContactStoreError) result \<times> ContactFile option" where
  "ContactStore_open env disk =
     (if \<not> oe_opens env then (Err FilePermissions, disk)
      else let opened = (case disk of
             None \<Rightarrow> \<lparr>fl_mode = OWNER_ONLY AND NOT (oe_umask env), fl_db = \<lparr>db_contacts = [], db_phones = []\<rparr>\<rparr>
           | Some old \<Rightarrow> old)
      in if \<not> oe_secures env then (Err FilePermissions, Some opened)
         else let secured = opened\<lparr>fl_mode := OWNER_ONLY\<rparr>
         in if \<not> oe_connects env then (Err Database, Some secured)
            else (from_connection (oe_executes env) (fl_db secured), Some secured))"

text \<open>The permissions others than the owner would need.\<close>

definition private_mode :: "u16 \<Rightarrow> bool" where
  "private_mode mode \<longleftrightarrow> mode AND 0x7F = 0"

lemma masked_private: "private_mode (OWNER_ONLY AND NOT m)"
proof -
  have "(OWNER_ONLY AND NOT m) AND 0x7F = (OWNER_ONLY AND 0x7F) AND NOT m"
    by (simp only: and.assoc and.commute and.left_commute)
  then show ?thesis by (simp add: private_mode_def OWNER_ONLY_def)
qed

text \<open>
  The contact database is private whenever it is used: a store is only opened on a file that its owner
  alone can read, whatever permissions an existing file had; a new file is never created with
  more, even when a later step fails; and opening loses no contact.
\<close>

theorem contact_file_private:
  assumes "ContactStore_open env disk = (r, disk')"
  shows "(is_ok r \<longrightarrow> (\<exists>f. disk' = Some f \<and> fl_mode f = OWNER_ONLY \<and> r = Ok (Mutex False (fl_db f)))) \<and>
    (disk = None \<longrightarrow> (case disk' of None \<Rightarrow> True | Some f \<Rightarrow> private_mode (fl_mode f))) \<and>
    (case disk of None \<Rightarrow> True | Some old \<Rightarrow> map_option fl_db disk' = Some (fl_db old))"
  using assms masked_private [of "oe_umask env"]
  by (cases disk) (auto simp: ContactStore_open_def from_connection_def Let_def private_mode_def OWNER_ONLY_def split: if_splits)

section \<open>The message store behind its cell\<close>

text \<open>The steps of the initialisation; a step that fails yields nothing.\<close>

record StoreEnv =
  sn_joins :: bool
  sn_config :: "string option option"
  sn_keyring :: bool
  sn_key :: "string option"
  sn_open :: "string \<Rightarrow> string \<Rightarrow> Store option"

definition store_location :: "StoreEnv \<Rightarrow> (string \<times> string, ConversationError) result" where
  "store_location env =
     result_bind (ok_or (sn_config env) ConversationError.Unavailable) (\<lambda>resolved.
     result_bind (ok_or resolved ConversationError.Unavailable) (\<lambda>path.
       if \<not> sn_keyring env then Err ConversationError.Unavailable
       else result_bind (ok_or (sn_key env) ConversationError.Unavailable) (\<lambda>key. Ok (path, key))))"

definition init_store :: "StoreEnv \<Rightarrow> (Store, ConversationError) result" where
  "init_store env =
     (if \<not> sn_joins env then Err ConversationError.Unavailable
      else result_bind (store_location env) (\<lambda>(path, key).
           ok_or (sn_open env path key) ConversationError.Unavailable))"

text \<open>\<open>get_or_try_init\<close>: a store that is there is kept, a failure leaves the cell empty.\<close>

definition ImsgConversationRepository_store ::
  "StoreEnv \<Rightarrow> Store option \<Rightarrow> (Store, ConversationError) result \<times> Store option" where
  "ImsgConversationRepository_store env cell =
     (case cell of
        Some store \<Rightarrow> (Ok store, cell)
      | None \<Rightarrow> (case init_store env of Inl e \<Rightarrow> (Err e, None) | Inr store \<Rightarrow> (Ok store, Some store)))"

text \<open>The conversations of a repository that opens its store when it is first asked.\<close>

definition Imsg_conversations ::
  "StoreEnv \<Rightarrow> (string list \<Rightarrow> string list) \<Rightarrow> Store option \<Rightarrow>
   (StoredConversation list, ConversationError) result \<times> Store option" where
  "Imsg_conversations env arrange cell =
     (case ImsgConversationRepository_store env cell of
        (Inl e, cell) \<Rightarrow> (Err e, cell)
      | (Inr store, cell) \<Rightarrow>
          (result_bind (map_err (\<lambda>_. ConversationError.Unavailable) (fst (Store_threads arrange store))) (\<lambda>rows.
             collect_results (map conversation_of_thread rows)), cell))"

lemma Imsg_conversations_repository:
  "fst (Imsg_conversations env arrange cell) =
     ConversationRepository_conversations (Store_threads arrange) (Imsg (snd (ImsgConversationRepository_store env cell)))"
  by (auto simp: Imsg_conversations_def ImsgConversationRepository_store_def ConversationRepository_conversations_def
      init_store_def store_location_def result_bind_def ok_or_def split: option.splits sum.splits if_splits)

fun ask_store :: "StoreEnv list \<Rightarrow> Store option \<Rightarrow> Store option" where
  "ask_store [] cell = cell"
| "ask_store (env # envs) cell = ask_store envs (snd (ImsgConversationRepository_store env cell))"

text \<open>
  The store is opened once, by the first attempt that succeeds; attempts before it fail with
  the store unavailable and leave the next one its chance, and whatever the environment says
  later, the opened store stays.
\<close>

theorem store_opened_once:
  assumes "\<forall>env \<in> set failing. \<not> is_ok (init_store env)" and "init_store env = Ok store"
  shows "ask_store failing None = None \<and> ask_store (failing @ env # later) None = Some store \<and>
    (\<forall>env \<in> set failing. fst (ImsgConversationRepository_store env None) = Err ConversationError.Unavailable)"
proof -
  have kept: "ask_store envs (Some s) = Some s" for envs s
    by (induction envs) (simp_all add: ImsgConversationRepository_store_def)
  have failed: "ImsgConversationRepository_store e None = (Err ConversationError.Unavailable, None)" if "\<not> is_ok (init_store e)" for e
  proof (cases "init_store e")
    case (Inl x)
    then have "x = ConversationError.Unavailable"
      by (auto simp: init_store_def store_location_def result_bind_def ok_or_def split: if_splits option.splits sum.splits)
    then show ?thesis using Inl by (simp add: ImsgConversationRepository_store_def)
  qed (use that in simp)
  have none: "ask_store failing None = None"
    using assms(1) by (induction failing) (simp_all add: failed)
  have append: "ask_store (xs @ ys) c = ask_store ys (ask_store xs c)" for xs ys c
    by (induction xs arbitrary: c) simp_all
  show ?thesis
    using assms none kept failed by (simp add: append ImsgConversationRepository_store_def)
qed

end
