(* ===== verification/Reply_Safety.thy ===== *)
theory Reply_Safety
  imports Api_Pages Thread_List Ancs_Groups
begin

text \<open>
  From the evidence about a message to what the client is offered: the conversation page over the
  store-backed repository, after a correlation was applied to the store. It joins \<open>apply_correlation\<close>
  (\<open>ancs_groups.rs\<close>), \<open>Store::threads\<close>, the conversion of its rows (\<open>conversations.rs\<close>) and
  \<open>conversation_page\<close> (\<open>lib.rs\<close>).
\<close>

section \<open>What a replyable item stands for\<close>

text \<open>One peer, no group, and no doubt about the messages of the conversation.\<close>

definition direct_conversation :: "string \<Rightarrow> Store \<Rightarrow> bool" where
  "direct_conversation k s \<longleftrightarrow> st_groups s k = None \<and>
     (\<forall>m \<in> set (thread_messages k s). \<forall>n \<in> set (thread_messages k s).
        m_address m \<noteq> [] \<and> m_address n \<noteq> [] \<longrightarrow> m_address m = m_address n) \<and>
     (\<forall>m \<in> set (st_messages s). m_conversation_key m = k \<longrightarrow> st_ambiguous s (m_map_handle m) = None)"

lemma conversation_of_group:
  "sv_is_ancs_group (conversation_of arrange s k) \<longleftrightarrow> st_groups s k \<noteq> None"
  by (simp add: conversation_of_def conversation_of_thread_def thread_row_def try_unsigned_def Let_def)

lemma one_peer:
  assumes "length (peer_addresses ms) \<le> 1" and "m \<in> set ms" and "n \<in> set ms" and "m_address m \<noteq> []" and "m_address n \<noteq> []"
  shows "m_address m = m_address n"
proof -
  have "set (peer_addresses ms) = {a. a \<noteq> [] \<and> a \<in> m_address ` set ms}" by (auto simp: peer_addresses_def)
  then have "m_address m \<in> set (peer_addresses ms)" "m_address n \<in> set (peer_addresses ms)" using assms(2-5) by auto
  moreover obtain a where "set (peer_addresses ms) \<subseteq> {a}"
    using assms(1) by (cases "peer_addresses ms") (auto simp: le_Suc_eq)
  ultimately show ?thesis by blast
qed

lemma direct_conversation_of:
  assumes "sv_participant_count (conversation_of arrange s k) \<le> 1"
    and "\<not> sv_is_ancs_group (conversation_of arrange s k)" and "\<not> sv_identity_conflict (conversation_of arrange s k)"
  shows "direct_conversation k s"
  using assms one_peer [of "thread_messages k s"]
  by (auto simp: direct_conversation_def conversation_of_group conversation_of_fields dom_def)

lemma repository_rows:
  assumes "ConversationRepository_conversations (Store_threads arrange) (Imsg (Some s)) = Ok rows"
  shows "set rows \<subseteq> range (conversation_of arrange s)"
proof -
  have "st_up s" using assms by (auto simp: ConversationRepository_conversations_def Store_threads_def call_def split: if_splits)
  from conversations_of_store [OF this, of arrange] show ?thesis using assms by auto
qed

lemma replyable_item_direct:
  assumes "alias_ok (mutex_data aliases)"
    and "conversation_page_of fill joins fails contacts (Store_threads arrange) (Imsg (Some s)) query random aliases =
      (Ok page, random', aliases')"
    and "item \<in> set (vp_items page)" and "ci_can_reply item"
  shows "\<exists>k. ConversationAliases_key_for (mutex_data aliases') (ci_conversation_id item) = Some k \<and> direct_conversation k s"
proof -
  obtain rows c limit where rows: "ConversationRepository_conversations (Store_threads arrange) (Imsg (Some s)) = Ok rows"
    and shown: "list_all2 (shows_row (mutex_data aliases')) (take limit (drop (cursor_offset c) rows)) (vp_items page)"
    using conversation_page_shows_rows [OF assms(1,2)] by blast
  let ?xs = "take limit (drop (cursor_offset c) rows)"
  obtain i where i: "i < length (vp_items page)" "vp_items page ! i = item"
    using assms(3) by (auto simp: in_set_conv_nth)
  then have "i < length ?xs" using list_all2_lengthD [OF shown] by simp
  then have "?xs ! i \<in> set rows" by (meson in_set_dropD in_set_takeD nth_mem)
  moreover have "shows_row (mutex_data aliases') (?xs ! i) item" using list_all2_nthD2 [OF shown i(1)] i(2) by simp
  ultimately obtain row where row: "row \<in> set rows" "shows_row (mutex_data aliases') row item" by blast
  obtain k where "row = conversation_of arrange s k" using repository_rows [OF rows] row(1) by blast
  then show ?thesis
    using row(2) assms(4) direct_conversation_of [of arrange s k] by (simp add: shows_row_def conversation_of_fields(1))
qed

section \<open>After a correlation\<close>

lemma applied_group:
  assumes "apply_correlation (CorrelationResult.Group h uid gid subtitle sender t) s = (Ok ApplyCorrelationResult.GroupAssigned, s')"
  shows "st_groups s' gid \<noteq> None \<and> (\<forall>m \<in> set (st_messages s'). m_map_handle m = h \<longrightarrow> m_conversation_key m = gid)"
proof -
  obtain r s1 where a: "Store_assign_ancs_group h gid subtitle sender (uid_bytes uid) t s = (r, s1)" by (rule prod.exhaust)
  with assms have r: "r = Ok Assigned" "s1 = s'" by (auto split: sum.splits GroupAssignmentResult.splits)
  show ?thesis
  proof (cases rule: assign_cases [of h gid subtitle sender "uid_bytes uid" t s])
    case assigned
    then have s': "s' = (update_messages h (\<lambda>m. m\<lparr>m_conversation_key := gid\<rparr>)
        (upsert_assignment h gid (uid_bytes uid) t (upsert_sender gid sender t (upsert_group gid subtitle t s))))
        \<lparr>st_ambiguous := (st_ambiguous s)(h := None)\<rparr>"
      using a r by simp
    have "st_groups s' gid \<noteq> None"
      by (simp add: s' update_messages_def upsert_assignment_def upsert_sender_def upsert_group_def)
    moreover have "m_conversation_key m = gid" if "m \<in> set (st_messages s')" "m_map_handle m = h" for m
    proof -
      have "m \<in> (\<lambda>n. if m_map_handle n = h then n\<lparr>m_conversation_key := gid\<rparr> else n) `
          set (st_messages (upsert_assignment h gid (uid_bytes uid) t (upsert_sender gid sender t (upsert_group gid subtitle t s))))"
        using that(1) by (simp add: s' update_messages_def)
      then obtain n where "m = (if m_map_handle n = h then n\<lparr>m_conversation_key := gid\<rparr> else n)" by (rule imageE)
      then show ?thesis using that(2) by (cases "m_map_handle n = h") simp_all
    qed
    ultimately show ?thesis by blast
  qed (use a r in simp_all)
qed

text \<open>
  C8: A reply is only offered where it cannot reach the wrong people. Whatever correlation was just
  applied to the store: an item of the conversation page that offers a reply stands for a
  conversation whose visible messages have one peer address at most, which is no group, and of
  which no message is marked ambiguous. None of the messages an ambiguous result named is in it, and
  neither is the message that was just assigned to a group.
\<close>

theorem reply_needs_direct_conversation:
  assumes "apply_correlation result s = (Ok outcome, s')"
    and "alias_ok (mutex_data aliases)"
    and "conversation_page_of fill joins fails contacts (Store_threads arrange) (Imsg (Some s')) query random aliases =
      (Ok page, random', aliases')"
    and "item \<in> set (vp_items page)" and "ci_can_reply item"
  shows "\<exists>k. ConversationAliases_key_for (mutex_data aliases') (ci_conversation_id item) = Some k \<and>
    direct_conversation k s' \<and>
    (\<forall>m \<in> set (st_messages s'). m_conversation_key m = k \<longrightarrow>
       (case result of
          CorrelationResult.Ambiguous hs _ \<Rightarrow> m_map_handle m \<notin> set hs
        | CorrelationResult.Group h _ _ _ _ _ \<Rightarrow> outcome = ApplyCorrelationResult.GroupAssigned \<longrightarrow> m_map_handle m \<noteq> h
        | _ \<Rightarrow> True))"
proof -
  obtain k where k: "ConversationAliases_key_for (mutex_data aliases') (ci_conversation_id item) = Some k" "direct_conversation k s'"
    using replyable_item_direct [OF assms(2-5)] by blast
  have amb: "set hs \<subseteq> dom (st_ambiguous s')" if "result = CorrelationResult.Ambiguous hs t" for hs t
    using assms(1) that mark_all_marks [of hs t s s'] by (auto split: prod.splits sum.splits)
  have grp: "st_groups s' gid \<noteq> None \<and> (\<forall>m \<in> set (st_messages s'). m_map_handle m = h \<longrightarrow> m_conversation_key m = gid)"
    if "result = CorrelationResult.Group h uid gid d f t" "outcome = ApplyCorrelationResult.GroupAssigned" for h uid gid d f t
    using assms(1) that applied_group by simp
  show ?thesis
    using k amb grp by (cases result) (fastforce simp: direct_conversation_def)+
qed

text \<open>Two conversations; the message of the newer one is named by an ambiguous result.\<close>

definition reply_store :: Store where
  "reply_store = empty_store\<lparr>st_messages :=
     [thread_sample_row 1 ''inbox'', (thread_sample_row 2 ''inbox'')\<lparr>m_conversation_key := ''j''\<rparr>]\<rparr>"

abbreviation ambiguous_two :: CorrelationResult where
  "ambiguous_two \<equiv> CorrelationResult.Ambiguous [''2''] 9"

abbreviation page_of :: "Store \<Rightarrow> (ConversationPage, StatusCode) result \<times> nat \<times> ConversationAliases mutex" where
  "page_of s \<equiv> conversation_page_of zero_random True (\<lambda>_. False) ContactStore_in_memory (Store_threads (\<lambda>ks. ks))
     (Imsg (Some s)) \<lparr>qq_cursor = None, qq_limit = None\<rparr> 0 (Mutex False ConversationAliases_default)"

lemma reply_page:
  "case apply_correlation ambiguous_two reply_store of
     (Inr _, s) \<Rightarrow> (case page_of s of (Inr page, _, _) \<Rightarrow> map ci_can_reply (vp_items page) = [False, True] | _ \<Rightarrow> False)
   | _ \<Rightarrow> False"
  by code_simp

theorem reply_needs_direct_conversation_witness:
  "\<exists>outcome s page random aliases item k. apply_correlation ambiguous_two reply_store = (Ok outcome, s) \<and>
     page_of s = (Ok page, random, aliases) \<and> item \<in> set (vp_items page) \<and> ci_can_reply item \<and>
     ConversationAliases_key_for (mutex_data aliases) (ci_conversation_id item) = Some k \<and> direct_conversation k s \<and>
     (\<forall>m \<in> set (st_messages s). m_conversation_key m = k \<longrightarrow> m_map_handle m \<noteq> ''2'')"
proof -
  obtain outcome s where a: "apply_correlation ambiguous_two reply_store = (Ok outcome, s)"
    using reply_page by (auto split: prod.splits sum.splits)
  obtain page random aliases where p: "page_of s = (Ok page, random, aliases)" "map ci_can_reply (vp_items page) = [False, True]"
    using reply_page a by (auto split: prod.splits sum.splits)
  then obtain item where item: "item \<in> set (vp_items page)" "ci_can_reply item"
    by (metis list.set_intros(1,2) imageE list.set_map)
  have "alias_ok (mutex_data (Mutex False ConversationAliases_default))"
    by (simp add: alias_ok_def ConversationAliases_default_def)
  from reply_needs_direct_conversation [OF a this p(1) item] obtain k where
    "ConversationAliases_key_for (mutex_data aliases) (ci_conversation_id item) = Some k" "direct_conversation k s"
    "\<forall>m \<in> set (st_messages s). m_conversation_key m = k \<longrightarrow> m_map_handle m \<noteq> ''2''" by auto
  with a p(1) item show ?thesis by blast
qed

end
