(* ===== verification/Spec2Isabelle.thy ===== *)
theory Spec2Isabelle
  imports Core_State Core_Audio Core_Hfp Core_Contacts Auth Media_Auth Ancs_Transport Message_Store
    Ancs_Groups Jitter_Buffer Audio_Queue Pcm_Stream Hfp_Backends Call_Audio Messages
    Contact_Store Conversations Media_Stream Api_Pages Api_Commands Ancs_Ingest Daemon
    Process_Runner Startup Ancs_Bearer Ancs_Task Frame_Typing Thread_List Validators
    Redaction Store_Files Reply_Safety
begin

text \<open>
  Verification of analogconnect: a daemon (\<open>src/crates/analogconnectd\<close>) over a core crate
  (\<open>src/crates/analogconnect-core\<close>) that connects an iPhone, reached by Bluetooth, with an
  Android client, reached by HTTP and a WebSocket. It controls calls by HFP, bridges call audio,
  mirrors contacts and messages, and groups messages by evidence from Apple's notification
  service (ANCS).

  \<^bold>\<open>How the parts interact.\<close> \<open>main.rs\<close> reads the environment, builds the shared state of \<open>lib.rs\<close>,
  starts three background tasks (message synchronisation, contact synchronisation, ANCS) and
  serves the routes. Routes read pages out of the contact store and the message store, change the
  call through a backend (WirePlumber over \<open>busctl\<close>, or AT commands), send messages through a
  helper program, and issue media sessions. A media session is claimed once by a WebSocket, whose two
  loops move audio packets between the peer and the audio bridge, which workers connect to
  \<open>pw-cat\<close> processes on the SCO nodes. The ANCS task takes notifications from the BlueZ bearer and
  correlates them with stored messages.

  \<^bold>\<open>Conventions.\<close> A struct is a \<open>record\<close>, an enum a \<open>datatype\<close> with the source's constructors, an integer a
  word of its width (\<open>Prelude\<close> names them; \<open>usize\<close> and durations in nanoseconds are \<open>nat\<close>, SQLite and
  MAP integers \<open>int\<close>), text a list of its UTF-8 bytes as characters. \<open>Result\<close> is \<open>('a, 'e) result\<close>, a sum
  with \<open>Err\<close> and \<open>Ok\<close>. A mutable receiver is passed and returned; a \<open>Mutex\<close> is its data with a poison
  flag. Clocks, random bytes, operating system, phone, helpers, SQLite failures, JSON and other crates
  are arguments: functions, or records of answers. \<open>Prelude\<close> and \<open>Rust_Text\<close> hold what is used of the
  standard library (results, locks, saturating and byte arithmetic, eviction windows, \<open>trim\<close>, \<open>lines\<close>,
  \<open>split\<close>, UTF-8), \<open>BTree_Map\<close> the ordered map.

  \<^bold>\<open>Interfaces.\<close> \<open>step_machine\<close> (an invariant kept by a step is kept by every run), \<open>bounded_memory\<close> (a
  window that forgets its oldest entries), \<open>codec\<close> and \<open>strict_codec\<close> (encoders with their decoders) in
  \<open>Prelude\<close>; \<open>ordered_map\<close> in \<open>BTree_Map\<close>; \<open>transition_machine\<close> in \<open>Core_State\<close>; \<open>frame_queue\<close> in
  \<open>Audio_Queue\<close>; \<open>call_backend\<close> in \<open>Hfp_Backends\<close>; \<open>cursor_pager\<close> in \<open>Api_Pages\<close>. Each is interpreted on the
  code's own operations, and the properties rest on these interpretations.

  \<^bold>\<open>The core crate.\<close>
    \<^item> \<open>Core_State\<close> (\<open>state.rs\<close>): seven lifecycles with their transition tables; in the machine of the HFP
      service-level connection every stage precedes its readiness (the state the daemon announces is the
      backend's, and does not go through this machine).
    \<^item> \<open>Core_Audio\<close> (\<open>audio.rs\<close>): formats, frames and the packet codec, strict in both directions.
    \<^item> \<open>Core_Hfp\<close> (\<open>hfp.rs\<close>), \<open>Core_Contacts\<close> (\<open>contacts.rs\<close>): call arguments and their debug text; phone numbers
      and the contact listing, with print and parse as a round trip.

  \<^bold>\<open>Access and media sessions.\<close>
    \<^item> \<open>Auth\<close> (\<open>auth.rs\<close>): tokens, rotation and the fixed-window mutation limiter.
    \<^item> \<open>Media_Auth\<close> (\<open>media_auth.rs\<close>): grants in a heap, leases and the registry; the interleaving of issue,
      revoke, drop and the three stages of a claim is the step relation \<open>media_step\<close>, in which at most
      one active lease exists.
    \<^item> \<open>Media_Stream\<close> (\<open>lib.rs\<close>, audio stream): batches, uplink, downlink and the socket as \<open>socket_step\<close>.
      A send stays pending until the transport takes it. After a revocation a socket takes at most 36 more
      steps and begins at most 16 more sends; only a send that never ends can keep it open.

  \<^bold>\<open>Audio.\<close>
    \<^item> \<open>Jitter_Buffer\<close>, \<open>Audio_Queue\<close>, \<open>Pcm_Stream\<close>, \<open>Call_Audio\<close> (all \<open>audio.rs\<close>): playout order and reconstruction of a
      burst; first in first out with counters; framing over any chunking of a pipe and the loops of the
      workers; the teardown watchdog, the search for SCO nodes, and the \<open>pw-cat\<close> processes with the
      live bridge over a table of processes and threads, which leaks neither.
    \<^item> \<open>Frame_Typing\<close>: every frame anywhere in a bridge has the sample count of its format.

  \<^bold>\<open>Calls, messages and contacts.\<close>
    \<^item> \<open>Hfp_Backends\<close> (\<open>hfp.rs\<close>): controller and both backends; a command acts only on the calls just reported
      for the only audio gateway just reported, and the microphone record never disagrees with the phone.
    \<^item> \<open>Messages\<close> (\<open>messages.rs\<close>): schedule, coordinator with its two separate lock sections, validation,
      operation registry, helper.
    \<^item> \<open>Contact_Store\<close> (\<open>contacts.rs\<close>): the tables, transactional replacement (all or nothing at whichever statement fails), searches, caller lookup, helper and
      synchroniser. \<open>Message_Store\<close>, \<open>Thread_List\<close> (\<open>vendor/imsg-store\<close>): the statements the daemon relies on, as
      functions of the tables; \<open>Conversations\<close> (\<open>conversations.rs\<close>): repositories, aliases, cursors. The
      conversation list agrees with what each conversation shows. \<open>Store_Files\<close>: how both stores come up.
    \<^item> \<open>Reply_Safety\<close>: from a correlation applied to the store to the items of the conversation page; a
      reply is offered only in a direct conversation without doubt.

  \<^bold>\<open>ANCS.\<close>
    \<^item> \<open>Ancs_Transport\<close> (\<open>ancs_transport.rs\<close>): the protocol consumer and its supervisor with backoff;
      reassembly independent of fragmentation; a UID is requested again only after its request was
      given up or its completion was forgotten.
    \<^item> \<open>Ancs_Bearer\<close> (\<open>ancs_bluez.rs\<close>): discovery, a session over an event list, the run with pauses.
    \<^item> \<open>Ancs_Groups\<close> (\<open>ancs_groups.rs\<close>): group identity, the correlator, and its results applied to the store.
    \<^item> \<open>Ancs_Ingest\<close>, \<open>Ancs_Task\<close> (\<open>lib.rs\<close>): ingestion of a notification and the task that receives them;
      a group assignment is followed back through store, correlator, channel and bearer to a request
      that was written to the phone.

  \<^bold>\<open>The daemon.\<close>
    \<^item> \<open>Api_Pages\<close>, \<open>Api_Commands\<close>, \<open>Daemon\<close> (\<open>lib.rs\<close>): handlers in the order of their guards and lock sections, the
      routes over one state (\<open>serve\<close>), constructors and one round of each background task. Pages are
      complete, without a credential every route but the health check only refuses (with 401, or with the
      status of an extractor of axum, which run before the handler), mutations are limited, a media
      session needs a call that the last recorded observation shows live, whatever runs between the sections of
      its handler, and an operation is sent once.
    \<^item> \<open>Process_Runner\<close> (\<open>process.rs\<close> and the runners of \<open>hfp.rs\<close> and \<open>audio.rs\<close>), \<open>Startup\<close> (\<open>main.rs\<close>),
      \<open>Validators\<close> (\<open>src/bin\<close>), \<open>Redaction\<close> (the \<open>Debug\<close> implementations).

  \<^bold>\<open>Loops, fuel and bounds.\<close> The polling loop of a helper is a \<open>partial_function\<close>: it is proved to return
  after at most \<open>timeout div 10 ms + 2\<close> polls if the clock advances while it sleeps; a pipe that is never
  closed makes the run \<open>None\<close>. Loops that wait for events are recursions over the list of events they
  get. Worker loops run over the list of reads or ticks; \<open>follow_pages\<close> has fuel, and the properties
  show that one page more than the rows suffices. Eviction windows have the source's sizes (32 pending
  notifications and messages, 64 completed, 256 handles and operations, 32 channel entries).

  \<^bold>\<open>What the code does not do as meant.\<close> Theorems show: a send whose client disconnects blocks every retry
  (\<open>Api_Commands\<close>); messages beyond offset 65535 of a conversation cannot be read (\<open>Api_Pages\<close>); two
  overlapping synchronisations misreport a failure (\<open>Messages\<close>); one failed write stops contact
  synchronisation for good (\<open>Contact_Store\<close>); fetching a message again detaches it from its group
  (\<open>Message_Store\<close>); a failed contact lookup loses a correlation for good (\<open>Ancs_Ingest\<close>); a
  peer that stops reading keeps the socket of a revoked session open (\<open>Media_Stream\<close>). Two comments promise
  more than the code keeps: accepted operations are remembered only within their window (\<open>Messages\<close>), and a
  helper run is only bounded when its pipe ends (\<open>Process_Runner\<close>).

  \<^bold>\<open>Not modelled.\<close> Logging, signal handling and the entry \<open>main\<close> around the run; the spawning and timers
  of tokio (a task is its rounds); axum, rustls, serde, rusqlite and PipeWire themselves (their
  answers are arguments); trait declarations without code; the opening and migration of the
  encrypted message store and the rest of the vendored MAP client, which the daemon runs as a
  separate program; the Android client. Unit tests in the source files account for the lines of the two
  crates that no definition maps to, beside imports, accessors and trait declarations.
\<close>

end
